(* ===== verification/Prelude.thy ===== *)
theory Prelude
  imports Main "HOL-Library.Word"
begin

text \<open>
  Shared vocabulary of the development: bytes and host byte order, the codecs of
  fixed-width integers as they lie in memory, C strings, and the collections of
  simplification rules the component theories add to.

  A struct the code sends with \<open>write\<close> leaves as the bytes it has in memory. The
  model therefore keeps the host's byte order as a parameter (\<open>endian\<close>):
  \<open>mem_of e n w\<close> are the \<open>n\<close> bytes of \<open>w\<close> in the memory of a host of
  byte order \<open>e\<close>, and \<open>hton e n w\<close> is \<open>htobe16\<close>, \<open>htobe32\<close> or
  \<open>htobe64\<close> (and \<open>be16toh\<close>, \<open>be32toh\<close>, \<open>be64toh\<close>, which are the same
  functions) on that host.
\<close>

unbundle bit_operations_syntax

named_theorems codec_simps \<open>encode and decode laws of the wire formats\<close>
named_theorems keeps_intro \<open>rules of the form: this operation keeps the invariant\<close>
named_theorems run_simps \<open>how the program combinators run\<close>

type_synonym byte = "8 word"

section \<open>Integers in memory\<close>

datatype endian = Little | Big

fun word_le :: "nat \<Rightarrow> 'a::len word \<Rightarrow> byte list" where
  "word_le 0 w = []"
| "word_le (Suc n) w = ucast w # word_le n (drop_bit 8 w)"

fun unword_le :: "byte list \<Rightarrow> 'a::len word" where
  "unword_le [] = 0"
| "unword_le (b # bs) = ucast b OR push_bit 8 (unword_le bs)"

definition mem_of :: "endian \<Rightarrow> nat \<Rightarrow> 'a::len word \<Rightarrow> byte list" where
  "mem_of e n w = (case e of Little \<Rightarrow> word_le n w | Big \<Rightarrow> rev (word_le n w))"

definition of_mem :: "endian \<Rightarrow> byte list \<Rightarrow> 'a::len word" where
  "of_mem e bs = (case e of Little \<Rightarrow> unword_le bs | Big \<Rightarrow> unword_le (rev bs))"

definition hton :: "endian \<Rightarrow> nat \<Rightarrow> 'a::len word \<Rightarrow> 'a word" where
  "hton e n w = (case e of Little \<Rightarrow> unword_le (rev (word_le n w)) | Big \<Rightarrow> w)"

text \<open>The bytes of a big-endian integer, most significant first.\<close>

definition be_bytes :: "nat \<Rightarrow> 'a::len word \<Rightarrow> byte list" where
  "be_bytes n w = rev (word_le n w)"

lemma length_word_le [simp]: "length (word_le n w) = n"
  by (induction n arbitrary: w) auto

lemma length_mem_of [simp]: "length (mem_of e n w) = n"
  by (simp add: mem_of_def split: endian.split)

lemma length_be_bytes [simp]: "length (be_bytes n w) = n"
  by (simp add: be_bytes_def)

lemma bit_unword_word_le:
  "bit (unword_le (word_le n (w :: 'a::len word)) :: 'a word) i \<longleftrightarrow> i < 8 * n \<and> bit w i"
proof (induction n arbitrary: w i)
  case 0
  then show ?case by simp
next
  case (Suc n)
  show ?case
  proof (cases "i < 8")
    case True
    then show ?thesis
      by (auto simp: bit_simps bit_imp_le_length)
  next
    case False
    then have "bit (unword_le (word_le (Suc n) w) :: 'a word) i \<longleftrightarrow>
        i < LENGTH('a) \<and> bit (unword_le (word_le n (drop_bit 8 w)) :: 'a word) (i - 8)"
      by (auto simp: bit_simps)
    also have "\<dots> \<longleftrightarrow> i < LENGTH('a) \<and> i - 8 < 8 * n \<and> bit w i"
      using False by (auto simp: Suc.IH bit_simps)
    finally show ?thesis using False by (auto simp: bit_imp_le_length)
  qed
qed

lemma unword_word_le:
  fixes w :: "'a::len word"
  assumes "LENGTH('a) \<le> 8 * n"
  shows "unword_le (word_le n w) = w"
  by (rule bit_eqI) (use assms in \<open>auto simp: bit_unword_word_le dest: bit_imp_le_length\<close>)

lemma bit_unword_le_beyond: "8 * length bs \<le> i \<Longrightarrow> \<not> bit (unword_le bs :: 'a::len word) i"
  by (induction bs arbitrary: i) (auto simp: bit_simps dest: bit_imp_le_length)

lemma word_unword_le:
  "8 * length bs \<le> LENGTH('a) \<Longrightarrow> word_le (length bs) (unword_le bs :: 'a::len word) = bs"
proof (induction bs)
  case Nil
  then show ?case by simp
next
  case (Cons b bs)
  let ?r = "unword_le bs :: 'a word"
  have len: "8 * length bs + 8 \<le> LENGTH('a)" using Cons.prems by simp
  have lo: "ucast (ucast b OR push_bit 8 ?r) = b"
    by (rule bit_eqI) (use len in \<open>auto simp: bit_simps\<close>)
  have hi: "drop_bit 8 (ucast b OR push_bit 8 ?r) = ?r"
  proof (rule bit_eqI)
    fix i
    show "bit (drop_bit 8 (ucast b OR push_bit 8 ?r)) i \<longleftrightarrow> bit ?r i"
    proof (cases "i + 8 < LENGTH('a)")
      case True
      then show ?thesis by (auto simp: bit_simps dest: bit_imp_le_length)
    next
      case False
      with len have "\<not> bit ?r i" by (intro bit_unword_le_beyond) simp
      with False show ?thesis by (auto simp: bit_simps dest: bit_imp_le_length)
    qed
  qed
  from lo hi Cons show ?case by simp
qed

lemma of_mem_mem_of [codec_simps]:
  fixes w :: "'a::len word"
  shows "LENGTH('a) \<le> 8 * n \<Longrightarrow> of_mem e (mem_of e n w) = w"
  by (simp add: of_mem_def mem_of_def unword_word_le split: endian.split)

lemma mem_of_hton [codec_simps]:
  fixes w :: "'a::len word"
  assumes "8 * n = LENGTH('a)"
  shows "mem_of e n (hton e n w) = be_bytes n w"
  using assms word_unword_le [of "rev (word_le n w)", where 'a = 'a]
  by (simp add: mem_of_def hton_def be_bytes_def split: endian.split)

lemma hton_hton [simp]:
  fixes w :: "'a::len word"
  assumes "8 * n = LENGTH('a)"
  shows "hton e n (hton e n w) = w"
  using assms word_unword_le [of "rev (word_le n w)", where 'a = 'a]
  by (simp add: hton_def unword_word_le split: endian.split)

lemma hton_of_mem_be [codec_simps]:
  fixes w :: "'a::len word"
  assumes "8 * n = LENGTH('a)"
  shows "hton e n (of_mem e (be_bytes n w)) = w"
  using mem_of_hton [OF assms, of e w] of_mem_mem_of [of n e "hton e n w"] assms by simp

end
