(* ===== verification/Program.thy ===== *)
theory Program
  imports Prelude
begin

text \<open>
  How C++ control flow is modelled. A function that may throw and changes state is a value
  of type \<open>('s, 'a) prog\<close>: it takes the state and returns an outcome with the new
  state. State changes made before a throw stay, as they do in the code. The outcomes:
  \<open>Ret\<close> a normal return, \<open>Throw\<close> an exception, \<open>Undef\<close> undefined behaviour of
  C++ (an out-of-bounds access, a signed overflow, a dangling iterator), \<open>NoFuel\<close> a
  recursion deeper than the fuel given to it.

  The second part holds the exception classes of \<^verbatim>\<open>types.h\<close> and \<^verbatim>\<open>main.cpp\<close>
  with the fixed buffers their messages are formatted into.
\<close>

section \<open>Exceptions\<close>

type_synonym errno = nat

datatype exn =
    Exception string
  | DeviceException string
  | MsgException string
  | ErrnoException string errno

text \<open>\<open>Exception::what\<close>: the message, for every class of the hierarchy.\<close>

fun what :: "exn \<Rightarrow> string" where
  "what (Exception m) = m"
| "what (DeviceException m) = m"
| "what (MsgException m) = m"
| "what (ErrnoException m e) = m"

text \<open>\<open>error()\<close> of \<open>ErrnoException\<close>.\<close>

fun exn_error :: "exn \<Rightarrow> errno option" where
  "exn_error (ErrnoException m e) = Some e"
| "exn_error _ = None"

definition msgbuf_size :: nat where
  "msgbuf_size = 4096"

text \<open>
  \<open>vsnprintf\<close> into a buffer of \<open>n\<close> bytes keeps at most \<open>n - 1\<close> characters and
  returns the length the whole text would have had.
\<close>

definition vsnprintf :: "nat \<Rightarrow> string \<Rightarrow> string \<times> nat" where
  "vsnprintf n s = (take (n - 1) s, length s)"

definition MsgException_new :: "string \<Rightarrow> exn" where
  "MsgException_new msg = MsgException (fst (vsnprintf msgbuf_size msg))"

text \<open>
  A buffer of characters: a cell holds a character or, as \<open>None\<close>, the terminating zero.
  A write to a cell that is not there is \<open>None\<close>, and so is everything after it.
\<close>

type_synonym buffer = "char option list"

definition poke :: "nat \<Rightarrow> char option \<Rightarrow> buffer \<Rightarrow> buffer option" where
  "poke i c buf = (if i < length buf then Some (buf[i := c]) else None)"

fun pokes :: "nat \<Rightarrow> char option list \<Rightarrow> buffer \<Rightarrow> buffer option" where
  "pokes i [] buf = Some buf"
| "pokes i (c # cs) buf = Option.bind (poke i c buf) (pokes (Suc i) cs)"

text \<open>
  \<open>snprintf (buf + off, n, "%s", s)\<close>: nothing is written when \<open>n\<close> is 0, otherwise
  at most \<open>n - 1\<close> characters and the terminating zero. What it returns is an \<open>int\<close>:
  a length that does not fit is an error.
\<close>

definition snprintf_at :: "nat \<Rightarrow> nat \<Rightarrow> string \<Rightarrow> buffer \<Rightarrow> buffer option" where
  "snprintf_at off n s buf =
     (if n = 0 then Some buf else pokes off (map Some (take (n - 1) s) @ [None]) buf)"

definition printf_result :: "string \<Rightarrow> int" where
  "printf_result s = (if length s < 2 ^ 31 then int (length s) else - 1)"

text \<open>The text a pointer to the buffer stands for.\<close>

definition c_text :: "buffer \<Rightarrow> string" where
  "c_text buf = map the (takeWhile (\<lambda>c. c \<noteq> None) buf)"

text \<open>
  The constructor of \<open>ErrnoException\<close>: the message is formatted, then \<open>": "\<close> and the
  text of \<open>errno\<close> are formatted at \<open>msgbuf_ + end\<close> with the size
  \<open>sizeof(msgbuf_) - size_t (end)\<close>, a subtraction of 64-bit numbers that wraps around.
  \<open>end\<close> is what \<open>vsnprintf\<close> returned, or 0 for an error. The buffer holds anything
  at first (\<open>junk\<close>). A write outside \<open>msgbuf_\<close> is \<open>None\<close>.
\<close>

definition ErrnoException_at ::
    "(nat \<Rightarrow> char option) \<Rightarrow> (errno \<Rightarrow> string) \<Rightarrow> string \<Rightarrow> errno \<Rightarrow> exn option" where
  "ErrnoException_at junk strerr msg err =
     Option.bind (snprintf_at 0 msgbuf_size msg (map junk [0..<msgbuf_size])) (\<lambda>msgbuf.
     let off = (if printf_result msg < 0 then 0 else printf_result msg);
         size = (word_of_nat msgbuf_size - word_of_int off :: 64 word) in
     Option.bind (snprintf_at (nat off) (unat size) ('': '' @ strerr err) msgbuf) (\<lambda>msgbuf.
     Option.bind (poke (msgbuf_size - 1) None msgbuf) (\<lambda>msgbuf.
     Some (ErrnoException (c_text msgbuf) err))))"

text \<open>What it had in its buffer makes no difference (\<open>ErrnoException_result\<close>).\<close>

definition ErrnoException_new :: "(errno \<Rightarrow> string) \<Rightarrow> string \<Rightarrow> errno \<Rightarrow> exn option" where
  "ErrnoException_new = ErrnoException_at (\<lambda>_. None)"

section \<open>Outcomes and programs\<close>

datatype 'a outcome = Ret 'a | Throw exn | Undef | NoFuel

type_synonym ('s, 'a) prog = "'s \<Rightarrow> 'a outcome \<times> 's"

definition ret :: "'a \<Rightarrow> ('s, 'a) prog" where
  "ret x = (\<lambda>s. (Ret x, s))"

definition raise :: "exn \<Rightarrow> ('s, 'a) prog" where
  "raise e = (\<lambda>s. (Throw e, s))"

definition undef :: "('s, 'a) prog" where
  "undef = (\<lambda>s. (Undef, s))"

definition nofuel :: "('s, 'a) prog" where
  "nofuel = (\<lambda>s. (NoFuel, s))"

definition bindP :: "('s, 'a) prog \<Rightarrow> ('a \<Rightarrow> ('s, 'b) prog) \<Rightarrow> ('s, 'b) prog" where
  "bindP m f = (\<lambda>s. case m s of
     (Ret x, s') \<Rightarrow> f x s'
   | (Throw e, s') \<Rightarrow> (Throw e, s')
   | (Undef, s') \<Rightarrow> (Undef, s')
   | (NoFuel, s') \<Rightarrow> (NoFuel, s'))"

definition thenP :: "('s, 'a) prog \<Rightarrow> ('s, 'b) prog \<Rightarrow> ('s, 'b) prog" where
  "thenP m n = bindP m (\<lambda>_. n)"

definition getP :: "('s \<Rightarrow> 'a) \<Rightarrow> ('s, 'a) prog" where
  "getP f = (\<lambda>s. (Ret (f s), s))"

definition modifyP :: "('s \<Rightarrow> 's) \<Rightarrow> ('s, unit) prog" where
  "modifyP f = (\<lambda>s. (Ret (), f s))"

definition whenP :: "bool \<Rightarrow> ('s, unit) prog \<Rightarrow> ('s, unit) prog" where
  "whenP b m = (if b then m else ret ())"

text \<open>\<open>catch (const Exception&)\<close>: undefined behaviour is not caught.\<close>

definition catchP :: "('s, 'a) prog \<Rightarrow> (exn \<Rightarrow> ('s, 'a) prog) \<Rightarrow> ('s, 'a) prog" where
  "catchP m h = (\<lambda>s. case m s of
     (Ret x, s') \<Rightarrow> (Ret x, s')
   | (Throw e, s') \<Rightarrow> h e s'
   | (Undef, s') \<Rightarrow> (Undef, s')
   | (NoFuel, s') \<Rightarrow> (NoFuel, s'))"

fun forP :: "('x \<Rightarrow> ('s, unit) prog) \<Rightarrow> 'x list \<Rightarrow> ('s, unit) prog" where
  "forP f [] = ret ()"
| "forP f (x # xs) = thenP (f x) (forP f xs)"

definition throw_msg :: "string \<Rightarrow> ('s, 'a) prog" where
  "throw_msg m = raise (MsgException_new m)"

definition throw_errno :: "(errno \<Rightarrow> string) \<Rightarrow> string \<Rightarrow> errno \<Rightarrow> ('s, 'a) prog" where
  "throw_errno strerr m err =
     (case ErrnoException_new strerr m err of Some e \<Rightarrow> raise e | None \<Rightarrow> undef)"

text \<open>How a \<open>throw ErrnoException (...)\<close> ends.\<close>

definition thrown :: "(errno \<Rightarrow> string) \<Rightarrow> string \<Rightarrow> errno \<Rightarrow> 'a outcome" where
  "thrown strerr m err =
     (case ErrnoException_new strerr m err of Some e \<Rightarrow> Throw e | None \<Rightarrow> Undef)"

lemma run_throw_errno: "throw_errno strerr m err s = (thrown strerr m err, s)"
  by (simp add: throw_errno_def thrown_def raise_def undef_def split: option.split)

lemma thrown_not [simp]: "thrown f m e \<noteq> Ret x" "thrown f m e \<noteq> NoFuel"
  by (simp_all add: thrown_def split: option.split)

lemma run_basic [run_simps]:
  "ret x s = (Ret x, s)"
  "raise e s = (Throw e, s)"
  "undef s = (Undef, s)"
  "nofuel s = (NoFuel, s)"
  "getP f s = (Ret (f s), s)"
  "modifyP g s = (Ret (), g s)"
  "whenP b m s = (if b then m s else (Ret (), s))"
  by (simp_all add: ret_def raise_def undef_def nofuel_def getP_def modifyP_def whenP_def)

lemma run_bind [run_simps]:
  "bindP m f s = (case m s of
     (Ret x, s') \<Rightarrow> f x s'
   | (Throw e, s') \<Rightarrow> (Throw e, s')
   | (Undef, s') \<Rightarrow> (Undef, s')
   | (NoFuel, s') \<Rightarrow> (NoFuel, s'))"
  "thenP m n s = (case m s of
     (Ret x, s') \<Rightarrow> n s'
   | (Throw e, s') \<Rightarrow> (Throw e, s')
   | (Undef, s') \<Rightarrow> (Undef, s')
   | (NoFuel, s') \<Rightarrow> (NoFuel, s'))"
  "catchP m h s = (case m s of
     (Ret x, s') \<Rightarrow> (Ret x, s')
   | (Throw e, s') \<Rightarrow> h e s'
   | (Undef, s') \<Rightarrow> (Undef, s')
   | (NoFuel, s') \<Rightarrow> (NoFuel, s'))"
  by (simp_all add: bindP_def thenP_def catchP_def)

lemma bindP_ret [simp]: "bindP (ret x) f = f x"
  by (simp add: fun_eq_iff run_simps)

lemma bindP_assoc: "bindP (bindP m f) g = bindP m (\<lambda>x. bindP (f x) g)"
  by (simp add: fun_eq_iff bindP_def split: prod.split outcome.split)

lemma forP_append: "forP f (xs @ ys) = thenP (forP f xs) (forP f ys)"
  by (induction xs) (simp_all add: fun_eq_iff run_simps split: prod.split outcome.split)

section \<open>Keeping an invariant\<close>

text \<open>
  \<open>keeps I m\<close>: from a state with \<open>I\<close>, the program ends in a state with \<open>I\<close>,
  however it ends. The rules compose along the program text.
\<close>

definition keeps :: "('s \<Rightarrow> bool) \<Rightarrow> ('s, 'a) prog \<Rightarrow> bool" where
  "keeps I m \<longleftrightarrow> (\<forall>s. I s \<longrightarrow> I (snd (m s)))"

lemma keepsD: "keeps I m \<Longrightarrow> I s \<Longrightarrow> m s = (r, s') \<Longrightarrow> I s'"
  by (metis keeps_def snd_conv)

lemma keepsI: "(\<And>s. I s \<Longrightarrow> I (snd (m s))) \<Longrightarrow> keeps I m"
  by (simp add: keeps_def)

lemma keeps_basic [keeps_intro]:
  "keeps I (ret x)" "keeps I (raise e)" "keeps I undef" "keeps I nofuel" "keeps I (getP f)"
  by (simp_all add: keeps_def run_simps)

lemma keeps_modify: "(\<And>s. I s \<Longrightarrow> I (f s)) \<Longrightarrow> keeps I (modifyP f)"
  by (simp add: keeps_def run_simps)

lemma keeps_bind [keeps_intro]: "keeps I m \<Longrightarrow> (\<And>x. keeps I (f x)) \<Longrightarrow> keeps I (bindP m f)"
  by (auto simp: keeps_def run_simps split: prod.split outcome.split)

lemma keeps_then [keeps_intro]: "keeps I m \<Longrightarrow> keeps I n \<Longrightarrow> keeps I (thenP m n)"
  by (simp add: thenP_def keeps_bind)

lemma keeps_when [keeps_intro]: "(b \<Longrightarrow> keeps I m) \<Longrightarrow> keeps I (whenP b m)"
  by (simp add: keeps_def run_simps)

lemma keeps_catch [keeps_intro]: "keeps I m \<Longrightarrow> (\<And>e. keeps I (h e)) \<Longrightarrow> keeps I (catchP m h)"
  by (auto simp: keeps_def run_simps split: prod.split outcome.split)

lemma keeps_for [keeps_intro]: "(\<And>x. x \<in> set xs \<Longrightarrow> keeps I (f x)) \<Longrightarrow> keeps I (forP f xs)"
  by (induction xs) (auto intro: keeps_intro)

lemma keeps_throw_msg [keeps_intro]: "keeps I (throw_msg m)"
  by (simp add: throw_msg_def keeps_intro)

lemma keeps_throw_errno [keeps_intro]: "keeps I (throw_errno f m e)"
  by (simp add: throw_errno_def keeps_intro split: option.split)

lemma keeps_if [keeps_intro]:
  "(b \<Longrightarrow> keeps I m) \<Longrightarrow> (\<not> b \<Longrightarrow> keeps I n) \<Longrightarrow> keeps I (if b then m else n)"
  by simp

lemma keeps_case_option [keeps_intro]:
  "(x = None \<Longrightarrow> keeps I m) \<Longrightarrow> (\<And>y. x = Some y \<Longrightarrow> keeps I (f y)) \<Longrightarrow>
   keeps I (case x of None \<Rightarrow> m | Some y \<Rightarrow> f y)"
  by (cases x) auto

lemma keeps_case_sum [keeps_intro]:
  "(\<And>y. x = Inl y \<Longrightarrow> keeps I (f y)) \<Longrightarrow> (\<And>y. x = Inr y \<Longrightarrow> keeps I (g y)) \<Longrightarrow>
   keeps I (case x of Inl y \<Rightarrow> f y | Inr y \<Rightarrow> g y)"
  by (cases x) auto

section \<open>What a program can return\<close>

text \<open>\<open>returns Q m\<close>: whatever \<open>m\<close> returns satisfies \<open>Q\<close>; \<open>settles m\<close>: \<open>m\<close> is not short of fuel.\<close>

definition returns :: "('a \<Rightarrow> bool) \<Rightarrow> ('s, 'a) prog \<Rightarrow> bool" where
  "returns Q m \<longleftrightarrow> (\<forall>s x s'. m s = (Ret x, s') \<longrightarrow> Q x)"

definition settles :: "('s, 'a) prog \<Rightarrow> bool" where
  "settles m \<longleftrightarrow> (\<forall>s. fst (m s) \<noteq> NoFuel)"

named_theorems returns_intro \<open>rules for what a program returns\<close>
named_theorems settles_intro \<open>rules for programs that are never short of fuel\<close>

lemma returns_basic [returns_intro]:
  "Q x \<Longrightarrow> returns Q (ret x)" "returns Q (raise e)" "returns Q undef" "returns Q nofuel"
  "returns Q (throw_msg m)" "returns Q (throw_errno f m err)"
  by (auto simp: returns_def throw_msg_def run_throw_errno run_simps)

lemma returns_bind [returns_intro]: "(\<And>x. returns Q (f x)) \<Longrightarrow> returns Q (bindP m f)"
  by (auto simp: returns_def run_simps split: prod.splits outcome.splits)

lemma returns_then [returns_intro]: "returns Q n \<Longrightarrow> returns Q (thenP m n)"
  by (simp add: thenP_def returns_bind)

lemma returns_catch [returns_intro]:
  "returns Q m \<Longrightarrow> (\<And>e. returns Q (h e)) \<Longrightarrow> returns Q (catchP m h)"
  by (fastforce simp: returns_def run_simps split: prod.splits outcome.splits)

lemma returns_case [returns_intro]:
  "(b \<Longrightarrow> returns Q m) \<Longrightarrow> (\<not> b \<Longrightarrow> returns Q n) \<Longrightarrow> returns Q (if b then m else n)"
  "(o1 = None \<Longrightarrow> returns Q m) \<Longrightarrow> (\<And>y. o1 = Some y \<Longrightarrow> returns Q (f y)) \<Longrightarrow>
   returns Q (case o1 of None \<Rightarrow> m | Some y \<Rightarrow> f y)"
  "(\<And>y. x = Inl y \<Longrightarrow> returns Q (g y)) \<Longrightarrow> (\<And>y. x = Inr y \<Longrightarrow> returns Q (h y)) \<Longrightarrow>
   returns Q (case x of Inl y \<Rightarrow> g y | Inr y \<Rightarrow> h y)"
  by (simp_all split: option.split sum.split)

lemma returnsD: "returns Q m \<Longrightarrow> m s = (Ret x, s') \<Longrightarrow> Q x"
  unfolding returns_def by blast

lemma settles_basic [settles_intro]:
  "settles (ret x)" "settles (raise e)" "settles undef" "settles (getP f)" "settles (modifyP g)"
  "settles (throw_msg m)" "settles (throw_errno h m err)"
  by (simp_all add: settles_def throw_msg_def run_throw_errno run_simps)

lemma settles_bind [settles_intro]: "settles m \<Longrightarrow> (\<And>x. settles (f x)) \<Longrightarrow> settles (bindP m f)"
  unfolding settles_def run_bind
  by (auto split: prod.split outcome.split) (metis fst_conv)

lemma settles_then [settles_intro]: "settles m \<Longrightarrow> settles n \<Longrightarrow> settles (thenP m n)"
  by (simp add: thenP_def settles_bind)

lemma settles_when [settles_intro]: "(b \<Longrightarrow> settles m) \<Longrightarrow> settles (whenP b m)"
  by (simp add: settles_def run_simps)

lemma settles_catch [settles_intro]: "settles m \<Longrightarrow> (\<And>e. settles (h e)) \<Longrightarrow> settles (catchP m h)"
  unfolding settles_def run_bind
  by (auto split: prod.split outcome.split) (metis fst_conv)

lemma settles_for [settles_intro]: "(\<And>x. x \<in> set xs \<Longrightarrow> settles (f x)) \<Longrightarrow> settles (forP f xs)"
  by (induction xs) (auto intro: settles_intro)

lemma settles_case [settles_intro]:
  "(b \<Longrightarrow> settles m) \<Longrightarrow> (\<not> b \<Longrightarrow> settles n) \<Longrightarrow> settles (if b then m else n)"
  "(o1 = None \<Longrightarrow> settles m) \<Longrightarrow> (\<And>y. o1 = Some y \<Longrightarrow> settles (f y)) \<Longrightarrow>
   settles (case o1 of None \<Rightarrow> m | Some y \<Rightarrow> f y)"
  "(\<And>y. x = Inl y \<Longrightarrow> settles (g y)) \<Longrightarrow> (\<And>y. x = Inr y \<Longrightarrow> settles (h y)) \<Longrightarrow>
   settles (case x of Inl y \<Rightarrow> g y | Inr y \<Rightarrow> h y)"
  by (simp_all split: option.split sum.split)

section \<open>The exception buffers\<close>

lemma MsgException_what: "what (MsgException_new m) = take 4095 m"
  by (simp add: MsgException_new_def vsnprintf_def msgbuf_size_def)

lemma pokes_eq:
  "pokes i cs buf = (if cs = [] \<or> i + length cs \<le> length buf
     then Some (take i buf @ cs @ drop (i + length cs) buf) else None)"
proof (induction cs arbitrary: i buf)
  case Nil
  then show ?case by simp
next
  case (Cons c cs)
  show ?case
    by (cases "i < length buf") (auto simp: poke_def Cons.IH take_Suc_conv_app_nth)
qed

lemma c_text_terminated [simp]: "c_text (map Some s @ None # r) = s"
  by (induction s) (simp_all add: c_text_def)

lemma c_text_poke:
  assumes "length buf = msgbuf_size"
  shows "Option.bind (poke (msgbuf_size - 1) None buf) (\<lambda>b. Some (g (c_text b))) =
    Some (g (take (msgbuf_size - 1) (c_text buf)))"
proof -
  have "c_text (buf[n := None]) = take n (c_text buf)" if "n < length buf" for n
    using that by (induction buf arbitrary: n) (auto simp: c_text_def split: nat.split option.split)
  then show ?thesis using assms by (simp add: poke_def msgbuf_size_def)
qed

lemma snprintf_inside:
  assumes "off < length buf" and "n = length buf - off"
  shows "snprintf_at off n s buf =
    Some (take off buf @ map Some (take (n - 1) s) @ None # drop (off + min (length s) (n - 1) + 1) buf)"
  using assms by (auto simp: snprintf_at_def pokes_eq min_def)

lemma c_text_append: "c_text (map Some s @ r) = s @ c_text r"
  by (induction s) (simp_all add: c_text_def)

text \<open>Past the end of the buffer the size has wrapped around: the zero byte at least is written.\<close>

lemma unat_offset: "off < 2 ^ 31 \<Longrightarrow> unat (word_of_nat off :: 64 word) = off"
  by (simp add: unat_of_nat take_bit_nat_eq_self)

lemma size_wraps:
  assumes "4096 < off" "off < 2 ^ 31"
  shows "unat (word_of_nat msgbuf_size - word_of_nat off :: 64 word) \<noteq> 0"
proof
  assume "unat (word_of_nat msgbuf_size - word_of_nat off :: 64 word) = 0"
  then have "word_of_nat msgbuf_size - word_of_nat off = (0 :: 64 word)" by (rule unat_0_iff [THEN iffD1])
  then have "(word_of_nat msgbuf_size :: 64 word) = word_of_nat off" by (rule eq_iff_diff_eq_0 [THEN iffD2])
  from arg_cong [OF this, of unat] assms show False by (simp add: unat_offset msgbuf_size_def)
qed

lemma size_inside:
  assumes "off \<le> 4096"
  shows "unat (word_of_nat msgbuf_size - word_of_nat off :: 64 word) = 4096 - off"
proof -
  have "word_of_nat msgbuf_size - word_of_nat off = (word_of_nat (4096 - off) :: 64 word)"
    using assms by (simp add: msgbuf_size_def of_nat_diff)
  then show ?thesis using unat_offset [of "4096 - off"] by simp
qed

text \<open>The first format fills the buffer as far as the message reaches.\<close>

lemma first_format:
  obtains buf where "snprintf_at 0 msgbuf_size m (map junk [0..<msgbuf_size]) = Some buf"
    "length buf = msgbuf_size" "take (min (length m) 4095) buf = map Some (take 4095 m)"
    "c_text buf = take 4095 m"
proof
  let ?r = "drop (min (length m) 4095 + 1) (map junk [0..<msgbuf_size])"
  show "snprintf_at 0 msgbuf_size m (map junk [0..<msgbuf_size]) = Some (map Some (take 4095 m) @ None # ?r)"
    by (subst snprintf_inside) (simp_all add: msgbuf_size_def)
qed (simp_all add: msgbuf_size_def)

lemma second_format:
  assumes len: "length buf = msgbuf_size" and off: "off < msgbuf_size" and t: "take off buf = map Some m"
  shows "Option.bind (snprintf_at off (msgbuf_size - off) s buf) (\<lambda>buf.
      Option.bind (poke (msgbuf_size - 1) None buf) (\<lambda>buf. Some (ErrnoException (c_text buf) e))) =
    Some (ErrnoException (take 4095 (m @ s)) e)"
proof -
  have "length m = off" using arg_cong [OF t, of length] len off by simp
  let ?b = "map Some (m @ take (msgbuf_size - off - 1) s) @
    None # drop (off + min (length s) (msgbuf_size - off - 1) + 1) buf"
  have "snprintf_at off (msgbuf_size - off) s buf = Some ?b"
    using snprintf_inside [of off buf "msgbuf_size - off" s] len off t by simp
  moreover have "length ?b = msgbuf_size"
    using \<open>length m = off\<close> len off by (simp add: min_def)
  moreover have "c_text ?b = m @ take (msgbuf_size - off - 1) s" by (rule c_text_terminated)
  ultimately show ?thesis
    using c_text_poke [of ?b "\<lambda>x. ErrnoException x e"] \<open>length m = off\<close> off
    by (simp add: msgbuf_size_def del: map_append)
qed

lemma pokes_outside: "cs \<noteq> [] \<Longrightarrow> length buf \<le> i \<Longrightarrow> pokes i cs buf = None"
  by (cases cs) (simp_all add: poke_def)

lemma ErrnoException_result:
  "ErrnoException_at junk f m e =
    (if length m \<le> 4096 then Some (ErrnoException (take 4095 (m @ '': '' @ f e)) e)
     else if length m < 2 ^ 31 then None
     else Some (ErrnoException (take 4095 ('': '' @ f e)) e))"
proof -
  obtain buf where buf: "snprintf_at 0 msgbuf_size m (map junk [0..<msgbuf_size]) = Some buf"
    and len: "length buf = msgbuf_size" and pre: "take (min (length m) 4095) buf = map Some (take 4095 m)"
    and ct: "c_text buf = take 4095 m"
    by (rule first_format)
  define off where "off = (if length m < 2 ^ 31 then length m else 0)"
  have run: "ErrnoException_at junk f m e =
      Option.bind (snprintf_at off (unat (word_of_nat msgbuf_size - word_of_nat off :: 64 word)) ('': '' @ f e) buf)
        (\<lambda>buf. Option.bind (poke (msgbuf_size - 1) None buf) (\<lambda>buf. Some (ErrnoException (c_text buf) e)))"
    unfolding ErrnoException_at_def buf Option.bind.bind_lunit Let_def printf_result_def off_def by simp
  consider (short) "length m < 4096" | (full) "length m = 4096"
    | (over) "4096 < length m" "length m < 2 ^ 31" | (big) "2 ^ 31 \<le> length m" by linarith
  then show ?thesis
  proof cases
    case short
    then have o: "off = length m" by (simp add: off_def)
    have "unat (word_of_nat msgbuf_size - word_of_nat off :: 64 word) = msgbuf_size - off"
      using size_inside [of off] short o by (simp add: msgbuf_size_def)
    then show ?thesis
      unfolding run using second_format [OF len, of off m] short pre by (simp add: o msgbuf_size_def)
  next
    case full
    then have o: "off = 4096" by (simp add: off_def)
    have "unat (word_of_nat msgbuf_size - word_of_nat off :: 64 word) = 0" by (simp add: o msgbuf_size_def)
    then show ?thesis
      unfolding run using full ct c_text_poke [OF len, of "\<lambda>x. ErrnoException x e"]
      by (simp add: snprintf_at_def msgbuf_size_def)
  next
    case over
    then have "off = length m" by (simp add: off_def)
    then show ?thesis
      unfolding run using over size_wraps [OF over] len
      by (simp add: snprintf_at_def pokes_outside msgbuf_size_def)
  next
    case big
    then have o: "off = 0" by (simp add: off_def)
    have "unat (word_of_nat msgbuf_size - word_of_nat off :: 64 word) = msgbuf_size - off"
      by (simp add: o msgbuf_size_def)
    then show ?thesis
      unfolding run using second_format [OF len, of off "[]"] big by (simp add: o msgbuf_size_def)
  qed
qed

lemma ErrnoException_new_Some:
  "length m \<le> 4096 \<Longrightarrow>
   ErrnoException_new f m e = Some (ErrnoException (take 4095 (m @ '': '' @ f e)) e)"
  by (simp add: ErrnoException_new_def ErrnoException_result)

text \<open>For evaluation: the result without the 4096 cells.\<close>

lemma ErrnoException_new_code [code]:
  "ErrnoException_new f m e =
    (if length m \<le> 4096 then Some (ErrnoException (take 4095 (m @ '': '' @ f e)) e)
     else if length m < 2 ^ 31 then None
     else Some (ErrnoException (take 4095 ('': '' @ f e)) e))"
  unfolding ErrnoException_new_def by (rule ErrnoException_result)

text \<open>
  C40. The constructor of ErrnoException, whatever its 4096-byte buffer held before: for a
  formatted message of at most 4096 characters no write leaves the buffer, and the text it then
  holds is the message followed by the errno text, cut to 4095 characters; for a longer message
  the second format writes outside the buffer, with a size that has wrapped around; only for a
  message too long for the int that vsnprintf returns is its error noticed, and the text is that
  of errno alone.
\<close>

theorem ErrnoException_buffer:
  "ErrnoException_at junk f m e =
    (if length m \<le> 4096 then Some (ErrnoException (take 4095 (m @ '': '' @ f e)) e)
     else if length m < 2 ^ 31 then None
     else Some (ErrnoException (take 4095 ('': '' @ f e)) e))"
  by (rule ErrnoException_result)

end
