(* ===== verification/World.thy ===== *)
theory World
  imports Program
begin

text \<open>
  The operating system as the code sees it, and the input/output helpers of
  \<^verbatim>\<open>utils.h\<close> (\<open>mustRead\<close>, \<open>mustWrite\<close>, \<open>join\<close>).

  System calls are answered by an \<open>os\<close>: functions from the history of calls made so
  far (and the call) to the answer. Every theorem about a program that takes an \<open>os\<close>
  thus holds for any behaviour of the kernel, including one that changes over time. The
  state of a program that makes calls extends the record \<open>world\<close>, which holds the
  history; one that also reads a byte stream (standard input or an accepted connection)
  extends \<open>rworld\<close>.
\<close>

section \<open>System calls\<close>

definition ENOENT :: errno where "ENOENT = 2"
definition EFAULT :: errno where "EFAULT = 14"
definition EBUSY :: errno where "EBUSY = 16"
definition EINVAL :: errno where "EINVAL = 22"
definition ECONNREFUSED :: errno where "ECONNREFUSED = 111"

record input_id =
  bustype :: "16 word"
  vendor :: "16 word"
  product :: "16 word"
  version :: "16 word"

record absinfo =
  ai_value :: "32 word"
  ai_minimum :: "32 word"
  ai_maximum :: "32 word"
  ai_fuzz :: "32 word"
  ai_flat :: "32 word"
  ai_resolution :: "32 word"

text \<open>
  The fields of a \<open>struct input_event\<close> of the kernel, which are those of the program's
  own \<open>InputEvent\<close> but for the padding.
\<close>

record kernel_event =
  ke_sec :: "64 word"
  ke_usec :: "32 word"
  ke_type :: "16 word"
  ke_code :: "16 word"
  ke_value :: "32 word"

text \<open>The fields of \<open>struct uinput_user_dev\<close> the program sets; the arrays start zeroed.\<close>

record uinput_user_dev =
  ud_name :: "byte list"
  ud_id :: input_id
  ud_absmax :: "(nat \<times> 32 word) list"
  ud_absmin :: "(nat \<times> 32 word) list"
  ud_absfuzz :: "(nat \<times> 32 word) list"
  ud_absflat :: "(nat \<times> 32 word) list"

datatype ioctl =
    UI_SET_EVBIT nat
  | UI_SET_BIT nat nat
  | UI_DEV_SETUP "byte list" input_id
  | UI_ABS_SETUP nat absinfo
  | UI_DEV_CREATE
  | UI_DEV_DESTROY
  | EVIOCGRAB bool

datatype query =
    EVIOCGNAME
  | EVIOCGID
  | EVIOCGBIT nat nat
  | EVIOCGSTATE nat nat
  | EVIOCGABS nat

datatype call =
    Write int "byte list"
  | WriteEvent int kernel_event
  | WriteUserDev int uinput_user_dev
  | Ioctl int ioctl
  | Query int query
  | Open string
  | GotFd int
  | Close int
  | Fcntl int string
  | Dup2 int int
  | SetEnv string string
  | NewSocket
  | Connect int "byte list"
  | Bind int "byte list"
  | Listen int
  | Accept int
  | Shutdown int bool
  | Unlink string
  | Pipe
  | Fork
  | Exec string
  | WaitPid int
  | Daemonize bool
  | ReadEvent int
  | Fopen string
  | GetLine int
  | Poll "int list"
  | Output string
  | Stderr string

text \<open>
  An entry of the history: a call and \<open>None\<close> if it succeeded. \<open>GotFd fd\<close> is no call: it
  follows a successful call that returned the descriptor \<open>fd\<close>.
\<close>

type_synonym effect = "call \<times> errno option"

record poll_events =
  pe_err :: bool
  pe_hup :: bool
  pe_in :: bool

record os =
  os_call :: "effect list \<Rightarrow> call \<Rightarrow> errno option"
  os_open :: "effect list \<Rightarrow> call \<Rightarrow> errno + int"
  os_fork :: "effect list \<Rightarrow> errno + int"
  os_pipe :: "effect list \<Rightarrow> errno + int \<times> int"
  os_query :: "effect list \<Rightarrow> call \<Rightarrow> errno + byte list"
  os_event :: "effect list \<Rightarrow> call \<Rightarrow> errno + kernel_event"
  os_line :: "effect list \<Rightarrow> call \<Rightarrow> errno + string"
  os_poll :: "effect list \<Rightarrow> int list \<Rightarrow> errno + poll_events list"
  os_strerror :: "errno \<Rightarrow> string"

record world =
  history :: "effect list"

definition log_call :: "call \<Rightarrow> errno option \<Rightarrow> 'a world_scheme \<Rightarrow> 'a world_scheme" where
  "log_call c r s = s\<lparr>history := history s @ [(c, r)]\<rparr>"

definition err_of :: "errno + 'a \<Rightarrow> errno option" where
  "err_of r = (case r of Inl e \<Rightarrow> Some e | Inr _ \<Rightarrow> None)"

text \<open>A kernel that grants everything and has nothing to read, for the examples.\<close>

definition quiet_os :: os where
  "quiet_os = \<lparr>os_call = (\<lambda>_ _. None), os_open = (\<lambda>_ _. Inr 3),
     os_fork = (\<lambda>_. Inr 1), os_pipe = (\<lambda>_. Inr (5, 6)), os_query = (\<lambda>_ _. Inr []),
     os_event = (\<lambda>_ _. Inl 0), os_line = (\<lambda>_ _. Inl 0), os_poll = (\<lambda>_ _. Inr []), os_strerror = (\<lambda>_. [])\<rparr>"

text \<open>A call that only succeeds or fails: \<open>None\<close> is success.\<close>

definition do_call :: "os \<Rightarrow> call \<Rightarrow> ('a world_scheme, errno option) prog" where
  "do_call os c = (\<lambda>s. let r = os_call os (history s) c in (Ret r, log_call c r s))"

text \<open>A call that returns a new file descriptor.\<close>

definition log_open :: "call \<Rightarrow> errno + int \<Rightarrow> 'a world_scheme \<Rightarrow> 'a world_scheme" where
  "log_open c r s = (case r of
     Inl e \<Rightarrow> log_call c (Some e) s
   | Inr fd \<Rightarrow> log_call (GotFd fd) None (log_call c None s))"

definition do_open :: "os \<Rightarrow> call \<Rightarrow> ('a world_scheme, errno + int) prog" where
  "do_open os c = (\<lambda>s. let r = os_open os (history s) c in (Ret r, log_open c r s))"

text \<open>A call that fills a buffer.\<close>

definition do_query :: "os \<Rightarrow> call \<Rightarrow> ('a world_scheme, errno + byte list) prog" where
  "do_query os c = (\<lambda>s. let r = os_query os (history s) c in (Ret r, log_call c (err_of r) s))"

text \<open>A call that reads one event from a device.\<close>

definition do_event :: "os \<Rightarrow> call \<Rightarrow> ('a world_scheme, errno + kernel_event) prog" where
  "do_event os c = (\<lambda>s. let r = os_event os (history s) c in (Ret r, log_call c (err_of r) s))"

text \<open>A call that reads a line (without its terminating zero); \<open>Inl 0\<close> at the end of the file.\<close>

definition do_line :: "os \<Rightarrow> call \<Rightarrow> ('a world_scheme, errno + string) prog" where
  "do_line os c = (\<lambda>s. let r = os_line os (history s) c in (Ret r, log_call c (err_of r) s))"

text \<open>\<open>fork\<close>: the process id, 0 in the child.\<close>

definition do_fork :: "os \<Rightarrow> ('a world_scheme, errno + int) prog" where
  "do_fork os = (\<lambda>s. let r = os_fork os (history s) in (Ret r, log_call Fork (err_of r) s))"

text \<open>\<open>pipe\<close>: the reading and the writing end.\<close>

definition log_pipe :: "errno + int \<times> int \<Rightarrow> 'a world_scheme \<Rightarrow> 'a world_scheme" where
  "log_pipe r s = (case r of
     Inl e \<Rightarrow> log_call Pipe (Some e) s
   | Inr (rd, wr) \<Rightarrow> log_call (GotFd wr) None (log_call (GotFd rd) None (log_call Pipe None s)))"

definition do_pipe :: "os \<Rightarrow> ('a world_scheme, errno + int \<times> int) prog" where
  "do_pipe os = (\<lambda>s. let r = os_pipe os (history s) in (Ret r, log_pipe r s))"

definition do_poll :: "os \<Rightarrow> int list \<Rightarrow> ('a world_scheme, errno + poll_events list) prog" where
  "do_poll os fds =
     (\<lambda>s. let r = os_poll os (history s) fds in (Ret r, log_call (Poll fds) (err_of r) s))"

text \<open>A call whose failure the code ignores.\<close>

definition do_ignore :: "os \<Rightarrow> call \<Rightarrow> ('a world_scheme, unit) prog" where
  "do_ignore os c = bindP (do_call os c) (\<lambda>_. ret ())"

lemma history_log [simp]: "history (log_call c r s) = history s @ [(c, r)]"
  by (simp add: log_call_def)

lemma run_calls [run_simps]:
  "do_call os c s = (Ret (os_call os (history s) c), log_call c (os_call os (history s) c) s)"
  "do_open os c s = (Ret (os_open os (history s) c),
     log_open c (os_open os (history s) c) s)"
  "do_query os c s = (Ret (os_query os (history s) c),
     log_call c (err_of (os_query os (history s) c)) s)"
  "do_event os c s = (Ret (os_event os (history s) c),
     log_call c (err_of (os_event os (history s) c)) s)"
  "do_line os c s = (Ret (os_line os (history s) c),
     log_call c (err_of (os_line os (history s) c)) s)"
  "do_fork os s = (Ret (os_fork os (history s)),
     log_call Fork (err_of (os_fork os (history s))) s)"
  "do_pipe os s = (Ret (os_pipe os (history s)), log_pipe (os_pipe os (history s)) s)"
  "do_poll os fds s = (Ret (os_poll os (history s) fds),
     log_call (Poll fds) (err_of (os_poll os (history s) fds)) s)"
  "do_ignore os c s = (Ret (), log_call c (os_call os (history s) c) s)"
  by (simp_all add: do_call_def do_open_def do_query_def do_event_def do_ignore_def do_line_def
      do_fork_def do_poll_def do_pipe_def run_simps Let_def)

text \<open>\<open>errno\<close>, where it is read without a call that failed before: calls that succeed leave it.\<close>

definition last_errno :: "effect list \<Rightarrow> errno" where
  "last_errno h = foldl (\<lambda>err x. case snd x of None \<Rightarrow> err | Some e \<Rightarrow> e) 0 h"

text \<open>An invariant that the history does not affect is kept by every call.\<close>

definition ignores_history :: "('a world_scheme \<Rightarrow> bool) \<Rightarrow> bool" where
  "ignores_history I \<longleftrightarrow> (\<forall>c r s. I s \<longrightarrow> I (log_call c r s))"

lemma keeps_calls [keeps_intro]:
  assumes "ignores_history I"
  shows "keeps I (do_call os c)" "keeps I (do_open os c)" "keeps I (do_query os c)"
    "keeps I (do_event os c)" "keeps I (do_ignore os c)" "keeps I (do_line os c)"
    "keeps I (do_fork os)" "keeps I (do_poll os fds)" "keeps I (do_pipe os)"
  using assms
  by (simp_all add: keeps_def ignores_history_def log_open_def log_pipe_def run_simps
      split: sum.split prod.split)

text \<open>The same call by call, for an invariant that depends on the history.\<close>

lemma keeps_logged:
  assumes "\<And>r s. I s \<Longrightarrow> I (log_call c r s)"
  shows "keeps I (do_call os c)" "keeps I (do_query os c)" "keeps I (do_event os c)"
    "keeps I (do_ignore os c)" "keeps I (do_line os c)"
  using assms by (simp_all add: keeps_def run_simps)

lemma keeps_logged_open:
  assumes "\<And>r s. I s \<Longrightarrow> I (log_open c r s)"
  shows "keeps I (do_open os c)"
  using assms by (simp add: keeps_def run_simps)

text \<open>The descriptors that are open after a history.\<close>

definition fd_step :: "int set \<Rightarrow> effect \<Rightarrow> int set" where
  "fd_step F e = (case fst e of GotFd fd \<Rightarrow> insert fd F | Close fd \<Rightarrow> F - {fd} | _ \<Rightarrow> F)"

definition fd_table :: "effect list \<Rightarrow> int set" where
  "fd_table h = foldl fd_step {} h"

lemma fd_table_append [simp]: "fd_table (h @ h') = foldl fd_step (fd_table h) h'"
  by (simp add: fd_table_def)

text \<open>Every \<open>close\<close> was of a descriptor that was open then: none is closed twice.\<close>

definition close_ok :: "int set \<Rightarrow> effect \<Rightarrow> bool" where
  "close_ok F e = (case fst e of Close fd \<Rightarrow> fd \<in> F | _ \<Rightarrow> True)"

fun closes_from :: "int set \<Rightarrow> effect list \<Rightarrow> bool" where
  "closes_from F [] = True"
| "closes_from F (e # h) = (close_ok F e \<and> closes_from (fd_step F e) h)"

definition closes_ok :: "effect list \<Rightarrow> bool" where
  "closes_ok h = closes_from {} h"

lemma closes_ok_append [simp]: "closes_ok (h @ h') \<longleftrightarrow> closes_ok h \<and> closes_from (fd_table h) h'"
proof -
  have "closes_from F (h @ h') \<longleftrightarrow> closes_from F h \<and> closes_from (foldl fd_step F h) h'" for F
    by (induction h arbitrary: F) auto
  then show ?thesis by (simp add: closes_ok_def fd_table_def)
qed

lemma closes_ok_Nil [simp]: "closes_ok []"
  by (simp add: closes_ok_def)

text \<open>The kernel never returns a descriptor that is still open.\<close>

definition fresh_fds :: "os \<Rightarrow> bool" where
  "fresh_fds os \<longleftrightarrow>
     (\<forall>h c fd. os_open os h c = Inr fd \<longrightarrow> 0 \<le> fd \<and> fd \<notin> fd_table h) \<and>
     (\<forall>h rd wr. os_pipe os h = Inr (rd, wr) \<longrightarrow> 0 \<le> rd \<and> 0 \<le> wr \<and> rd \<noteq> wr \<and>
        rd \<notin> fd_table h \<and> wr \<notin> fd_table h)"

text \<open>The bytes a run has handed to a descriptor: what its successful writes carried.\<close>

fun wrote :: "int \<Rightarrow> effect list \<Rightarrow> byte list" where
  "wrote fd [] = []"
| "wrote fd ((Write fd' bs, None) # h) = (if fd' = fd then bs else []) @ wrote fd h"
| "wrote fd (_ # h) = wrote fd h"

lemma wrote_append [simp]: "wrote fd (h @ h') = wrote fd h @ wrote fd h'"
  by (induction fd h rule: wrote.induct) auto

section \<open>mustWrite and mustRead\<close>

text \<open>\<open>mustWrite\<close>: one \<open>write\<close> that takes the whole buffer.\<close>

definition mustWrite :: "os \<Rightarrow> int \<Rightarrow> byte list \<Rightarrow> ('a world_scheme, errno option) prog" where
  "mustWrite os fd bs = do_call os (Write fd bs)"

text \<open>
  \<open>mustRead\<close> as the loop of \<^verbatim>\<open>utils.h\<close>, over the raw results the successive
  calls of \<open>read\<close> return: a failure with its errno, or the bytes it copied. No more
  results, or no bytes, is the end of the file. The loop asks for the \<open>len\<close> bytes
  still missing; a result of more bytes than asked for is the \<open>EFAULT\<close> branch. The
  result is \<open>Inr\<close> the buffer or \<open>Inl errno\<close>, with the results left over.
\<close>

datatype read_result = RErr errno | RData "byte list"

fun mustRead_loop :: "nat \<Rightarrow> byte list \<Rightarrow> read_result list \<Rightarrow> (errno + byte list) \<times> read_result list" where
  "mustRead_loop len buf rs =
     (if len = 0 then (Inr buf, rs)
      else case rs of
        [] \<Rightarrow> (Inl 0, [])
      | RErr e # rs' \<Rightarrow> (Inl e, rs')
      | RData got # rs' \<Rightarrow>
          if got = [] then (Inl 0, rs')
          else if length got > len then (Inl EFAULT, rs')
          else mustRead_loop (len - length got) (buf @ got) rs')"

declare mustRead_loop.simps [simp del]

text \<open>
  The same read over the abstract stream: the bytes still to come and the errno that
  follows them (0 for the end of the file).
\<close>

record rworld = world +
  rdata :: "byte list"
  rend :: errno

definition mustRead :: "nat \<Rightarrow> ('a rworld_scheme, errno + byte list) prog" where
  "mustRead n = (\<lambda>s.
     if n \<le> length (rdata s)
     then (Ret (Inr (take n (rdata s))), s\<lparr>rdata := drop n (rdata s)\<rparr>)
     else (Ret (Inl (rend s)), s\<lparr>rdata := []\<rparr>))"

lemma run_mustRead [run_simps]:
  "mustRead n s =
     (if n \<le> length (rdata s)
      then (Ret (Inr (take n (rdata s))), s\<lparr>rdata := drop n (rdata s)\<rparr>)
      else (Ret (Inl (rend s)), s\<lparr>rdata := []\<rparr>))"
  by (simp add: mustRead_def)

text \<open>
  The results a kernel returns for the stream \<open>bs\<close> followed by \<open>err\<close> when asked for
  \<open>len\<close> bytes until it has delivered them: every delivery is a nonempty prefix of what
  is left, no longer than what was asked for, and the end is only reported when
  nothing is left.
\<close>

inductive delivers :: "nat \<Rightarrow> byte list \<Rightarrow> errno \<Rightarrow> read_result list \<Rightarrow> bool" where
  full: "delivers 0 bs err rs"
| chunk: "\<lbrakk>got \<noteq> []; length got \<le> len; delivers (len - length got) bs err rs\<rbrakk> \<Longrightarrow>
    delivers len (got @ bs) err (RData got # rs)"
| eof: "\<lbrakk>0 < len\<rbrakk> \<Longrightarrow> delivers len [] 0 (RData [] # rs)"
| closed: "\<lbrakk>0 < len\<rbrakk> \<Longrightarrow> delivers len [] 0 []"
| error: "\<lbrakk>0 < len; err \<noteq> 0\<rbrakk> \<Longrightarrow> delivers len [] err (RErr err # rs)"

inductive_simps delivers_0 [simp]: "delivers 0 bs err rs"

lemma mustRead_loop_delivers:
  "delivers len bs err rs \<Longrightarrow>
   fst (mustRead_loop len buf rs) =
     (if len \<le> length bs then Inr (buf @ take len bs) else Inl err)"
proof (induction arbitrary: buf rule: delivers.induct)
  case (chunk got len bs err rs)
  moreover from chunk.hyps have "0 < len" by (cases got) auto
  ultimately show ?case
    by (subst mustRead_loop.simps) auto
qed (simp_all add: mustRead_loop.simps)

text \<open>
  C27. However the kernel splits a stream into the results of successive reads, the loop of
  mustRead returns what one read of the abstract stream returns: the next len bytes if the
  stream still has them, and otherwise the errno at its end (0 at the end of the file).
\<close>

theorem mustRead_chunking:
  assumes "delivers len (rdata s) (rend s) rs"
  shows "fst (mustRead len s) = Ret (fst (mustRead_loop len [] rs))"
  using mustRead_loop_delivers [OF assms, of "[]"] by (simp add: run_simps)

theorem mustRead_chunking_witness:
  "delivers 3 [1, 2, 3] 0 [RData [1], RData [2, 3]] \<and>
   fst (mustRead 3 \<lparr>history = [], rdata = [1, 2, 3], rend = 0\<rparr>) =
     Ret (fst (mustRead_loop 3 [] [RData [1], RData [2, 3]]))"
proof -
  have "delivers (3 - length [1::byte] - length [2::byte, 3]) [] 0 []"
    by simp
  then have "delivers (3 - length [1::byte]) ([2, 3] @ []) 0 [RData [2, 3]]"
    by (intro delivers.chunk) auto
  then have d: "delivers 3 ([1] @ [2, 3] @ []) 0 [RData [1], RData [2, 3]]"
    by (intro delivers.chunk) auto
  with mustRead_chunking
    [of 3 "\<lparr>history = [], rdata = [1, 2, 3], rend = 0\<rparr>" "[RData [1], RData [2, 3]]"]
  show ?thesis by simp
qed

lemma settles_calls [settles_intro]:
  "settles (do_call os c)" "settles (do_open os c)" "settles (do_query os c)"
  "settles (do_event os c)" "settles (do_ignore os c)" "settles (do_line os c)"
  "settles (do_fork os)" "settles (do_pipe os)" "settles (do_poll os fds)" "settles (mustRead n)"
  by (simp_all add: settles_def run_simps)

section \<open>What a program puts on a descriptor\<close>

text \<open>
  \<open>emits fd m r bs\<close>: from any state, \<open>m\<close> returns \<open>r\<close>, changes nothing but the
  history, and its successful writes to \<open>fd\<close> carry \<open>bs\<close> in all.
\<close>

definition emits :: "int \<Rightarrow> ('a world_scheme, 'b) prog \<Rightarrow> 'b \<Rightarrow> byte list \<Rightarrow> bool" where
  "emits fd m r bs \<longleftrightarrow>
     (\<forall>s. \<exists>h. m s = (Ret r, s\<lparr>history := history s @ h\<rparr>) \<and> wrote fd h = bs)"

text \<open>The kernel takes every write to \<open>fd\<close> whole.\<close>

definition writes_ok :: "os \<Rightarrow> int \<Rightarrow> bool" where
  "writes_ok os fd \<longleftrightarrow> (\<forall>h bs. os_call os h (Write fd bs) = None)"

lemma emits_ret: "emits fd (ret r) r []"
  unfolding emits_def by (auto simp: run_simps intro!: exI [of _ "[]"])

lemma emits_bind:
  assumes "emits fd m x bs" and "emits fd (f x) y bs'"
  shows "emits fd (bindP m f) y (bs @ bs')"
  unfolding emits_def
proof
  fix s
  from assms(1) obtain h where h: "m s = (Ret x, s\<lparr>history := history s @ h\<rparr>)" "wrote fd h = bs"
    unfolding emits_def by blast
  let ?s = "s\<lparr>history := history s @ h\<rparr>"
  from assms(2) obtain h' where h': "f x ?s = (Ret y, ?s\<lparr>history := history ?s @ h'\<rparr>)" "wrote fd h' = bs'"
    unfolding emits_def by blast
  from h h' show "\<exists>h. bindP m f s = (Ret y, s\<lparr>history := history s @ h\<rparr>) \<and> wrote fd h = bs @ bs'"
    by (intro exI [of _ "h @ h'"]) (simp add: run_simps)
qed

lemma emits_then: "emits fd m x bs \<Longrightarrow> emits fd n y bs' \<Longrightarrow> emits fd (thenP m n) y (bs @ bs')"
  unfolding thenP_def by (rule emits_bind)

lemma emits_for:
  "(\<And>x. x \<in> set xs \<Longrightarrow> emits fd (f x) () (g x)) \<Longrightarrow> emits fd (forP f xs) () (concat (map g xs))"
proof (induction xs)
  case Nil
  then show ?case by (simp add: emits_ret)
next
  case (Cons x xs)
  then show ?case by (auto intro: emits_then)
qed

lemma emits_write: "writes_ok os fd \<Longrightarrow> emits fd (mustWrite os fd bs) None bs"
  by (auto simp: emits_def writes_ok_def mustWrite_def run_simps log_call_def)

lemma emits_query:
  assumes "\<And>h. os_query os h (Query dfd q) = Inr got"
  shows "emits fd (do_query os (Query dfd q)) (Inr got) []"
  unfolding emits_def using assms
  by (auto simp: run_simps log_call_def err_of_def intro!: exI [of _ "[(Query dfd q, None)]"])

lemma emits_write_bind:
  "writes_ok os fd \<Longrightarrow> emits fd (f None) r bs' \<Longrightarrow>
   emits fd (bindP (mustWrite os fd bs) f) r (bs @ bs')"
  by (rule emits_bind [OF emits_write])

lemma emits_eq: "emits fd m r bs \<Longrightarrow> bs = bs' \<Longrightarrow> emits fd m r bs'"
  by simp

lemma emits_silent: "emits fd m x [] \<Longrightarrow> emits fd (f x) y bs \<Longrightarrow> emits fd (bindP m f) y bs"
  by (rule emits_eq, erule (1) emits_bind) simp

lemma emits_wrote:
  "emits fd m r bs \<Longrightarrow> fst (m s) = Ret r \<and> wrote fd (history (snd (m s))) = wrote fd (history s) @ bs"
  unfolding emits_def by (drule spec [of _ s]) auto

section \<open>join\<close>

text \<open>
  \<open>join\<close> puts the separator in front of an element when the string is nonempty so far,
  so empty leading elements vanish.
\<close>

fun join_loop :: "string \<Rightarrow> char \<Rightarrow> string list \<Rightarrow> string" where
  "join_loop s c [] = s"
| "join_loop s c (x # xs) = join_loop ((if s \<noteq> [] then s @ [c] else s) @ x) c xs"

definition join :: "char \<Rightarrow> string list \<Rightarrow> string" where
  "join c xs = join_loop [] c xs"

lemma join_loop_nonempty:
  "s \<noteq> [] \<Longrightarrow> join_loop s c xs = s @ concat (map (\<lambda>x. c # x) xs)"
  by (induction xs arbitrary: s) auto

lemma join_Nil [simp]: "join c [] = []"
  by (simp add: join_def)

lemma join_Cons: "x \<noteq> [] \<Longrightarrow> join c (x # xs) = x @ concat (map (\<lambda>y. c # y) xs)"
  by (simp add: join_def join_loop_nonempty)

lemma join_empty_head: "join c ([] # xs) = join c xs"
  by (simp add: join_def)

end
