(* ===== verification/Bitfield.thy ===== *)
theory Bitfield
  imports Program
begin

text \<open>
  \<^verbatim>\<open>bitfield.h\<close> and \<^verbatim>\<open>bitfield.cpp\<close>: the resizable bit array \<open>Bits\<close>.

  The record holds the bit count and the bytes of the allocation \<open>data_\<close> points to
  (\<open>[]\<close> for a null pointer). The two are independent in the code: \<open>shrinkTo\<close> and
  \<open>setBitCount\<close> change only the count. The component's invariant \<open>valid\<close> says the
  count fits the allocation; an access outside the allocation is \<open>None\<close>. Sizes are
  \<open>size_t\<close> and at most 65535 bits in this program, so \<open>nat\<close> is exact.
\<close>

record Bits =
  bitcount :: nat
  data :: "byte list"

text \<open>The default constructor, and the state a move leaves its source in.\<close>

definition Bits_empty :: Bits where
  "Bits_empty = \<lparr>bitcount = 0, data = []\<rparr>"

definition byte_size :: "nat \<Rightarrow> nat" where
  "byte_size n = (n + 7) div 8"

definition valid :: "Bits \<Rightarrow> bool" where
  "valid b \<longleftrightarrow> byte_size (bitcount b) \<le> length (data b)"

text \<open>
  \<open>realloc\<close> keeps the old bytes up to the smaller size; the rest of a grown block has
  arbitrary content \<open>junk\<close>. \<open>resize\<close> gets \<open>None\<close> where the allocation fails and
  \<open>Some junk\<close> where it succeeds.
\<close>

definition realloc :: "(nat \<Rightarrow> byte) \<Rightarrow> byte list \<Rightarrow> nat \<Rightarrow> byte list" where
  "realloc junk bs n = take n bs @ map junk [length bs..<n]"

text \<open>\<open>memset (data_ + from, 0, n)\<close>.\<close>

definition zero_from :: "nat \<Rightarrow> nat \<Rightarrow> byte list \<Rightarrow> byte list" where
  "zero_from from n bs = take from bs @ replicate n 0 @ drop (from + n) bs"

definition resize :: "(nat \<Rightarrow> byte) option \<Rightarrow> nat \<Rightarrow> Bits \<Rightarrow> string option \<times> Bits" where
  "resize alloc n b =
     (if n = 0 then (None, \<lparr>bitcount = 0, data = []\<rparr>)
      else case alloc of
        None \<Rightarrow> (Some ''allocation failed'', b)
      | Some junk \<Rightarrow>
          (let np = realloc junk (data b) ((n + 7) div 8);
               oldsize = byte_size (bitcount b);
               newsize = byte_size n
           in (None, \<lparr>bitcount = n,
                data = (if oldsize < newsize then zero_from oldsize (newsize - oldsize) np else np)\<rparr>)))"

definition resizeNE1Compat :: "(nat \<Rightarrow> byte) option \<Rightarrow> nat \<Rightarrow> Bits \<Rightarrow> string option \<times> Bits" where
  "resizeNE1Compat alloc n b = resize alloc (8 * (1 + n div 8)) b"

definition shrinkTo :: "nat \<Rightarrow> Bits \<Rightarrow> Bits" where
  "shrinkTo n b = (if n < bitcount b then b\<lparr>bitcount := n\<rparr> else b)"

definition setBitCount :: "nat \<Rightarrow> Bits \<Rightarrow> Bits" where
  "setBitCount n b = b\<lparr>bitcount := n\<rparr>"

text \<open>\<open>BitAccess::operator bool\<close> and \<open>BitAccess::operator=\<close>.\<close>

definition get_bit :: "Bits \<Rightarrow> nat \<Rightarrow> bool option" where
  "get_bit b i =
     (if i div 8 < length (data b)
      then Some (data b ! (i div 8) AND push_bit (i mod 8) 1 \<noteq> 0) else None)"

definition set_bit_to :: "Bits \<Rightarrow> nat \<Rightarrow> bool \<Rightarrow> Bits option" where
  "set_bit_to b i on =
     (if i div 8 < length (data b)
      then Some (b\<lparr>data := (data b)[i div 8 :=
             (if on then data b ! (i div 8) OR push_bit (i mod 8) 1
              else data b ! (i div 8) AND NOT (push_bit (i mod 8) 1))]\<rparr>)
      else None)"

text \<open>
  The loop \<open>for (auto b : bits) if (b) ...\<close>: the iterator is a \<open>BitAccess\<close> that goes
  from \<open>begin\<close> (0) to \<open>end\<close> (the bit count). \<open>set_indices\<close> are the indices at which
  the loop body runs, in order.
\<close>

fun scan_bits :: "Bits \<Rightarrow> nat \<Rightarrow> nat \<Rightarrow> nat list option" where
  "scan_bits b i 0 = Some []"
| "scan_bits b i (Suc n) =
     (case get_bit b i of
        None \<Rightarrow> None
      | Some on \<Rightarrow> map_option (\<lambda>is. if on then i # is else is) (scan_bits b (Suc i) n))"

definition set_indices :: "Bits \<Rightarrow> nat list option" where
  "set_indices b = scan_bits b 0 (bitcount b)"

text \<open>
  \<open>dup\<close>: a new array of the same count, filled by \<open>memcpy\<close> of \<open>byte_size()\<close>
  bytes of the old one; it needs those bytes to be there.
\<close>

definition dup :: "(nat \<Rightarrow> byte) option \<Rightarrow> Bits \<Rightarrow> string option \<times> Bits" where
  "dup alloc b =
     (case resize alloc (bitcount b) Bits_empty of
        (Some err, d) \<Rightarrow> (Some err, d)
      | (None, d) \<Rightarrow> (None, d\<lparr>data := take (byte_size (bitcount b)) (data b)\<rparr>))"

text \<open>Move construction and move assignment: the target and the emptied source.\<close>

definition move :: "Bits \<Rightarrow> Bits \<times> Bits" where
  "move b = (b, Bits_empty)"

section \<open>Sizes\<close>

lemma byte_size_0 [simp]: "byte_size 0 = 0"
  by (simp add: byte_size_def)

lemma byte_size_mono: "m \<le> n \<Longrightarrow> byte_size m \<le> byte_size n"
  by (simp add: byte_size_def div_le_mono)

lemma byte_size_covers: "n \<le> 8 * byte_size n" "8 * byte_size n < n + 8"
  by (simp_all add: byte_size_def)

lemma div8_less_byte_size: "i < n \<Longrightarrow> i div 8 < byte_size n"
  by (simp add: byte_size_def)

lemma byte_size_le: "n \<le> 8 * k \<Longrightarrow> byte_size n \<le> k"
  unfolding byte_size_def by linarith

lemma div8_less_iff: "i div 8 < k \<longleftrightarrow> i < 8 * k" for i :: nat
  by linarith

text \<open>netevent 1 used \<open>1 + max/8\<close> bytes for every bit field.\<close>

lemma ne1_byte_size: "byte_size (8 * (1 + n div 8)) = 1 + n div 8"
  by (simp add: byte_size_def)

section \<open>The laws of a bit array\<close>

text \<open>
  The contract the readers and writers of devices rely on: a bit that is set is read
  back, other bits keep their value, and writing keeps the size.
\<close>

locale bit_array =
  fixes inv :: "'b \<Rightarrow> bool"
    and size_of :: "'b \<Rightarrow> nat"
    and get :: "'b \<Rightarrow> nat \<Rightarrow> bool"
    and set_to :: "'b \<Rightarrow> nat \<Rightarrow> bool \<Rightarrow> 'b"
  assumes inv_set: "inv b \<Longrightarrow> i < size_of b \<Longrightarrow> inv (set_to b i on)"
    and size_set: "inv b \<Longrightarrow> i < size_of b \<Longrightarrow> size_of (set_to b i on) = size_of b"
    and get_set_same: "inv b \<Longrightarrow> i < size_of b \<Longrightarrow> get (set_to b i on) i = on"
    and get_set_other: "inv b \<Longrightarrow> i < size_of b \<Longrightarrow> j < size_of b \<Longrightarrow> j \<noteq> i \<Longrightarrow>
      get (set_to b i on) j = get b j"
begin

definition set_all :: "'b \<Rightarrow> nat list \<Rightarrow> 'b" where
  "set_all b is = foldl (\<lambda>b i. set_to b i True) b is"

lemma set_all_inv:
  "inv b \<Longrightarrow> \<forall>i\<in>set is. i < size_of b \<Longrightarrow> inv (set_all b is) \<and> size_of (set_all b is) = size_of b"
  by (induction "is" arbitrary: b) (auto simp: set_all_def inv_set size_set)

lemma get_set_all:
  "inv b \<Longrightarrow> \<forall>i\<in>set is. i < size_of b \<Longrightarrow> j < size_of b \<Longrightarrow>
   get (set_all b is) j \<longleftrightarrow> j \<in> set is \<or> get b j"
proof (induction "is" arbitrary: b)
  case Nil
  then show ?case by (simp add: set_all_def)
next
  case (Cons i "is")
  let ?b = "set_to b i True"
  have "inv ?b" "size_of ?b = size_of b" using Cons.prems by (auto simp: inv_set size_set)
  with Cons.IH [of ?b] Cons.prems
  have "get (set_all ?b is) j \<longleftrightarrow> j \<in> set is \<or> get ?b j" by auto
  moreover have "get ?b j \<longleftrightarrow> j = i \<or> get b j"
    using Cons.prems by (cases "j = i") (auto simp: get_set_same get_set_other)
  ultimately show ?case by (auto simp: set_all_def)
qed

end

definition get_ok :: "Bits \<Rightarrow> nat \<Rightarrow> bool" where
  "get_ok b i = (get_bit b i = Some True)"

definition set_ok :: "Bits \<Rightarrow> nat \<Rightarrow> bool \<Rightarrow> Bits" where
  "set_ok b i on = (case set_bit_to b i on of Some b' \<Rightarrow> b' | None \<Rightarrow> b)"

lemma valid_in_range: "valid b \<Longrightarrow> i < bitcount b \<Longrightarrow> i div 8 < length (data b)"
  using div8_less_byte_size [of i "bitcount b"] by (simp add: valid_def)

lemma word_and_push_one: "(w AND push_bit k 1 \<noteq> 0) = bit (w :: 'a::len word) k"
proof
  assume "w AND push_bit k 1 \<noteq> 0"
  then obtain i where "bit (w AND push_bit k 1) i"
    by (metis bit_0_eq bit_eqI bot_apply bot_bool_def)
  then show "bit w k" by (auto simp: bit_simps)
next
  assume *: "bit w k"
  then have "bit (w AND push_bit k 1) k"
    by (auto simp: bit_simps dest: bit_imp_le_length)
  then show "w AND push_bit k 1 \<noteq> 0" by force
qed

lemma get_bit_eq:
  "get_bit b i = (if i div 8 < length (data b) then Some (bit (data b ! (i div 8)) (i mod 8)) else None)"
  by (simp only: get_bit_def word_and_push_one)

lemma get_bit_set_bit:
  assumes "set_bit_to b i on = Some b'"
  shows "get_bit b' j = (if j = i then Some on else get_bit b j)"
    and "bitcount b' = bitcount b" and "length (data b') = length (data b)"
proof -
  from assms have i: "i div 8 < length (data b)"
    and b': "b' = b\<lparr>data := (data b)[i div 8 :=
             (if on then data b ! (i div 8) OR push_bit (i mod 8) 1
              else data b ! (i div 8) AND NOT (push_bit (i mod 8) 1))]\<rparr>"
    by (auto simp: set_bit_to_def split: if_splits)
  show "bitcount b' = bitcount b" "length (data b') = length (data b)" by (simp_all add: b')
  show "get_bit b' j = (if j = i then Some on else get_bit b j)"
  proof (cases "j div 8 = i div 8")
    case True
    then have "j = i \<longleftrightarrow> j mod 8 = i mod 8" by (metis div_mult_mod_eq)
    moreover have "j mod 8 < 8" "i mod 8 < 8" by simp_all
    ultimately show ?thesis using i True
      by (auto simp: get_bit_eq b' bit_simps)
  next
    case False
    then have "j \<noteq> i" by auto
    with False show ?thesis by (simp add: get_bit_eq b')
  qed
qed

lemma set_bit_to_Some: "valid b \<Longrightarrow> i < bitcount b \<Longrightarrow> \<exists>b'. set_bit_to b i on = Some b'"
  by (simp add: set_bit_to_def valid_in_range)

interpretation bits: bit_array valid bitcount get_ok set_ok
proof
  fix b i on assume v: "valid b" "i < bitcount b"
  from set_bit_to_Some [OF v] obtain b' where b': "set_bit_to b i on = Some b'" by blast
  note facts = get_bit_set_bit [OF b']
  show "valid (set_ok b i on)" using v facts by (simp add: set_ok_def b' valid_def)
  show "bitcount (set_ok b i on) = bitcount b" using facts by (simp add: set_ok_def b')
  show "get_ok (set_ok b i on) i = on" using facts by (simp add: set_ok_def get_ok_def b')
  show "get_ok (set_ok b i on) j = get_ok b j" if "j \<noteq> i" for j
    using facts that by (simp add: set_ok_def get_ok_def b')
qed

section \<open>Scanning\<close>

lemma scan_bits_valid:
  "(\<forall>j. i \<le> j \<and> j < i + n \<longrightarrow> j div 8 < length (data b)) \<Longrightarrow>
   scan_bits b i n = Some (filter (get_ok b) [i..<i + n])"
proof (induction n arbitrary: i)
  case 0
  then show ?case by simp
next
  case (Suc n)
  have "scan_bits b (Suc i) n = Some (filter (get_ok b) [Suc i..<Suc i + n])"
    by (rule Suc.IH) (use Suc.prems in auto)
  moreover have ib: "i div 8 < length (data b)" using Suc.prems by auto
  moreover have "[i..<i + Suc n] = i # [Suc i..<Suc i + n]"
    by (simp add: upt_conv_Cons)
  moreover have "get_bit b i = Some (get_ok b i)"
    using ib by (simp add: get_ok_def get_bit_eq)
  ultimately show ?case by simp
qed

lemma set_indices_valid:
  "valid b \<Longrightarrow> set_indices b = Some (filter (get_ok b) [0..<bitcount b])"
  by (simp add: set_indices_def scan_bits_valid valid_in_range)

section \<open>Resizing\<close>

lemma length_realloc [simp]: "length (realloc junk bs n) = n"
  by (simp add: realloc_def)

lemma nth_realloc: "i < length bs \<Longrightarrow> i < n \<Longrightarrow> realloc junk bs n ! i = bs ! i"
  by (simp add: realloc_def nth_append)

lemma length_zero_from: "from + n \<le> length bs \<Longrightarrow> length (zero_from from n bs) = length bs"
  by (simp add: zero_from_def)

lemma nth_zero_from:
  "from + n \<le> length bs \<Longrightarrow> i < length bs \<Longrightarrow>
   zero_from from n bs ! i = (if from \<le> i \<and> i < from + n then 0 else bs ! i)"
  by (auto simp: zero_from_def nth_append min_def)

lemma resize_ok:
  assumes "resize (Some junk) n b = (r, b')"
  shows "r = None" and "bitcount b' = n" and "length (data b') = byte_size n" and "valid b'"
proof -
  have *: "r = None \<and> bitcount b' = n \<and> length (data b') = byte_size n"
    using assms
    by (auto simp: resize_def Let_def byte_size_def length_zero_from split: if_splits)
  then show "r = None" "bitcount b' = n" "length (data b') = byte_size n" "valid b'"
    by (simp_all add: valid_def)
qed

lemma valid_resize:
  assumes "valid b"
  shows "valid (snd (resize alloc n b))"
proof (cases alloc)
  case None
  with assms show ?thesis by (simp add: resize_def valid_def byte_size_def)
next
  case (Some junk)
  then show ?thesis using resize_ok(4) [of junk n b] by (cases "resize (Some junk) n b") simp
qed

lemma resize_data:
  assumes v: "valid b" and k: "k < byte_size n"
  shows "data (snd (resize (Some junk) n b)) ! k =
    (if k < byte_size (bitcount b) then data b ! k else 0)"
proof -
  let ?o = "byte_size (bitcount b)" and ?n = "byte_size n"
  have n: "n \<noteq> 0" using k by (cases n) auto
  have old: "?o \<le> length (data b)" using v by (simp add: valid_def)
  have len: "length (realloc junk (data b) ?n) = ?n" by simp
  show ?thesis
  proof (cases "?o < ?n")
    case True
    then have "data (snd (resize (Some junk) n b)) = zero_from ?o (?n - ?o) (realloc junk (data b) ?n)"
      using n by (simp add: resize_def byte_size_def Let_def)
    with True k old show ?thesis by (simp add: nth_zero_from nth_realloc)
  next
    case False
    then have "data (snd (resize (Some junk) n b)) = realloc junk (data b) ?n"
      using n by (simp add: resize_def byte_size_def Let_def)
    with False k old show ?thesis by (simp add: nth_realloc)
  qed
qed

text \<open>
  C33. Resizing a valid bit array to n bits gives a valid array of n bits whose content does
  not depend on what the allocator returned: a bit keeps its value if its byte was part of
  the old array and reads 0 otherwise. A failed allocation changes nothing.
\<close>

theorem resize_contents:
  assumes "valid b"
  shows "case resize alloc n b of
     (Some err, b') \<Rightarrow> alloc = None \<and> n \<noteq> 0 \<and> b' = b
   | (None, b') \<Rightarrow> valid b' \<and> bitcount b' = n \<and>
       map (get_bit b') [0..<n] =
       map (\<lambda>i. if i div 8 < byte_size (bitcount b) then get_bit b i else Some False) [0..<n]"
proof (cases "alloc = None \<and> n \<noteq> 0")
  case True
  then show ?thesis by (simp add: resize_def)
next
  case False
  then obtain junk where eq: "resize alloc n b = resize (Some junk) n b"
    by (cases alloc) (auto simp: resize_def)
  obtain r b' where rb: "resize (Some junk) n b = (r, b')" by fastforce
  note ok = resize_ok [OF rb]
  have "get_bit b' i = (if i div 8 < byte_size (bitcount b) then get_bit b i else Some False)"
    if "i < n" for i
  proof -
    have k: "i div 8 < byte_size n" using that by (rule div8_less_byte_size)
    from resize_data [OF assms k, of junk] rb
    have "data b' ! (i div 8) =
        (if i div 8 < byte_size (bitcount b) then data b ! (i div 8) else 0)" by simp
    with k ok assms show ?thesis by (auto simp: get_bit_eq valid_def)
  qed
  with eq rb ok show ?thesis by simp
qed

theorem resize_contents_witness:
  "valid \<lparr>bitcount = 3, data = [255]\<rparr> \<and>
   snd (resize (Some (\<lambda>_. 7)) 12 \<lparr>bitcount = 3, data = [255]\<rparr>) = \<lparr>bitcount = 12, data = [255, 0]\<rparr> \<and>
   (case resize (Some (\<lambda>_. 7)) 12 \<lparr>bitcount = 3, data = [255]\<rparr> of
     (Some err, b') \<Rightarrow> False
   | (None, b') \<Rightarrow> valid b' \<and> bitcount b' = 12)"
proof -
  let ?b = "\<lparr>bitcount = 3, data = [255 :: byte]\<rparr>"
  have v: "valid ?b" by (simp add: valid_def byte_size_def)
  have r: "snd (resize (Some (\<lambda>_. 7)) 12 ?b) = \<lparr>bitcount = 12, data = [255, 0]\<rparr>"
    by (simp add: resize_def byte_size_def realloc_def zero_from_def Let_def)
  from resize_contents [OF v, where alloc = "Some (\<lambda>_. 7)" and n = 12] v r
  show ?thesis by (auto split: prod.splits option.splits)
qed

lemma dup_valid:
  assumes "valid b" and "dup (Some junk) b = (r, d)"
  shows "r = None" "valid d" "bitcount d = bitcount b"
    "data d = take (byte_size (bitcount b)) (data b)"
proof -
  obtain r' d' where rd: "resize (Some junk) (bitcount b) Bits_empty = (r', d')" by fastforce
  note ok = resize_ok [OF rd]
  from assms(2) rd ok have d: "r = None" "d = d'\<lparr>data := take (byte_size (bitcount b)) (data b)\<rparr>"
    by (auto simp: dup_def)
  then show "r = None" "valid d" "bitcount d = bitcount b"
    "data d = take (byte_size (bitcount b)) (data b)"
    using assms(1) ok by (auto simp: valid_def)
qed

lemma get_bit_take:
  "data d = take (byte_size (bitcount b)) (data b) \<Longrightarrow> valid b \<Longrightarrow> i < bitcount b \<Longrightarrow>
   get_bit d i = get_bit b i"
  using div8_less_byte_size [of i "bitcount b"] by (simp add: get_bit_eq valid_def)

text \<open>
  C34. The operations keep an array valid, and a copy made by dup has the same bits. The one
  exception is setBitCount, which checks nothing (the header calls it unsafe): it does where the
  count fits the block of the array.
\<close>

theorem Bits_operations_valid:
  assumes "valid b"
  shows "valid Bits_empty \<and> valid (snd (resize alloc n b)) \<and>
    valid (snd (resizeNE1Compat alloc n b)) \<and> valid (shrinkTo n b) \<and>
    valid (fst (move b)) \<and> valid (snd (move b)) \<and>
    (n \<le> 8 * length (data b) \<longrightarrow> valid (setBitCount n b)) \<and>
    (\<forall>i on b'. set_bit_to b i on = Some b' \<longrightarrow> valid b') \<and>
    (\<forall>junk r d. dup (Some junk) b = (r, d) \<longrightarrow> valid d \<and> set_indices d = set_indices b)"
proof -
  have res: "valid (snd (resize alloc m b))" for m
    using assms by (rule valid_resize)
  have dup: "valid d \<and> set_indices d = set_indices b" if "dup (Some junk) b = (r, d)" for junk r d
  proof -
    note d = dup_valid [OF assms that]
    have "filter (get_ok d) [0..<bitcount b] = filter (get_ok b) [0..<bitcount b]"
      by (rule filter_cong) (auto simp: get_ok_def get_bit_take [OF d(4) assms])
    with d assms show ?thesis by (simp add: set_indices_valid)
  qed
  have "valid (shrinkTo n b)"
    using assms byte_size_mono [of n "bitcount b"] by (auto simp: shrinkTo_def valid_def)
  moreover have "n \<le> 8 * length (data b) \<longrightarrow> valid (setBitCount n b)"
    by (simp add: setBitCount_def valid_def byte_size_le)
  moreover have "set_bit_to b i on = Some b' \<longrightarrow> valid b'" for i on b'
    using get_bit_set_bit [of b i on b'] assms by (simp add: valid_def)
  moreover have "valid Bits_empty" by (simp add: valid_def Bits_empty_def)
  ultimately show ?thesis
    using assms res dup by (simp add: resizeNE1Compat_def move_def)
qed

theorem Bits_operations_valid_witness:
  "valid \<lparr>bitcount = 9, data = [128, 1]\<rparr> \<and>
   set_indices \<lparr>bitcount = 9, data = [128, 1]\<rparr> = Some [7, 8] \<and>
   set_indices (snd (dup (Some (\<lambda>_. 7)) \<lparr>bitcount = 9, data = [128, 1]\<rparr>)) = Some [7, 8]"
proof -
  let ?b = "\<lparr>bitcount = 9, data = [128 :: byte, 1]\<rparr>"
  have v: "valid ?b" by (simp add: valid_def byte_size_def)
  have s: "set_indices ?b = Some [7, 8]" by code_simp
  from Bits_operations_valid [OF v] s v show ?thesis by (metis prod.collapse)
qed

end
