(* ===== verification/BitsHeap.thy ===== *)
theory BitsHeap
  imports Bitfield
begin

text \<open>
  \<open>Bits\<close> as objects (\<^verbatim>\<open>bitfield.h\<close>): the pointer \<open>data_\<close>, who owns the block it
  leads to, and when that is freed. \<open>Bitfield\<close> treats a bit array as a value; here the
  operations work on a heap of blocks, and are shown to do to the values what
  \<open>Bitfield\<close> says.

  The state has the live objects by name, the allocated blocks by address, and the next
  address (a new block is at an address that has not been used; where \<open>realloc\<close> puts a block
  makes no difference to the program). The result \<open>None\<close> is undefined behaviour: an access
  outside a block, or a use of one that is gone.
\<close>

record BitsObj =
  ob_count :: nat
  ob_data :: "nat option"

record bheap =
  objects :: "nat \<rightharpoonup> BitsObj"
  blocks :: "nat \<rightharpoonup> byte list"
  brk :: nat

type_synonym alloc = "(nat \<Rightarrow> byte) option"

datatype bits_op =
    New nat
  | NewSize nat alloc nat
  | MoveNew nat nat
  | Delete nat
  | Assign nat nat
  | Resize nat alloc nat
  | ResizeNE1 nat alloc nat
  | Shrink nat nat
  | SetCount nat nat
  | SetBit nat nat bool
  | Dup nat alloc nat

section \<open>The heap\<close>

definition c_free :: "nat option \<Rightarrow> bheap \<Rightarrow> bheap option" where
  "c_free p h = (case p of
     None \<Rightarrow> Some h
   | Some q \<Rightarrow> if blocks h q = None then None else Some (h\<lparr>blocks := (blocks h)(q := None)\<rparr>))"

definition bytes_at :: "nat option \<Rightarrow> bheap \<Rightarrow> byte list option" where
  "bytes_at p h = (case p of None \<Rightarrow> Some [] | Some q \<Rightarrow> blocks h q)"

text \<open>\<open>realloc\<close>: \<open>None\<close> as the pointer is a failure, which leaves the old block.\<close>

definition c_realloc :: "alloc \<Rightarrow> nat option \<Rightarrow> nat \<Rightarrow> bheap \<Rightarrow> (nat option \<times> bheap) option" where
  "c_realloc a p n h = (case bytes_at p h of
     None \<Rightarrow> None
   | Some bs \<Rightarrow> (case a of
       None \<Rightarrow> Some (None, h)
     | Some junk \<Rightarrow> Some (Some (brk h), h\<lparr>
         blocks := (case p of None \<Rightarrow> blocks h | Some q \<Rightarrow> (blocks h)(q := None))(brk h := Some (realloc junk bs n)),
         brk := Suc (brk h)\<rparr>)))"

section \<open>The operations\<close>

definition put_obj :: "nat \<Rightarrow> BitsObj option \<Rightarrow> bheap \<Rightarrow> bheap" where
  "put_obj x ob h = h\<lparr>objects := (objects h)(x := ob)\<rparr>"

definition empty_obj :: BitsObj where
  "empty_obj = \<lparr>ob_count = 0, ob_data = None\<rparr>"

definition Bits_new :: "nat \<Rightarrow> bheap \<Rightarrow> (string option \<times> bheap) option" where
  "Bits_new x h = (if objects h x \<noteq> None then None else Some (None, put_obj x (Some empty_obj) h))"

definition Bits_resize :: "nat \<Rightarrow> alloc \<Rightarrow> nat \<Rightarrow> bheap \<Rightarrow> (string option \<times> bheap) option" where
  "Bits_resize x a n h = (case objects h x of
     None \<Rightarrow> None
   | Some ob \<Rightarrow>
       if n = 0 then map_option (\<lambda>h'. (None, put_obj x (Some empty_obj) h')) (c_free (ob_data ob) h)
       else (case c_realloc a (ob_data ob) ((n + 7) div 8) h of
         None \<Rightarrow> None
       | Some (None, h') \<Rightarrow> Some (Some ''allocation failed'', h')
       | Some (Some np, h') \<Rightarrow>
           (let oldsize = byte_size (ob_count ob); newsize = byte_size n;
                zeroed = (\<lambda>bs. if oldsize < newsize then zero_from oldsize (newsize - oldsize) bs else bs)
            in Some (None, put_obj x (Some \<lparr>ob_count = n, ob_data = Some np\<rparr>)
                 (h'\<lparr>blocks := (blocks h')(np := map_option zeroed (blocks h' np))\<rparr>)))))"

text \<open>
  The constructor from a size delegates to the default one, so that the destructor runs if
  the allocation fails.
\<close>

definition Bits_delete :: "nat \<Rightarrow> bheap \<Rightarrow> (string option \<times> bheap) option" where
  "Bits_delete x h = (case objects h x of
     None \<Rightarrow> None
   | Some ob \<Rightarrow> map_option (\<lambda>h'. (None, put_obj x None h')) (c_free (ob_data ob) h))"

definition Bits_new_size :: "nat \<Rightarrow> alloc \<Rightarrow> nat \<Rightarrow> bheap \<Rightarrow> (string option \<times> bheap) option" where
  "Bits_new_size x a n h = (case Bits_new x h of
     None \<Rightarrow> None
   | Some (_, h1) \<Rightarrow> (case Bits_resize x a n h1 of
       Some (Some err, h2) \<Rightarrow> map_option (\<lambda>(_, h3). (Some err, h3)) (Bits_delete x h2)
     | r \<Rightarrow> r))"

definition Bits_move_new :: "nat \<Rightarrow> nat \<Rightarrow> bheap \<Rightarrow> (string option \<times> bheap) option" where
  "Bits_move_new x src h = (case objects h src of
     None \<Rightarrow> None
   | Some ob \<Rightarrow> if objects h x \<noteq> None then None
       else Some (None, put_obj src (Some empty_obj) (put_obj x (Some ob) h)))"

text \<open>Move assignment does not look at what it overwrites.\<close>

definition Bits_assign :: "nat \<Rightarrow> nat \<Rightarrow> bheap \<Rightarrow> (string option \<times> bheap) option" where
  "Bits_assign x src h = (case (objects h x, objects h src) of
     (Some _, Some ob) \<Rightarrow> Some (None, put_obj src (Some empty_obj) (put_obj x (Some ob) h))
   | _ \<Rightarrow> None)"

definition Bits_count :: "nat \<Rightarrow> (nat \<Rightarrow> nat) \<Rightarrow> bheap \<Rightarrow> (string option \<times> bheap) option" where
  "Bits_count x f h = map_option (\<lambda>ob. (None, put_obj x (Some (ob\<lparr>ob_count := f (ob_count ob)\<rparr>)) h)) (objects h x)"

definition Bits_set_bit :: "nat \<Rightarrow> nat \<Rightarrow> bool \<Rightarrow> bheap \<Rightarrow> (string option \<times> bheap) option" where
  "Bits_set_bit x i on h = (case objects h x of
     None \<Rightarrow> None
   | Some ob \<Rightarrow> (case ob_data ob of
       None \<Rightarrow> None
     | Some p \<Rightarrow> (case blocks h p of
         None \<Rightarrow> None
       | Some bs \<Rightarrow> if i div 8 < length bs
           then Some (None, h\<lparr>blocks := (blocks h)(p := Some (bs[i div 8 :=
             (if on then bs ! (i div 8) OR push_bit (i mod 8) 1
              else bs ! (i div 8) AND NOT (push_bit (i mod 8) 1))]))\<rparr>)
           else None)))"

definition Bits_dup :: "nat \<Rightarrow> alloc \<Rightarrow> nat \<Rightarrow> bheap \<Rightarrow> (string option \<times> bheap) option" where
  "Bits_dup x a src h = (case objects h src of
     None \<Rightarrow> None
   | Some ob \<Rightarrow> (case Bits_new_size x a (ob_count ob) h of
       Some (None, h') \<Rightarrow>
         (case (objects h' x, bytes_at (ob_data ob) h') of
            (Some d, Some bs) \<Rightarrow>
              if length bs < byte_size (ob_count ob) then None
              else (case ob_data d of
                None \<Rightarrow> Some (None, h')
              | Some q \<Rightarrow> Some (None, h'\<lparr>blocks := (blocks h')(q := Some (take (byte_size (ob_count ob)) bs))\<rparr>))
          | _ \<Rightarrow> None)
     | r \<Rightarrow> r))"

definition run_op :: "bits_op \<Rightarrow> bheap \<Rightarrow> (string option \<times> bheap) option" where
  "run_op b = (case b of
     New x \<Rightarrow> Bits_new x
   | NewSize x a n \<Rightarrow> Bits_new_size x a n
   | MoveNew x src \<Rightarrow> Bits_move_new x src
   | Delete x \<Rightarrow> Bits_delete x
   | Assign x src \<Rightarrow> Bits_assign x src
   | Resize x a n \<Rightarrow> Bits_resize x a n
   | ResizeNE1 x a n \<Rightarrow> Bits_resize x a (8 * (1 + n div 8))
   | Shrink x n \<Rightarrow> Bits_count x (\<lambda>c. if n < c then n else c)
   | SetCount x n \<Rightarrow> Bits_count x (\<lambda>_. n)
   | SetBit x i on \<Rightarrow> Bits_set_bit x i on
   | Dup x a src \<Rightarrow> Bits_dup x a src)"

section \<open>What the operations mean\<close>

text \<open>The same operations on values, by \<open>Bitfield\<close>.\<close>

type_synonym bits_env = "nat \<rightharpoonup> Bits"

definition val_resize :: "nat \<Rightarrow> (Bits \<Rightarrow> string option \<times> Bits) \<Rightarrow> bits_env \<Rightarrow> (string option \<times> bits_env) option" where
  "val_resize x f env = map_option (\<lambda>b. (fst (f b), env(x \<mapsto> snd (f b)))) (env x)"

definition val_new :: "nat \<Rightarrow> string option \<times> Bits \<Rightarrow> bits_env \<Rightarrow> (string option \<times> bits_env) option" where
  "val_new x r env = (if env x \<noteq> None then None else case r of
     (Some err, _) \<Rightarrow> Some (Some err, env)
   | (None, b) \<Rightarrow> Some (None, env(x \<mapsto> b)))"

definition run_val :: "bits_op \<Rightarrow> bits_env \<Rightarrow> (string option \<times> bits_env) option" where
  "run_val c env = (case c of
     New x \<Rightarrow> val_new x (None, Bits_empty) env
   | NewSize x a n \<Rightarrow> val_new x (resize a n Bits_empty) env
   | MoveNew x src \<Rightarrow> (case env src of
       None \<Rightarrow> None | Some b \<Rightarrow> val_new x (None, fst (move b)) (env(src \<mapsto> snd (move b))))
   | Delete x \<Rightarrow> map_option (\<lambda>b. (None, env(x := None))) (env x)
   | Assign x src \<Rightarrow> (case (env x, env src) of
       (Some _, Some b) \<Rightarrow> Some (None, env(x \<mapsto> fst (move b), src \<mapsto> snd (move b)))
     | _ \<Rightarrow> None)
   | Resize x a n \<Rightarrow> val_resize x (resize a n) env
   | ResizeNE1 x a n \<Rightarrow> val_resize x (resizeNE1Compat a n) env
   | Shrink x n \<Rightarrow> val_resize x (\<lambda>b. (None, shrinkTo n b)) env
   | SetCount x n \<Rightarrow> val_resize x (\<lambda>b. (None, setBitCount n b)) env
   | SetBit x i on \<Rightarrow> (case env x of
       None \<Rightarrow> None | Some b \<Rightarrow> map_option (\<lambda>b'. (None, env(x \<mapsto> b'))) (set_bit_to b i on))
   | Dup x a src \<Rightarrow> (case env src of
       None \<Rightarrow> None
     | Some b \<Rightarrow> if fst (dup a b) = None \<and> \<not> valid b then None else val_new x (dup a b) env))"

section \<open>The invariant\<close>

definition owned :: "bheap \<Rightarrow> nat \<Rightarrow> nat \<Rightarrow> bool" where
  "owned h x p \<longleftrightarrow> (\<exists>ob. objects h x = Some ob \<and> ob_data ob = Some p)"

definition bh_ok :: "bheap \<Rightarrow> bool" where
  "bh_ok h \<longleftrightarrow>
     (\<forall>x p. owned h x p \<longrightarrow> p \<in> dom (blocks h)) \<and>
     (\<forall>x y p. owned h x p \<longrightarrow> owned h y p \<longrightarrow> x = y) \<and>
     (\<forall>p \<in> dom (blocks h). p < brk h)"

definition leaked :: "bheap \<Rightarrow> nat set" where
  "leaked h = {p \<in> dom (blocks h). \<forall>x. \<not> owned h x p}"

definition value_of :: "bheap \<Rightarrow> BitsObj \<Rightarrow> Bits option" where
  "value_of h ob = map_option (\<lambda>bs. \<lparr>bitcount = ob_count ob, data = bs\<rparr>) (bytes_at (ob_data ob) h)"

definition values_of :: "bheap \<Rightarrow> bits_env" where
  "values_of h x = Option.bind (objects h x) (value_of h)"

text \<open>What a step does to one object \<open>x\<close>: the blocks of the others stay.\<close>

definition only_at :: "nat \<Rightarrow> bheap \<Rightarrow> bheap \<Rightarrow> bool" where
  "only_at x h h' \<longleftrightarrow>
     (\<forall>y. y \<noteq> x \<longrightarrow> objects h' y = objects h y) \<and>
     (\<forall>y p. y \<noteq> x \<longrightarrow> owned h y p \<longrightarrow> blocks h' p = blocks h p)"

lemma owned_put: "owned (put_obj x ob h) y p \<longleftrightarrow>
    (if y = x then \<exists>b. ob = Some b \<and> ob_data b = Some p else owned h y p)"
  by (auto simp: owned_def put_obj_def)

lemma owned_blocks [simp]: "owned (h\<lparr>blocks := bl\<rparr>) y p = owned h y p"
  "owned (h\<lparr>brk := k\<rparr>) y p = owned h y p"
  by (simp_all add: owned_def)

lemma put_obj_simps [simp]:
  "objects (put_obj x ob h) = (objects h)(x := ob)" "blocks (put_obj x ob h) = blocks h"
  "brk (put_obj x ob h) = brk h"
  by (simp_all add: put_obj_def)

lemma values_only_at:
  "only_at x h h' \<Longrightarrow> values_of h' = (values_of h)(x := Option.bind (objects h' x) (value_of h'))"
  by (rule ext) (auto simp: values_of_def only_at_def value_of_def bytes_at_def owned_def
      split: option.splits Option.bind_splits)

lemma bh_ok_only_at:
  assumes "bh_ok h" "only_at x h h'" "brk h \<le> brk h'"
    and new: "\<And>p. owned h' x p \<Longrightarrow> p \<in> dom (blocks h') \<and> (\<forall>y. y \<noteq> x \<longrightarrow> \<not> owned h y p)"
    and dom: "\<And>p. p \<in> dom (blocks h') \<Longrightarrow> p < brk h'"
  shows "bh_ok h'"
proof -
  have other: "owned h' y p = owned h y p" if "y \<noteq> x" for y p
    using assms(2) that by (simp add: only_at_def owned_def)
  have "p \<in> dom (blocks h')" if "owned h' y p" for y p
    using assms(1,2) new [of p] that other [of y p]
    by (cases "y = x") (auto simp: bh_ok_def only_at_def domIff)
  moreover have "y = z" if "owned h' y p" "owned h' z p" for y z p
    using assms(1) new [of p] that other [of y p] other [of z p]
    by (cases "y = x"; cases "z = x") (auto simp: bh_ok_def)
  ultimately show ?thesis
    using dom by (auto simp: bh_ok_def)
qed

lemma bh_ok_bytes: "bh_ok h \<Longrightarrow> objects h x = Some ob \<Longrightarrow> \<exists>bs. bytes_at (ob_data ob) h = Some bs"
  by (auto simp: bh_ok_def owned_def bytes_at_def split: option.splits)

lemma values_of_Some:
  "bh_ok h \<Longrightarrow> objects h x = Some ob \<Longrightarrow>
   values_of h x = Some \<lparr>bitcount = ob_count ob, data = the (bytes_at (ob_data ob) h)\<rparr>"
  by (auto simp: values_of_def value_of_def dest: bh_ok_bytes)

lemma values_of_None [simp]: "objects h x = None \<Longrightarrow> values_of h x = None"
  by (simp add: values_of_def)

lemma values_of_None_iff: "bh_ok h \<Longrightarrow> values_of h x = None \<longleftrightarrow> objects h x = None"
  by (cases "objects h x") (auto dest: values_of_Some)

text \<open>A step that gives the value result \<open>v\<close>, keeps the invariant and leaks \<open>lost\<close>.\<close>

definition does :: "bheap \<Rightarrow> nat set \<Rightarrow> (string option \<times> bheap) option \<Rightarrow> (string option \<times> bits_env) option \<Rightarrow> bool" where
  "does h lost r v \<longleftrightarrow> map_option (map_prod id values_of) r = v \<and>
     (\<forall>e h'. r = Some (e, h') \<longrightarrow> bh_ok h' \<and> leaked h' = leaked h \<union> lost)"

lemma does_None [simp]: "does h lost None v \<longleftrightarrow> v = None"
  by (auto simp: does_def)

lemma does_Some: "does h lost (Some (e, h')) v \<longleftrightarrow>
    v = Some (e, values_of h') \<and> bh_ok h' \<and> leaked h' = leaked h \<union> lost"
  by (auto simp: does_def)

lemma only_at_put: "only_at x h (put_obj x ob h)"
  by (simp add: only_at_def)

lemma value_of_put [simp]: "value_of (put_obj x ob h) = value_of h"
  by (rule ext) (simp add: value_of_def bytes_at_def split: option.split)

lemma not_owned: "objects h x = None \<Longrightarrow> \<not> owned h x p"
  by (simp add: owned_def)

lemma values_put: "values_of (put_obj x ob h) = (values_of h)(x := Option.bind ob (value_of h))"
  using values_only_at [OF only_at_put [of x h ob]] by simp

section \<open>Each operation\<close>

lemma does_new:
  assumes "bh_ok h"
  shows "does h {} (Bits_new x h) (val_new x (None, Bits_empty) (values_of h))"
proof (cases "objects h x")
  case None
  have "bh_ok (put_obj x (Some empty_obj) h)"
    using assms by (rule bh_ok_only_at [OF _ only_at_put])
      (use assms in \<open>auto simp: owned_put empty_obj_def bh_ok_def\<close>)
  moreover have "leaked (put_obj x (Some empty_obj) h) = leaked h"
    using not_owned [OF None] by (auto simp: leaked_def owned_put empty_obj_def) metis
  ultimately show ?thesis
    using None by (simp add: Bits_new_def val_new_def does_Some values_put value_of_def bytes_at_def
        empty_obj_def Bits_empty_def)
next
  case (Some ob)
  then show ?thesis
    using assms by (simp add: Bits_new_def val_new_def values_of_Some)
qed

lemma does_count:
  assumes "bh_ok h"
  shows "does h {} (Bits_count x f h)
           (val_resize x (\<lambda>b. (None, b\<lparr>bitcount := f (bitcount b)\<rparr>)) (values_of h))"
proof (cases "objects h x")
  case None
  then show ?thesis
    by (simp add: Bits_count_def val_resize_def)
next
  case (Some ob)
  define ob' where "ob' = ob\<lparr>ob_count := f (ob_count ob)\<rparr>"
  have own: "owned (put_obj x (Some ob') h) = owned h"
    by (intro ext) (use Some in \<open>auto simp: owned_put ob'_def owned_def\<close>)
  then have "bh_ok (put_obj x (Some ob') h)" "leaked (put_obj x (Some ob') h) = leaked h"
    using assms by (simp_all add: bh_ok_def leaked_def)
  then show ?thesis
    using Some bh_ok_bytes [OF assms Some]
    by (auto simp: Bits_count_def val_resize_def does_Some values_put values_of_Some [OF assms Some]
        value_of_def ob'_def)
qed

lemma does_move_new:
  assumes "bh_ok h"
  shows "does h {} (Bits_move_new x src h) (run_val (MoveNew x src) (values_of h))"
proof (cases "objects h src")
  case None
  then show ?thesis
    by (simp add: Bits_move_new_def run_val_def)
next
  case (Some ob)
  show ?thesis
  proof (cases "objects h x")
    case None
    let ?h = "put_obj src (Some empty_obj) (put_obj x (Some ob) h)"
    have ne: "x \<noteq> src"
      using None Some by auto
    have own: "owned ?h y p \<longleftrightarrow> (if y = src then False else owned h (if y = x then src else y) p)" for y p
      using ne Some by (auto simp: owned_put empty_obj_def) (auto simp: owned_def)
    have nx: "\<not> owned h x p" for p
      using None by (simp add: owned_def)
    have "bh_ok ?h"
      using assms by (auto simp: bh_ok_def own split: if_splits)
    moreover have "(\<exists>y. owned ?h y p) \<longleftrightarrow> (\<exists>y. owned h y p)" for p
      using nx ne unfolding own by metis
    then have "leaked ?h = leaked h"
      unfolding leaked_def by auto
    ultimately show ?thesis
      using None Some ne bh_ok_bytes [OF assms Some]
      by (auto simp: Bits_move_new_def run_val_def val_new_def move_def does_Some values_put
          values_of_Some [OF assms Some] value_of_def empty_obj_def bytes_at_def Bits_empty_def)
  next
    case (Some ob')
    then show ?thesis
      using \<open>objects h src = Some ob\<close> assms
      by (simp add: Bits_move_new_def run_val_def val_new_def move_def values_of_Some)
  qed
qed

text \<open>The three ways a step changes the blocks: one goes, one comes, one is overwritten.\<close>

definition drop_block :: "nat option \<Rightarrow> bheap \<Rightarrow> bheap" where
  "drop_block p h = h\<lparr>blocks := (case p of None \<Rightarrow> blocks h | Some q \<Rightarrow> (blocks h)(q := None))\<rparr>"

definition add_block :: "byte list \<Rightarrow> bheap \<Rightarrow> bheap" where
  "add_block bs h = h\<lparr>blocks := (blocks h)(brk h := Some bs), brk := Suc (brk h)\<rparr>"

lemma c_free_owned:
  assumes "bh_ok h" "objects h x = Some ob"
  shows "c_free (ob_data ob) h = Some (drop_block (ob_data ob) h)"
  using bh_ok_bytes [OF assms] by (auto simp: c_free_def drop_block_def bytes_at_def split: option.split)

lemma only_at_trans: "only_at x h h1 \<Longrightarrow> only_at x h1 h2 \<Longrightarrow> only_at x h h2"
  by (auto simp: only_at_def owned_def)

lemma drop_block_ok:
  assumes ok: "bh_ok h" and x: "objects h x = Some ob" and e: "\<And>b. o' = Some b \<Longrightarrow> ob_data b = None"
  defines "h' \<equiv> put_obj x o' (drop_block (ob_data ob) h)"
  shows "bh_ok h'" "leaked h' = leaked h" "only_at x h h'"
proof -
  have own: "owned h' y p \<longleftrightarrow> y \<noteq> x \<and> owned h y p" for y p
    using e by (auto simp: h'_def owned_put drop_block_def)
  have bl: "blocks h' p = (if owned h x p then None else blocks h p)" for p
    using x by (auto simp: h'_def drop_block_def owned_def split: option.split)
  show oa: "only_at x h h'"
    using ok by (auto simp: only_at_def bl bh_ok_def) (simp add: h'_def drop_block_def)
  have br: "brk h' = brk h"
    by (simp add: h'_def drop_block_def)
  show "bh_ok h'"
    using ok unfolding bh_ok_def own br by (auto simp: bl domIff split: if_splits)
  show "leaked h' = leaked h"
    using ok unfolding leaked_def own bh_ok_def by (auto simp: bl split: if_splits)
qed

lemma add_block_ok:
  fixes n bs
  assumes ok: "bh_ok h" and x: "\<And>p. \<not> owned h x p"
  defines "h' \<equiv> put_obj x (Some \<lparr>ob_count = n, ob_data = Some (brk h)\<rparr>) (add_block bs h)"
  shows "bh_ok h'" "leaked h' = leaked h" "only_at x h h'"
proof -
  have own: "owned h' y p \<longleftrightarrow> (if y = x then p = brk h else owned h y p)" for y p
    by (auto simp: h'_def owned_put add_block_def)
  have fresh1: "brk h \<notin> dom (blocks h)"
    using ok by (auto simp: bh_ok_def)
  have fresh: "brk h \<notin> dom (blocks h)" "\<not> owned h y (brk h)" for y
    using ok fresh1 by (simp, unfold bh_ok_def, blast)
  show "only_at x h h'"
    using fresh by (auto simp: only_at_def h'_def add_block_def)
  show "bh_ok h'"
    using ok fresh unfolding bh_ok_def own
    by (auto simp: h'_def add_block_def split: if_splits intro: less_SucI)
  show "leaked h' = leaked h"
    using x fresh unfolding leaked_def own by (auto simp: h'_def add_block_def split: if_splits)
qed

lemma write_block_ok:
  fixes bs
  assumes ok: "bh_ok h" and x: "owned h x p"
  defines "h' \<equiv> h\<lparr>blocks := (blocks h)(p := Some bs)\<rparr>"
  shows "bh_ok h'" "leaked h' = leaked h" "only_at x h h'"
  using assms by (auto simp: bh_ok_def leaked_def only_at_def)

lemma does_delete:
  assumes "bh_ok h"
  shows "does h {} (Bits_delete x h) (run_val (Delete x) (values_of h))"
proof (cases "objects h x")
  case None
  then show ?thesis
    by (simp add: Bits_delete_def run_val_def)
next
  case (Some ob)
  note d = drop_block_ok [OF assms Some, of None, simplified]
  show ?thesis
    using d(1,2) values_only_at [OF d(3)]
    by (simp add: Bits_delete_def Some c_free_owned [OF assms Some] run_val_def does_Some
        values_of_Some [OF assms Some])
qed

text \<open>The block of the overwritten object is lost.\<close>

definition dropped :: "bits_op \<Rightarrow> bheap \<Rightarrow> nat set" where
  "dropped c h = (case c of
     Assign x src \<Rightarrow> if objects h src = None then {} else {p. owned h x p}
   | _ \<Rightarrow> {})"

lemma does_assign:
  assumes "bh_ok h"
  shows "does h (dropped (Assign x src) h) (Bits_assign x src h) (run_val (Assign x src) (values_of h))"
proof (cases "objects h x = None \<or> objects h src = None")
  case True
  then show ?thesis
    by (cases "objects h x"; cases "objects h src") (simp_all add: Bits_assign_def run_val_def split: option.split)
next
  case False
  then obtain o' ob where x: "objects h x = Some o'" and s: "objects h src = Some ob"
    by auto
  let ?h = "put_obj src (Some empty_obj) (put_obj x (Some ob) h)"
  have own: "owned ?h y p \<longleftrightarrow> (if y = src then False else owned h (if y = x then src else y) p)" for y p
    by (simp add: owned_put empty_obj_def) (simp add: owned_def s)
  have own_dom: "owned h y p \<Longrightarrow> p \<in> dom (blocks h)" for y p
    using assms unfolding bh_ok_def by blast
  have one: "owned h y p \<Longrightarrow> owned h z p \<Longrightarrow> y = z" for y z p
    using assms unfolding bh_ok_def by blast
  have less: "p \<in> dom (blocks h) \<Longrightarrow> p < brk h" for p
    using assms unfolding bh_ok_def by blast
  have ok: "bh_ok ?h"
    unfolding bh_ok_def
  proof (intro conjI allI impI ballI)
    fix y p
    assume "owned ?h y p"
    then show "p \<in> dom (blocks ?h)"
      using own_dom unfolding own by (simp split: if_splits)
  next
    fix y z p
    assume a: "owned ?h y p" "owned ?h z p"
    then have "(if y = x then src else y) = (if z = x then src else z)"
      unfolding own by (intro one [of _ p]) (simp_all split: if_splits)
    then show "y = z"
      using a unfolding own by (simp split: if_splits)
  next
    fix p
    assume "p \<in> dom (blocks ?h)"
    then show "p < brk ?h"
      using less by simp
  qed
  have to: "\<exists>y. y \<noteq> x \<and> owned h y p" if "owned ?h y p" for y p
    using that by (intro exI [of _ "if y = x then src else y"]) (auto simp: own split: if_splits)
  have other: "\<exists>y. owned ?h y p" if "y \<noteq> x" "owned h y p" for y p
    using that by (intro exI [of _ "if y = src then x else y"]) (auto simp: own)
  have bl: "dom (blocks ?h) = dom (blocks h)"
    by simp
  have "p \<in> leaked ?h \<longleftrightarrow> p \<in> leaked h \<or> owned h x p" for p
  proof
    assume "p \<in> leaked ?h"
    then show "p \<in> leaked h \<or> owned h x p"
      unfolding leaked_def bl using other [of _ p] by (simp, metis)
  next
    assume "p \<in> leaked h \<or> owned h x p"
    then show "p \<in> leaked ?h"
      unfolding leaked_def bl using to [of _ p] one [of _ p x] own_dom [of x p] by blast
  qed
  then have lk: "leaked ?h = leaked h \<union> {p. owned h x p}"
    by blast
  have "value_of h empty_obj = Some Bits_empty"
    by (simp add: value_of_def empty_obj_def bytes_at_def Bits_empty_def)
  moreover have "value_of h ob = values_of h src"
    using s by (simp add: values_of_def)
  ultimately show ?thesis
    using x s ok lk by (simp add: Bits_assign_def run_val_def move_def does_Some values_put dropped_def
        values_of_Some [OF assms s] values_of_Some [OF assms x])
qed

lemma c_realloc_owned:
  assumes "bh_ok h" "objects h x = Some ob"
  shows "c_realloc None (ob_data ob) n h = Some (None, h)"
    and "c_realloc (Some junk) (ob_data ob) n h =
           Some (Some (brk h), add_block (realloc junk (the (bytes_at (ob_data ob) h)) n) (drop_block (ob_data ob) h))"
  using bh_ok_bytes [OF assms] by (auto simp: c_realloc_def add_block_def drop_block_def split: option.split)

lemma does_resize:
  assumes "bh_ok h"
  shows "does h {} (Bits_resize x a n h) (val_resize x (resize a n) (values_of h))"
proof (cases "objects h x")
  case None
  then show ?thesis
    by (simp add: Bits_resize_def val_resize_def)
next
  case (Some ob)
  note v = values_of_Some [OF assms Some]
  consider "n = 0" | "n \<noteq> 0" "a = None" | junk where "n \<noteq> 0" "a = Some junk"
    by (cases a) auto
  then show ?thesis
  proof cases
    case 1
    note d = drop_block_ok [OF assms Some, of "Some empty_obj"]
    show ?thesis
      using 1 d(1,2) values_only_at [OF d(3)]
      by (simp add: Bits_resize_def Some c_free_owned [OF assms Some] val_resize_def v does_Some
          resize_def empty_obj_def value_of_def bytes_at_def)
  next
    case 2
    show ?thesis
      using 2 assms v by (auto simp: Bits_resize_def Some c_realloc_owned [OF assms Some] val_resize_def
          does_Some resize_def)
  next
    case (3 junk)
    define bs where "bs = realloc junk (the (bytes_at (ob_data ob) h)) ((n + 7) div 8)"
    define z where "z = (if byte_size (ob_count ob) < byte_size n
        then zero_from (byte_size (ob_count ob)) (byte_size n - byte_size (ob_count ob)) bs else bs)"
    let ?h1 = "put_obj x None (drop_block (ob_data ob) h)"
    let ?h2 = "put_obj x (Some \<lparr>ob_count = n, ob_data = Some (brk ?h1)\<rparr>) (add_block z ?h1)"
    note d = drop_block_ok [OF assms Some, of None, simplified]
    have free: "\<not> owned ?h1 x p" for p
      by (simp add: owned_put)
    note ab = add_block_ok [OF d(1) free, of n z]
    have r: "Bits_resize x a n h = Some (None, ?h2)"
      using 3 by (simp add: Bits_resize_def Some c_realloc_owned [OF assms Some] Let_def z_def bs_def
          add_block_def put_obj_def drop_block_def)
    have vals: "values_of ?h2 = (values_of h)(x \<mapsto> \<lparr>bitcount = n, data = z\<rparr>)"
      using values_only_at [OF only_at_trans [OF d(3) ab(3)]]
      by (simp add: value_of_def bytes_at_def add_block_def)
    have "resize a n \<lparr>bitcount = ob_count ob, data = the (bytes_at (ob_data ob) h)\<rparr>
        = (None, \<lparr>bitcount = n, data = z\<rparr>)"
      using 3 by (simp add: resize_def Let_def z_def bs_def)
    then have "val_resize x (resize a n) (values_of h) = Some (None, values_of ?h2)"
      unfolding vals by (simp add: val_resize_def v)
    then show ?thesis
      using ab(1,2) d(2) by (simp only: r does_Some) blast
  qed
qed

lemma does_new_size:
  assumes "bh_ok h"
  shows "does h {} (Bits_new_size x a n h) (val_new x (resize a n Bits_empty) (values_of h))"
proof (cases "objects h x")
  case None
  define h1 where "h1 = put_obj x (Some empty_obj) h"
  have n: "Bits_new x h = Some (None, h1)"
    using None by (simp add: Bits_new_def h1_def)
  have h1: "bh_ok h1" "leaked h1 = leaked h" "values_of h1 = (values_of h)(x \<mapsto> Bits_empty)"
    using does_new [OF assms, of x] by (simp_all add: n does_Some val_new_def None)
  note r = does_resize [OF h1(1), of x a n]
  obtain e b where rb: "resize a n Bits_empty = (e, b)"
    by (cases "resize a n Bits_empty")
  then obtain h2 where h2: "Bits_resize x a n h1 = Some (e, h2)"
    and h2': "bh_ok h2" "leaked h2 = leaked h" "values_of h2 = (values_of h)(x \<mapsto> b)"
    using r by (cases "Bits_resize x a n h1") (auto simp: val_resize_def h1 does_Some)
  show ?thesis
  proof (cases e)
    case None
    then show ?thesis
      using h2 h2' by (simp add: Bits_new_size_def n rb val_new_def does_Some \<open>objects h x = None\<close>)
  next
    case (Some err)
    note d = does_delete [OF h2'(1), of x]
    obtain e' h3 where h3: "Bits_delete x h2 = Some (e', h3)"
      using d by (cases "Bits_delete x h2") (auto simp: run_val_def h2')
    have un: "values_of h x = None" "((values_of h)(x \<mapsto> b))(x := None) = values_of h"
      using \<open>objects h x = None\<close> by (simp_all add: fun_upd_idem)
    have h3': "bh_ok h3" "leaked h3 = leaked h" "values_of h3 = values_of h"
      using d un by (simp_all add: h3 run_val_def does_Some h2')
    show ?thesis
      using h2 Some un(1) by (simp add: Bits_new_size_def n rb val_new_def h3 does_Some h3')
  qed
next
  case (Some ob)
  then show ?thesis
    using assms by (simp add: Bits_new_size_def Bits_new_def val_new_def values_of_Some)
qed

lemma does_set_bit:
  assumes "bh_ok h"
  shows "does h {} (Bits_set_bit x i on h) (run_val (SetBit x i on) (values_of h))"
proof (cases "objects h x")
  case None
  then show ?thesis
    by (simp add: Bits_set_bit_def run_val_def)
next
  case (Some ob)
  note v = values_of_Some [OF assms Some]
  show ?thesis
  proof (cases "ob_data ob")
    case None
    then show ?thesis
      using Some v by (simp add: Bits_set_bit_def run_val_def set_bit_to_def bytes_at_def)
  next
    case (Some p)
    have own: "owned h x p"
      using Some \<open>objects h x = Some ob\<close> by (simp add: owned_def)
    then obtain bs where bs: "blocks h p = Some bs"
      using assms unfolding bh_ok_def by blast
    note w = write_block_ok [OF assms own]
    show ?thesis
      using Some \<open>objects h x = Some ob\<close> v bs w(1,2) values_only_at [OF w(3)]
      by (simp add: Bits_set_bit_def run_val_def set_bit_to_def bytes_at_def does_Some value_of_def)
  qed
qed


lemma resize_others: "Bits_resize x a n h = Some (e, h') \<Longrightarrow> y \<noteq> x \<Longrightarrow> objects h' y = objects h y"
  by (auto simp: Bits_resize_def c_free_def c_realloc_def Let_def split: option.splits if_splits)

lemma new_size_others: "Bits_new_size x a n h = Some (None, h') \<Longrightarrow> y \<noteq> x \<Longrightarrow> objects h' y = objects h y"
  by (auto simp: Bits_new_size_def Bits_new_def split: option.splits if_splits
      dest!: resize_others [where y = y])

lemma data_upd: "b\<lparr>data := bs\<rparr> = \<lparr>bitcount = bitcount b, data = bs\<rparr>"
  for b :: Bits
  by (cases b) simp

lemma resized_length: "resize a n Bits_empty = (None, b) \<Longrightarrow> length (data b) = byte_size n"
  by (auto simp: resize_def Bits_empty_def Let_def realloc_def zero_from_def byte_size_def
      split: option.splits if_splits)

lemma does_dup:
  assumes "bh_ok h"
  shows "does h {} (Bits_dup x a src h) (run_val (Dup x a src) (values_of h))"
proof (cases "objects h src")
  case None
  then show ?thesis
    by (simp add: Bits_dup_def run_val_def)
next
  case (Some ob)
  define bs where "bs = the (bytes_at (ob_data ob) h)"
  define sz where "sz = byte_size (ob_count ob)"
  have vs: "values_of h src = Some \<lparr>bitcount = ob_count ob, data = bs\<rparr>"
    using values_of_Some [OF assms Some] by (simp add: bs_def)
  obtain e b where rb: "resize a (ob_count ob) Bits_empty = (e, b)"
    by (cases "resize a (ob_count ob) Bits_empty")
  note s = does_new_size [OF assms, of x a "ob_count ob", unfolded rb]
  have dv: "dup a \<lparr>bitcount = ob_count ob, data = bs\<rparr> =
      (case e of Some err \<Rightarrow> (Some err, b) | None \<Rightarrow> (None, b\<lparr>data := take sz bs\<rparr>))"
    by (simp add: dup_def rb sz_def split: option.split)
  have rv: "run_val (Dup x a src) (values_of h) =
      (if e = None \<and> length bs < sz then None
       else val_new x (e, if e = None then b\<lparr>data := take sz bs\<rparr> else b) (values_of h))"
    by (cases e) (simp_all add: run_val_def vs dv valid_def sz_def not_le)
  show ?thesis
  proof (cases "Bits_new_size x a (ob_count ob) h")
    case None
    then have "val_new x (e, b) (values_of h) = None"
      using s by simp
    then have "values_of h x \<noteq> None"
      by (auto simp: val_new_def split: option.splits if_splits)
    then show ?thesis
      using Some None unfolding rv by (simp add: Bits_dup_def val_new_def)
  next
    case r: (Some r)
    obtain e' h' where [simp]: "r = (e', h')"
      by (cases r)
    have h': "bh_ok h'" "leaked h' = leaked h" "val_new x (e, b) (values_of h) = Some (e', values_of h')"
      using s by (simp_all add: r does_Some)
    have x: "values_of h x = None" and [simp]: "e' = e"
      using h'(3) by (auto simp: val_new_def split: option.splits if_splits)
    then have ne: "src \<noteq> x"
      using vs by auto
    show ?thesis
    proof (cases e)
      case (Some err)
      then show ?thesis
        using \<open>objects h src = Some ob\<close> h' x unfolding rv
        by (simp add: Bits_dup_def r does_Some val_new_def)
    next
      case None
      then have vh': "values_of h' = (values_of h)(x \<mapsto> b)"
        using h'(3) x by (simp add: val_new_def)
      obtain d where d: "objects h' x = Some d"
        using vh' by (cases "objects h' x") (auto dest: values_of_None fun_cong [of _ _ x])
      have os: "objects h' src = Some ob"
        using new_size_others [of x a "ob_count ob" h h' src] r None ne \<open>objects h src = Some ob\<close> by simp
      obtain bs' where bs': "bytes_at (ob_data ob) h' = Some bs'"
        using bh_ok_bytes [OF h'(1) os] by blast
      have "values_of h' src = values_of h src"
        using vh' ne by simp
      then have "bs' = bs"
        using values_of_Some [OF h'(1) os] vs bs' by simp
      show ?thesis
      proof (cases "ob_data d")
        case None
        have "data b = []"
          using values_of_Some [OF h'(1) d] vh' None by (simp add: bytes_at_def)
        moreover have "length (data b) = sz"
          using resized_length rb \<open>e = None\<close> by (simp add: sz_def)
        ultimately have "b\<lparr>data := take sz bs\<rparr> = b" "sz = 0"
          by simp_all
        then show ?thesis
          using Some d r bs' None h' unfolding rv
          by (simp add: Bits_dup_def os \<open>objects h src = Some ob\<close> \<open>e = None\<close> \<open>bs' = bs\<close> does_Some
              sz_def [symmetric])
      next
        case (Some q)
        have own: "owned h' x q"
          using d Some by (simp add: owned_def)
        note w = write_block_ok [OF h'(1) own, of "take sz bs"]
        have "ob_count d = bitcount b"
          using values_of_Some [OF h'(1) d] vh' by auto
        then have vals: "values_of (h'\<lparr>blocks := (blocks h')(q := Some (take sz bs))\<rparr>)
            = (values_of h)(x \<mapsto> b\<lparr>data := take sz bs\<rparr>)"
          using values_only_at [OF w(3)] d Some
          by (simp add: value_of_def bytes_at_def vh' data_upd)
        show ?thesis
          using Some d r bs' None w(1,2) h'(2) x unfolding rv
          by (simp add: Bits_dup_def \<open>objects h src = Some ob\<close> \<open>e = None\<close> \<open>bs' = bs\<close> does_Some
              sz_def [symmetric] val_new_def vals)
      qed
    qed
  qed
qed

section \<open>Programs on bit arrays\<close>

fun run_ops :: "bits_op list \<Rightarrow> bheap \<Rightarrow> (string option list \<times> bheap) option" where
  "run_ops [] h = Some ([], h)"
| "run_ops (c # cs) h = (case run_op c h of
     None \<Rightarrow> None
   | Some (e, h') \<Rightarrow> map_option (\<lambda>(es, h''). (e # es, h'')) (run_ops cs h'))"

fun val_ops :: "bits_op list \<Rightarrow> bits_env \<Rightarrow> (string option list \<times> bits_env) option" where
  "val_ops [] env = Some ([], env)"
| "val_ops (c # cs) env = (case run_val c env of
     None \<Rightarrow> None
   | Some (e, env') \<Rightarrow> map_option (\<lambda>(es, env''). (e # es, env'')) (val_ops cs env'))"

text \<open>The blocks of the arrays that were assigned to while they owned one.\<close>

fun overwritten :: "bits_op list \<Rightarrow> bheap \<Rightarrow> nat set" where
  "overwritten [] h = {}"
| "overwritten (c # cs) h = dropped c h \<union>
     (case run_op c h of None \<Rightarrow> {} | Some (e, h') \<Rightarrow> overwritten cs h')"

definition heap_start :: bheap where
  "heap_start = \<lparr>objects = Map.empty, blocks = Map.empty, brk = 0\<rparr>"

lemma bh_ok_start [simp]: "bh_ok heap_start" "leaked heap_start = {}" "values_of heap_start = Map.empty"
  by (simp_all add: bh_ok_def leaked_def heap_start_def owned_def values_of_def fun_eq_iff)

lemma run_op_does: "bh_ok h \<Longrightarrow> does h (dropped c h) (run_op c h) (run_val c (values_of h))"
proof -
  assume ok: "bh_ok h"
  note one = does_new [OF ok] does_new_size [OF ok] does_move_new [OF ok] does_delete [OF ok]
    does_assign [OF ok] does_resize [OF ok] does_count [OF ok] does_set_bit [OF ok] does_dup [OF ok]
  have shrink: "shrinkTo n = (\<lambda>b. b\<lparr>bitcount := if n < bitcount b then n else bitcount b\<rparr>)" for n
    by (rule ext) (simp add: shrinkTo_def)
  have count: "setBitCount n = (\<lambda>b. b\<lparr>bitcount := n\<rparr>)" for n
    by (rule ext) (simp add: setBitCount_def)
  have ne1: "resizeNE1Compat a n = resize a (8 * (1 + n div 8))" for a n
    by (rule ext) (simp add: resizeNE1Compat_def)
  show "does h (dropped c h) (run_op c h) (run_val c (values_of h))"
  proof (cases c)
    case (Assign x src)
    then show ?thesis
      using one(5) [of x src] by (simp add: run_op_def)
  next
    case (MoveNew x src)
    then show ?thesis
      using one(3) [of x src] by (simp add: run_op_def dropped_def)
  next
    case (Delete x)
    then show ?thesis
      using one(4) [of x] by (simp add: run_op_def dropped_def)
  next
    case (SetBit x i on)
    then show ?thesis
      using one(8) [of x i on] by (simp add: run_op_def dropped_def)
  next
    case (Dup x a src)
    then show ?thesis
      using one(9) [of x a src] by (simp add: run_op_def dropped_def)
  next
    case (Shrink x n)
    then show ?thesis
      using one(7) [of x "\<lambda>c. if n < c then n else c"]
      by (simp add: run_op_def run_val_def dropped_def shrink)
  next
    case (SetCount x n)
    then show ?thesis
      using one(7) [of x "\<lambda>_. n"] by (simp add: run_op_def run_val_def dropped_def count)
  next
    case (New x)
    then show ?thesis
      using one(1) [of x] by (simp add: run_op_def run_val_def dropped_def)
  next
    case (NewSize x a n)
    then show ?thesis
      using one(2) [of x a n] by (simp add: run_op_def run_val_def dropped_def)
  next
    case (Resize x a n)
    then show ?thesis
      using one(6) [of x a n] by (simp add: run_op_def run_val_def dropped_def)
  next
    case (ResizeNE1 x a n)
    then show ?thesis
      using one(6) [of x a "8 * (1 + n div 8)"] by (simp add: run_op_def run_val_def dropped_def ne1)
  qed
qed

lemma run_ops_does:
  "bh_ok h \<Longrightarrow> map_option (map_prod id values_of) (run_ops cs h) = val_ops cs (values_of h) \<and>
   (\<forall>es h'. run_ops cs h = Some (es, h') \<longrightarrow> bh_ok h' \<and>
      leaked h' = leaked h \<union> overwritten cs h)"
proof (induction cs arbitrary: h)
  case Nil
  then show ?case
    by simp
next
  case (Cons c cs)
  note d = run_op_does [OF Cons.prems, of c]
  show ?case
  proof (cases "run_op c h")
    case None
    then show ?thesis
      using d by simp
  next
    case (Some r)
    obtain e h1 where r: "r = (e, h1)"
      by (cases r)
    have h1: "run_val c (values_of h) = Some (e, values_of h1)" "bh_ok h1" "leaked h1 = leaked h \<union> dropped c h"
      using d by (simp_all add: Some r does_Some)
    note I = Cons.IH [OF h1(2)]
    show ?thesis
    proof (cases "run_ops cs h1")
      case None
      then show ?thesis
        using I by (simp add: Some r h1(1))
    next
      case (Some q)
      obtain es h2 where q: "q = (es, h2)"
        by (cases q)
      have "val_ops cs (values_of h1) = Some (es, values_of h2)" "bh_ok h2"
        "leaked h2 = leaked h1 \<union> overwritten cs h1"
        using I by (simp_all add: Some q)
      then show ?thesis
        using h1(3) by (auto simp: \<open>run_op c h = Some r\<close> r h1(1) Some q)
    qed
  qed
qed

text \<open>
  C32. Bit arrays manage their memory: for every sequence of constructions, moves,
  assignments, resizes, duplications, bit writes and destructions, whatever realloc
  answers, running on the heap does what the value level says, with the same
  errors and undefined exactly where that is (so that no block is freed twice, used after it
  is gone or shared by two objects), and the blocks that no array
  owns any more are exactly those of the arrays overwritten by a move assignment.
\<close>

theorem Bits_heap_refines:
  "map_option (map_prod id values_of) (run_ops cs heap_start) = val_ops cs Map.empty \<and>
   (\<forall>es h. run_ops cs heap_start = Some (es, h) \<longrightarrow>
      bh_ok h \<and> leaked h = overwritten cs heap_start)"
  using run_ops_does [OF bh_ok_start(1), of cs] by (simp add: bh_ok_start)

lemma Bits_heap_refines_witness:
  "\<exists>es h. run_ops [NewSize 0 (Some (\<lambda>_. 255)) 9, SetBit 0 8 True, Dup 1 (Some (\<lambda>_. 255)) 0,
                 MoveNew 2 1, Delete 0] heap_start = Some (es, h) \<and> bh_ok h \<and> leaked h = {}"
proof -
  let ?cs = "[NewSize 0 (Some (\<lambda>_. 255)) 9, SetBit 0 8 True, Dup 1 (Some (\<lambda>_. 255)) 0, MoveNew 2 1, Delete 0]"
  have "\<exists>r. run_ops ?cs heap_start = Some r"
    by (simp add: run_op_def heap_start_def Bits_new_size_def Bits_new_def Bits_resize_def c_realloc_def
        bytes_at_def put_obj_def empty_obj_def Let_def realloc_def byte_size_def zero_from_def Bits_set_bit_def
        Bits_dup_def Bits_move_new_def Bits_delete_def c_free_def upt_rec)
  moreover have "overwritten ?cs h = {}" for h
    by (simp add: dropped_def split: option.split)
  ultimately show ?thesis
    using Bits_heap_refines [of ?cs] by auto
qed

text \<open>
  The block of an array that is assigned to is lost: \<open>operator=\<close> overwrites the pointer
  without freeing it.
\<close>

theorem Bits_assign_leaks:
  assumes "bh_ok h" and "owned h x p" and "objects h src \<noteq> None"
  shows "\<exists>h'. run_op (Assign x src) h = Some (None, h') \<and> p \<in> leaked h'"
proof -
  obtain ob ob' where "objects h x = Some ob" "objects h src = Some ob'"
    using assms by (auto simp: owned_def)
  then obtain h' where "run_op (Assign x src) h = Some (None, h')"
    by (simp add: run_op_def Bits_assign_def)
  then show ?thesis
    using run_op_does [OF assms(1), of "Assign x src"] assms(2,3)
    by (auto simp: does_Some dropped_def)
qed

end
