(* ===== verification/CString.thy ===== *)
theory CString
  imports Prelude
begin

text \<open>
  C strings and the parts of the C library the parsers use. A \<open>const char*\<close> is the
  list of the characters from the pointer to the end of its buffer; reading at the end of
  the list gives the terminating NUL, and a NUL inside the list ends the C string early.
  \<open>show_nat\<close> and \<open>show_int\<close> are what \<open>printf\<close> prints for \<open>%u\<close> and \<open>%i\<close>.
\<close>

abbreviation NUL :: char where
  "NUL \<equiv> CHR 0x00"

abbreviation TAB :: char where
  "TAB \<equiv> CHR 0x09"

abbreviation NL :: char where
  "NL \<equiv> CHR 0x0A"

abbreviation CR :: char where
  "CR \<equiv> CHR 0x0D"

abbreviation BACKSLASH :: char where
  "BACKSLASH \<equiv> CHR 0x5C"

fun deref :: "string \<Rightarrow> char" where
  "deref [] = NUL"
| "deref (c # s) = c"

text \<open>The string a \<open>const char*\<close> denotes.\<close>

definition cstr :: "string \<Rightarrow> string" where
  "cstr s = takeWhile (\<lambda>c. c \<noteq> NUL) s"

definition to_lower :: "char \<Rightarrow> char" where
  "to_lower c = (let n = of_char c :: nat in if 65 \<le> n \<and> n \<le> 90 then char_of (n + 32) else c)"

definition strcaseeq :: "string \<Rightarrow> string \<Rightarrow> bool" where
  "strcaseeq a b \<longleftrightarrow> map to_lower (cstr a) = map to_lower (cstr b)"

text \<open>\<open>strncasecmp (a, b, n) == 0\<close> and \<open>strncmp (a, b, n) == 0\<close>.\<close>

fun strncaseeq :: "nat \<Rightarrow> string \<Rightarrow> string \<Rightarrow> bool" where
  "strncaseeq 0 a b = True"
| "strncaseeq (Suc n) a b =
     (if to_lower (deref a) \<noteq> to_lower (deref b) then False
      else if deref a = NUL then True
      else strncaseeq n (tl a) (tl b))"

fun strneq :: "nat \<Rightarrow> string \<Rightarrow> string \<Rightarrow> bool" where
  "strneq 0 a b = True"
| "strneq (Suc n) a b =
     (if deref a \<noteq> deref b then False
      else if deref a = NUL then True
      else strneq n (tl a) (tl b))"

definition digit_char :: "nat \<Rightarrow> char" where
  "digit_char d = char_of (48 + d)"

fun show_nat :: "nat \<Rightarrow> string" where
  "show_nat n = (if n < 10 then [digit_char n] else show_nat (n div 10) @ [digit_char (n mod 10)])"

declare show_nat.simps [simp del]

definition show_int :: "int \<Rightarrow> string" where
  "show_int z = (if z < 0 then CHR ''-'' # show_nat (nat (- z)) else show_nat (nat z))"

text \<open>The bytes of a string, as \<open>memcpy\<close> copies them.\<close>

definition str_bytes :: "string \<Rightarrow> byte list" where
  "str_bytes s = map (\<lambda>c. word_of_nat (of_char c)) s"

definition bytes_str :: "byte list \<Rightarrow> string" where
  "bytes_str bs = map (\<lambda>b. char_of (unat b)) bs"

lemma bytes_str_bytes [simp]: "bytes_str (str_bytes s) = s"
proof -
  have "char_of (unat (word_of_nat (of_char c) :: byte)) = c" for c
  proof -
    have "unat (word_of_nat (of_char c) :: byte) = of_char c mod 256"
      by (simp add: unat_of_nat)
    then show ?thesis by simp
  qed
  then show ?thesis by (simp add: bytes_str_def str_bytes_def comp_def)
qed

lemma str_bytes_str [simp]: "str_bytes (bytes_str bs) = bs"
proof -
  have "word_of_nat (of_char (char_of (unat b))) = b" for b :: byte
  proof -
    have "unat b < 256" using unsigned_less [of b, where ?'a = nat] by simp
    then have "of_char (char_of (unat b)) = unat b" by simp
    then show ?thesis by simp
  qed
  then show ?thesis by (simp add: bytes_str_def str_bytes_def comp_def)
qed

lemma length_bytes_str [simp]: "length (bytes_str bs) = length bs"
  by (simp add: bytes_str_def)

lemma length_str_bytes [simp]: "length (str_bytes s) = length s"
  by (simp add: str_bytes_def)

lemma char_of_0: "(char_of (0::nat) :: char) = NUL"
  by code_simp

lemma str_bytes_nonzero: "NUL \<notin> set n \<Longrightarrow> b \<in> set (str_bytes n) \<Longrightarrow> b \<noteq> 0"
proof
  assume *: "NUL \<notin> set n" "b \<in> set (str_bytes n)" "b = 0"
  then have "char_of (unat b) \<in> set (bytes_str (str_bytes n))"
    unfolding bytes_str_def set_map comp_def by (intro image_eqI [of _ _ b]) simp_all
  with * char_of_0 show False by simp
qed

lemma takeWhile_str_bytes:
  "NUL \<notin> set n \<Longrightarrow>
   takeWhile (\<lambda>b. b \<noteq> 0) (str_bytes n @ r) = str_bytes n @ takeWhile (\<lambda>b. b \<noteq> 0) r"
  by (rule takeWhile_append2) (rule str_bytes_nonzero)

lemma cstr_append_NUL: "NUL \<notin> set s \<Longrightarrow> cstr (s @ NUL # r) = s"
  by (simp add: cstr_def takeWhile_append)

lemma cstr_no_NUL [simp]: "NUL \<notin> set (cstr s)"
  by (auto simp: cstr_def dest: set_takeWhileD)

lemma cstr_id: "NUL \<notin> set s \<Longrightarrow> cstr s = s"
  by (auto simp: cstr_def takeWhile_eq_all_conv)

lemma of_char_digit_char: "d < 10 \<Longrightarrow> of_char (digit_char d) = 48 + d"
  by (simp add: digit_char_def)

lemma show_nat_nonempty [simp]: "show_nat n \<noteq> []"
  by (subst show_nat.simps) simp

lemma show_nat_digits: "\<forall>c\<in>set (show_nat n). \<exists>d<10. c = digit_char d"
proof (induction n rule: show_nat.induct)
  case (1 n)
  show ?case
  proof (cases "n < 10")
    case True
    then show ?thesis by (subst show_nat.simps) auto
  next
    case False
    then have eq: "show_nat n = show_nat (n div 10) @ [digit_char (n mod 10)]"
      by (simp add: show_nat.simps [of n])
    have "\<exists>d<10. digit_char (n mod 10) = digit_char d" by (rule exI [of _ "n mod 10"]) simp
    with "1.IH" [OF False] show ?thesis by (simp add: eq)
  qed
qed

end
