(* ===== verification/NumParse.thy ===== *)
theory NumParse
  imports CString
begin

text \<open>
  The number, boolean and event-name parsers of \<^verbatim>\<open>main.cpp\<close> (\<open>parseLong\<close>,
  \<open>parseULong\<close>, \<open>parseBool\<close>, \<open>String2EV\<close>) and \<open>EV2String\<close> of \<^verbatim>\<open>main.h\<close>.

  \<open>maxlen\<close> is a \<open>size_t\<close> and wraps around, so it is a 64-bit word; \<open>long\<close> has 64
  bits and its overflow is undefined behaviour, reported as \<open>Overflow\<close>.
\<close>

datatype 'a parse = Parsed 'a | Rejected | Overflow

definition map_parse :: "('a \<Rightarrow> 'b) \<Rightarrow> 'a parse \<Rightarrow> 'b parse" where
  "map_parse f p = (case p of Parsed x \<Rightarrow> Parsed (f x) | Rejected \<Rightarrow> Rejected | Overflow \<Rightarrow> Overflow)"

definition LONG_MAX :: int where
  "LONG_MAX = 9223372036854775807"

definition SIZE_MAX :: "64 word" where
  "SIZE_MAX = 18446744073709551615"

section \<open>Digits\<close>

definition in_range :: "char \<Rightarrow> char \<Rightarrow> char \<Rightarrow> bool" where
  "in_range c lo hi \<longleftrightarrow> (of_char lo :: nat) \<le> of_char c \<and> (of_char c :: nat) \<le> of_char hi"

definition char_diff :: "char \<Rightarrow> char \<Rightarrow> int" where
  "char_diff c d = int (of_char c) - int (of_char d)"

definition hex_digit :: "char \<Rightarrow> int option" where
  "hex_digit c =
     (if in_range c CHR ''0'' CHR ''9'' then Some (char_diff c CHR ''0'')
      else if in_range c CHR ''a'' CHR ''f'' then Some (char_diff c CHR ''a'' + 10)
      else if in_range c CHR ''A'' CHR ''F'' then Some (char_diff c CHR ''A'' + 10)
      else None)"

definition oct_digit :: "char \<Rightarrow> int option" where
  "oct_digit c = (if in_range c CHR ''0'' CHR ''7'' then Some (char_diff c CHR ''0'') else None)"

definition dec_digit :: "char \<Rightarrow> int option" where
  "dec_digit c = (if in_range c CHR ''0'' CHR ''9'' then Some (char_diff c CHR ''0'') else None)"

text \<open>
  The three loops of \<open>parseLongParse\<close> differ in the base and the accepted digits.
\<close>

fun digit_loop :: "int \<Rightarrow> (char \<Rightarrow> int option) \<Rightarrow> int \<Rightarrow> string \<Rightarrow> 64 word \<Rightarrow> int parse" where
  "digit_loop base dig out [] maxlen = Parsed out"
| "digit_loop base dig out (c # s) maxlen =
     (if c = NUL \<or> maxlen = 0 then Parsed out
      else case dig c of
        None \<Rightarrow> Rejected
      | Some d \<Rightarrow>
          if base * out + d > LONG_MAX then Overflow
          else digit_loop base dig (base * out + d) s (maxlen - 1))"

definition parseLongParse :: "string \<Rightarrow> 64 word \<Rightarrow> int parse" where
  "parseLongParse s maxlen =
     (if deref s = CHR ''0'' \<and> maxlen > 1 \<and> deref (tl s) = CHR ''x''
      then digit_loop 16 hex_digit 0 (tl (tl s)) (maxlen - 2)
      else if deref s = CHR ''0'' \<and> maxlen > 1
      then digit_loop 8 oct_digit 0 (tl s) (maxlen - 1)
      else digit_loop 10 dec_digit 0 s maxlen)"

fun skip_blank :: "string \<Rightarrow> 64 word \<Rightarrow> string \<times> 64 word" where
  "skip_blank [] maxlen = ([], maxlen)"
| "skip_blank (c # s) maxlen =
     (if maxlen \<noteq> 0 \<and> (c = CHR '' '' \<or> c = TAB) then skip_blank s (maxlen - 1)
      else (c # s, maxlen))"

definition parseLongDo :: "string \<Rightarrow> 64 word \<Rightarrow> bool \<Rightarrow> int parse" where
  "parseLongDo s0 maxlen0 allowSigned =
     (if maxlen0 = 0 \<or> deref s0 = NUL then Rejected
      else
        (let (s1, maxlen1) = skip_blank s0 maxlen0;
             sign = (deref s1 = CHR ''+'' \<or> (allowSigned \<and> deref s1 = CHR ''-''));
             negative = (sign \<and> deref s1 = CHR ''-'');
             s = (if sign then tl s1 else s1);
             maxlen = (if sign then maxlen1 - 1 else maxlen1)
         in if maxlen = 0 \<or> \<not> in_range (deref s) CHR ''0'' CHR ''9'' then Rejected
            else map_parse (\<lambda>out. if negative then - out else out) (parseLongParse s maxlen)))"

definition parseLong :: "string \<Rightarrow> 64 word \<Rightarrow> int parse" where
  "parseLong s maxlen = parseLongDo s maxlen True"

definition parseULong :: "string \<Rightarrow> 64 word \<Rightarrow> 64 word parse" where
  "parseULong s maxlen = map_parse word_of_int (parseLongDo s maxlen False)"

section \<open>Booleans\<close>

definition parseBool :: "string \<Rightarrow> bool option" where
  "parseBool s =
     (if strcaseeq s ''1'' \<or> strcaseeq s ''on'' \<or> strcaseeq s ''yes'' \<or> strcaseeq s ''true''
      then Some True
      else if strcaseeq s ''0'' \<or> strcaseeq s ''no'' \<or> strcaseeq s ''off'' \<or> strcaseeq s ''false''
      then Some False
      else None)"

section \<open>Event type names\<close>

text \<open>The event types of the kernel interface.\<close>

abbreviation (input) EV_SYN :: nat where "EV_SYN \<equiv> 0"
abbreviation (input) EV_KEY :: nat where "EV_KEY \<equiv> 1"
abbreviation (input) EV_REL :: nat where "EV_REL \<equiv> 2"
abbreviation (input) EV_ABS :: nat where "EV_ABS \<equiv> 3"
abbreviation (input) EV_MSC :: nat where "EV_MSC \<equiv> 4"
abbreviation (input) EV_SW :: nat where "EV_SW \<equiv> 5"
abbreviation (input) EV_LED :: nat where "EV_LED \<equiv> 17"
abbreviation (input) EV_SND :: nat where "EV_SND \<equiv> 18"
abbreviation (input) EV_REP :: nat where "EV_REP \<equiv> 20"
abbreviation (input) EV_FF :: nat where "EV_FF \<equiv> 21"
abbreviation (input) EV_PWR :: nat where "EV_PWR \<equiv> 22"
abbreviation (input) EV_FF_STATUS :: nat where "EV_FF_STATUS \<equiv> 23"
abbreviation (input) EV_MAX :: nat where "EV_MAX \<equiv> 31"
abbreviation (input) EV_CNT :: nat where "EV_CNT \<equiv> 32"

definition kEVMap :: "(nat \<times> string) list" where
  "kEVMap =
     [(EV_SYN, ''SYN''), (EV_KEY, ''KEY''), (EV_REL, ''REL''), (EV_ABS, ''ABS''),
      (EV_MSC, ''MSC''), (EV_SW, ''SW ''), (EV_LED, ''LED''), (EV_SND, ''SND''),
      (EV_REP, ''REP''), (EV_FF, ''FF''), (EV_PWR, ''PWR''), (EV_FF_STATUS, ''FF_STATUS'')]"

text \<open>\<open>EV2String\<close> uses the event type as an index into the table.\<close>

definition EV2String :: "nat \<Rightarrow> string" where
  "EV2String ev = (if ev < length kEVMap then snd (kEVMap ! ev) else ''<Unknown>'')"

definition String2EV :: "string \<Rightarrow> nat \<Rightarrow> 32 word parse" where
  "String2EV text0 length0 =
     (let pre = (length0 > 3 \<and> strncaseeq 3 text0 ''EV_'');
          text = (if pre then drop 3 text0 else text0);
          len = (if pre then length0 - 3 else length0)
      in case List.find (\<lambda>(num, name). strncaseeq len text name) kEVMap of
           Some (num, name) \<Rightarrow> Parsed (word_of_nat num)
         | None \<Rightarrow>
             (case parseULong text (word_of_nat len) of
                Parsed num \<Rightarrow> Parsed (ucast num)
              | Rejected \<Rightarrow> Parsed (- 1)
              | Overflow \<Rightarrow> Overflow))"

section \<open>Decimal numbers\<close>

text \<open>The value of a string of decimal digits.\<close>

definition dec_value :: "string \<Rightarrow> int" where
  "dec_value s = foldl (\<lambda>a c. 10 * a + (case dec_digit c of Some d \<Rightarrow> d | None \<Rightarrow> 0)) 0 s"

definition dec_from :: "int \<Rightarrow> string \<Rightarrow> int" where
  "dec_from a s = foldl (\<lambda>a c. 10 * a + (case dec_digit c of Some d \<Rightarrow> d | None \<Rightarrow> 0)) a s"

lemma dec_digit_bounds: "dec_digit c = Some d \<Longrightarrow> 0 \<le> d \<and> d \<le> 9"
  by (auto simp: dec_digit_def in_range_def char_diff_def split: if_splits)

lemma dec_digit_NUL: "dec_digit NUL = None"
  by (simp add: dec_digit_def in_range_def)

lemma dec_from_ge:
  "0 \<le> a \<Longrightarrow> \<forall>c\<in>set s. dec_digit c \<noteq> None \<Longrightarrow> a \<le> dec_from a s"
proof (induction s arbitrary: a)
  case Nil
  then show ?case by (simp add: dec_from_def)
next
  case (Cons c s)
  then obtain d where d: "dec_digit c = Some d" by auto
  with dec_digit_bounds [OF d] Cons have "10 * a + d \<le> dec_from (10 * a + d) s" by simp
  with d dec_digit_bounds [OF d] Cons.prems show ?case by (simp add: dec_from_def)
qed

lemma digit_loop_dec:
  assumes "0 \<le> a" "a \<le> LONG_MAX" "\<forall>c\<in>set s. dec_digit c \<noteq> None" "length s \<le> unat maxlen"
    and "deref r = NUL \<or> length s = unat maxlen"
  shows "digit_loop 10 dec_digit a (s @ r) maxlen =
    (if dec_from a s > LONG_MAX then Overflow else Parsed (dec_from a s))"
  using assms
proof (induction s arbitrary: a maxlen)
  case Nil
  then have "deref r = NUL \<or> maxlen = 0" by (auto simp: unat_eq_0)
  then show ?case using Nil by (cases r) (auto simp: dec_from_def)
next
  case (Cons c s)
  then obtain d where d: "dec_digit c = Some d" by auto
  note b = dec_digit_bounds [OF d]
  have m0: "maxlen \<noteq> 0" using Cons.prems by auto
  have c0: "c \<noteq> NUL" using d by (auto simp: dec_digit_NUL)
  have um: "unat (maxlen - 1) = unat maxlen - 1"
    using m0 by (metis unat_minus_one)
  have step: "dec_from a (c # s) = dec_from (10 * a + d) s"
    using d by (simp add: dec_from_def)
  show ?case
  proof (cases "10 * a + d > LONG_MAX")
    case True
    have "10 * a + d \<le> dec_from (10 * a + d) s"
      using Cons.prems b by (intro dec_from_ge) auto
    with True m0 c0 d step show ?thesis by simp
  next
    case False
    have "digit_loop 10 dec_digit (10 * a + d) (s @ r) (maxlen - 1) =
        (if dec_from (10 * a + d) s > LONG_MAX then Overflow else Parsed (dec_from (10 * a + d) s))"
      using Cons.prems b False um by (intro Cons.IH) auto
    with False m0 c0 d step show ?thesis by simp
  qed
qed

lemma dec_value_from: "dec_value s = dec_from 0 s"
  by (simp add: dec_value_def dec_from_def)

lemma in_range_dec: "in_range c CHR ''0'' CHR ''9'' \<longleftrightarrow> dec_digit c \<noteq> None"
  by (simp add: dec_digit_def)

lemma digit_not_special:
  assumes "dec_digit c \<noteq> None"
  shows "c \<noteq> CHR '' ''" "c \<noteq> TAB" "c \<noteq> CHR ''+''" "c \<noteq> CHR ''-''" "c \<noteq> NUL" "c \<noteq> CHR ''x''"
  using assms by (auto simp: dec_digit_def in_range_def)

lemma parseLongParse_digits:
  assumes digits: "\<forall>c\<in>set s. dec_digit c \<noteq> None"
    and s: "s \<noteq> []" "hd s \<noteq> CHR ''0'' \<or> s = [CHR ''0'']"
    and len: "length s \<le> unat maxlen" "deref r = NUL \<or> length s = unat maxlen"
  shows "parseLongParse (s @ r) maxlen =
    (if dec_value s > LONG_MAX then Overflow else Parsed (dec_value s))"
proof -
  have loop: "digit_loop 10 dec_digit 0 (s @ r) maxlen =
      (if dec_value s > LONG_MAX then Overflow else Parsed (dec_value s))"
    using digit_loop_dec [of 0 s maxlen r] digits len by (simp add: LONG_MAX_def dec_value_from)
  show ?thesis
  proof (cases "hd s = CHR ''0'' \<and> maxlen > 1")
    case False
    with s(1) loop show ?thesis by (cases s) (auto simp: parseLongParse_def)
  next
    case True
    with s have s0: "s = [CHR ''0'']" by auto
    from True have "unat maxlen \<noteq> 1" by (auto simp: word_less_nat_alt)
    with s0 len have "deref r = NUL" by auto
    then have "digit_loop 8 oct_digit 0 r (maxlen - 1) = Parsed 0" "deref r \<noteq> CHR ''x''"
      by (cases r; simp)+
    with True s0 show ?thesis
      by (simp add: parseLongParse_def dec_value_def dec_digit_def in_range_def char_diff_def LONG_MAX_def)
  qed
qed

lemma parseLongDo_digits:
  assumes digits: "\<forall>c\<in>set s. dec_digit c \<noteq> None"
    and s: "s \<noteq> []" "hd s \<noteq> CHR ''0'' \<or> s = [CHR ''0'']"
    and len: "length s \<le> unat maxlen" "deref r = NUL \<or> length s = unat maxlen"
  shows "parseLongDo (s @ r) maxlen signs =
    (if dec_value s > LONG_MAX then Overflow else Parsed (dec_value s))"
proof -
  obtain c cs where cs: "s = c # cs" using s by (cases s) auto
  have m0: "maxlen \<noteq> 0" using len cs by auto
  note ns = digit_not_special [of c]
  have c: "dec_digit c \<noteq> None" using digits cs by simp
  from parseLongParse_digits [OF assms] m0 c ns show ?thesis
    by (simp add: parseLongDo_def Let_def cs in_range_dec map_parse_def split: parse.split)
qed

lemma parseLongDo_minus_digits:
  assumes digits: "\<forall>c\<in>set s. dec_digit c \<noteq> None"
    and s: "s \<noteq> []" "hd s \<noteq> CHR ''0'' \<or> s = [CHR ''0'']"
    and len: "length s < unat maxlen" "deref r = NUL \<or> Suc (length s) = unat maxlen"
  shows "parseLongDo (CHR ''-'' # s @ r) maxlen True =
    (if dec_value s > LONG_MAX then Overflow else Parsed (- dec_value s))"
proof -
  obtain c cs where cs: "s = c # cs" using s by (cases s) auto
  have m0: "maxlen \<noteq> 0" using len by auto
  then have um: "unat (maxlen - 1) = unat maxlen - 1" by (metis unat_minus_one)
  with len cs have m1: "maxlen - 1 \<noteq> 0" by (auto simp: unat_eq_0)
  have c: "dec_digit c \<noteq> None" using digits cs by simp
  have "parseLongParse (s @ r) (maxlen - 1) =
      (if dec_value s > LONG_MAX then Overflow else Parsed (dec_value s))"
    using len um by (intro parseLongParse_digits digits s) auto
  with m0 m1 c show ?thesis
    by (simp add: parseLongDo_def Let_def cs in_range_dec map_parse_def split: parse.split)
qed

lemma dec_digit_digit_char: "d < 10 \<Longrightarrow> dec_digit (digit_char d) = Some (int d)"
  by (simp add: dec_digit_def in_range_def char_diff_def of_char_digit_char of_char_of
      digit_char_def)

lemma show_nat_dec: "\<forall>c\<in>set (show_nat n). dec_digit c \<noteq> None"
  using show_nat_digits [of n] by (auto simp: dec_digit_digit_char)

lemma dec_value_show_nat: "dec_value (show_nat n) = int n"
proof (induction n rule: show_nat.induct)
  case (1 n)
  show ?case
  proof (cases "n < 10")
    case True
    then show ?thesis
      by (simp add: show_nat.simps [of n] dec_value_def dec_digit_digit_char)
  next
    case False
    have "dec_value (show_nat (n div 10)) = int (n div 10)" by (rule "1.IH") (rule False)
    with False show ?thesis
      by (simp add: show_nat.simps [of n] dec_value_def dec_digit_digit_char)
        (simp add: zdiv_int zmod_int)
  qed
qed

lemma show_nat_no_leading_zero: "hd (show_nat n) \<noteq> CHR ''0'' \<or> show_nat n = [CHR ''0'']"
proof (induction n rule: show_nat.induct)
  case (1 n)
  show ?case
  proof (cases "n < 10")
    case True
    then show ?thesis
      by (cases "n = 0") (auto simp: show_nat.simps [of n] show_nat.simps [of 0] digit_char_def char_of_eq_iff take_bit_eq_mod)
  next
    case False
    then have "hd (show_nat (n div 10)) \<noteq> CHR ''0''"
      using "1.IH" dec_value_show_nat [of "n div 10"]
      by (auto simp: dec_value_def dec_digit_def in_range_def char_diff_def)
    with False show ?thesis by (simp add: show_nat.simps [of n])
  qed
qed

text \<open>
  C35. Decimal numbers, from either parser: a number printed with %u is parsed back to its
  value if it fits a signed long, and overflows the accumulator if it does not, whether the
  string ends after the number or maxlen does.
\<close>

theorem parseULong_show_nat:
  assumes "unat maxlen = length (show_nat n) \<or> (length (show_nat n) \<le> unat maxlen \<and> deref r = NUL)"
  shows "parseULong (show_nat n @ r) maxlen =
    (if int n \<le> LONG_MAX then Parsed (word_of_nat n) else Overflow)"
proof -
  have "parseLongDo (show_nat n @ r) maxlen False =
      (if dec_value (show_nat n) > LONG_MAX then Overflow else Parsed (dec_value (show_nat n)))"
    using assms by (intro parseLongDo_digits show_nat_dec show_nat_no_leading_zero) auto
  then show ?thesis
    by (simp add: parseULong_def map_parse_def dec_value_show_nat)
qed

theorem parseULong_show_nat_witness:
  "parseULong ''189:1'' 3 = Parsed 189 \<and> show_nat 189 = ''189''"
proof -
  have s: "show_nat 189 = ''189''" by code_simp
  from parseULong_show_nat [of 3 189 "'':1''"] s show ?thesis by (simp add: LONG_MAX_def)
qed

text \<open>
  C36. Signed numbers printed with %i are parsed back by parseLong, for every value a signed
  64-bit long holds except the smallest, which overflows before it is negated.
\<close>

theorem parseLong_show_int:
  assumes "unat maxlen = length (show_int z) \<or> (length (show_int z) \<le> unat maxlen \<and> deref r = NUL)"
  shows "parseLong (show_int z @ r) maxlen =
    (if \<bar>z\<bar> \<le> LONG_MAX then Parsed z else Overflow)"
proof (cases "z < 0")
  case True
  then have "parseLongDo (CHR ''-'' # show_nat (nat (- z)) @ r) maxlen True =
      (if dec_value (show_nat (nat (- z))) > LONG_MAX then Overflow
       else Parsed (- dec_value (show_nat (nat (- z)))))"
    using assms
    by (intro parseLongDo_minus_digits show_nat_dec show_nat_no_leading_zero) (auto simp: show_int_def)
  with True show ?thesis by (simp add: parseLong_def show_int_def dec_value_show_nat)
next
  case False
  then have "parseLongDo (show_nat (nat z) @ r) maxlen True =
      (if dec_value (show_nat (nat z)) > LONG_MAX then Overflow
       else Parsed (dec_value (show_nat (nat z))))"
    using assms
    by (intro parseLongDo_digits show_nat_dec show_nat_no_leading_zero) (auto simp: show_int_def)
  with False show ?thesis by (simp add: parseLong_def show_int_def dec_value_show_nat)
qed

theorem parseLong_show_int_witness:
  "parseLong ''-42'' SIZE_MAX = Parsed (- 42) \<and> show_int (- 42) = ''-42''"
proof -
  have s: "show_int (- 42) = ''-42''" by code_simp
  have m: "length (show_int (- 42)) \<le> unat SIZE_MAX" by (simp add: s SIZE_MAX_def)
  from parseLong_show_int [of SIZE_MAX "- 42" "[]"] s m show ?thesis by (simp add: LONG_MAX_def)
qed

section \<open>Bounds\<close>

lemma oct_digit_bounds: "oct_digit c = Some d \<Longrightarrow> 0 \<le> d"
  by (auto simp: oct_digit_def in_range_def char_diff_def split: if_splits)

lemma hex_digit_bounds: "hex_digit c = Some d \<Longrightarrow> 0 \<le> d"
  by (auto simp: hex_digit_def in_range_def char_diff_def split: if_splits)

lemma digit_loop_bounds:
  assumes "\<And>c d. dig c = Some d \<Longrightarrow> 0 \<le> d" and "0 \<le> base"
  shows "digit_loop base dig out s maxlen = Parsed v \<Longrightarrow> 0 \<le> out \<Longrightarrow> out \<le> LONG_MAX \<Longrightarrow>
    0 \<le> v \<and> v \<le> LONG_MAX"
proof (induction s arbitrary: out maxlen)
  case Nil
  then show ?case by simp
next
  case (Cons c s)
  show ?case
  proof (cases "c = NUL \<or> maxlen = 0")
    case True
    with Cons.prems show ?thesis by simp
  next
    case False
    with Cons.prems obtain d where d: "dig c = Some d" "base * out + d \<le> LONG_MAX"
      and r: "digit_loop base dig (base * out + d) s (maxlen - 1) = Parsed v"
      by (auto split: option.splits if_splits)
    have "0 \<le> base * out + d" using assms d Cons.prems by simp
    with Cons.IH [OF r] d show ?thesis by simp
  qed
qed

lemma parseLongParse_bounds: "parseLongParse s maxlen = Parsed v \<Longrightarrow> 0 \<le> v \<and> v \<le> LONG_MAX"
  unfolding parseLongParse_def
  by (auto split: if_splits simp: LONG_MAX_def
      dest!: digit_loop_bounds [rotated 2] dest: hex_digit_bounds oct_digit_bounds dec_digit_bounds)

lemma parseLongDo_bounds:
  "parseLongDo s maxlen signs = Parsed v \<Longrightarrow> \<bar>v\<bar> \<le> LONG_MAX \<and> (\<not> signs \<longrightarrow> 0 \<le> v)"
  by (auto simp: parseLongDo_def Let_def map_parse_def
      split: if_splits prod.splits parse.splits dest!: parseLongParse_bounds)

section \<open>How far maxlen reaches\<close>

lemma unat_minus_one': "maxlen \<noteq> 0 \<Longrightarrow> unat (maxlen - 1) = unat (maxlen :: 64 word) - 1"
  by (metis unat_minus_one)

lemma digit_loop_take:
  "digit_loop base dig out s maxlen = digit_loop base dig out (take (unat maxlen) s) maxlen"
proof (induction s arbitrary: out maxlen)
  case Nil
  then show ?case by simp
next
  case (Cons c s)
  show ?case
  proof (cases "maxlen = 0")
    case True
    then show ?thesis by simp
  next
    case False
    then have "unat maxlen = Suc (unat (maxlen - 1))" by (simp add: unat_minus_one' unat_gt_0)
    with False Cons.IH [of _ "maxlen - 1"] show ?thesis
      by (simp split: option.split)
  qed
qed

lemma skip_blank_take:
  assumes "skip_blank s maxlen = (s', m')"
  shows "skip_blank (take (unat maxlen) s) maxlen = (take (unat m') s', m') \<and>
    unat m' \<le> unat maxlen \<and> s' = drop (unat maxlen - unat m') s"
  using assms
proof (induction s arbitrary: maxlen)
  case Nil
  then show ?case by simp
next
  case (Cons c s)
  show ?case
  proof (cases "maxlen \<noteq> 0 \<and> (c = CHR '' '' \<or> c = TAB)")
    case True
    then have u: "unat maxlen = Suc (unat (maxlen - 1))" by (simp add: unat_minus_one' unat_gt_0)
    from True Cons.prems have "skip_blank s (maxlen - 1) = (s', m')" by simp
    from Cons.IH [OF this] True u show ?thesis by (auto simp: Suc_diff_le)
  next
    case False
    with Cons.prems have "s' = c # s" "m' = maxlen" by auto
    with False show ?thesis by (cases "maxlen = 0") (auto simp: unat_gt_0 take_Cons' unat_eq_0)
  qed
qed

lemma deref_take: "0 < n \<Longrightarrow> deref (take n s) = deref s"
  by (cases s; cases n) auto

lemma tl_take': "tl (take n s) = take (n - 1) (tl s)"
  by (cases s; cases n) auto

lemma parseLongParse_take:
  assumes "maxlen \<noteq> 0"
  shows "parseLongParse s maxlen = parseLongParse (take (unat maxlen) s) maxlen"
proof (cases "maxlen > 1")
  case False
  with assms show ?thesis
    using digit_loop_take [of 10 dec_digit 0 s maxlen] by (simp add: parseLongParse_def)
next
  case True
  then have u: "1 < unat maxlen" by (simp add: word_less_nat_alt)
  then have u2: "unat (maxlen - 2) = unat maxlen - 2" "unat (maxlen - 1) = unat maxlen - 1"
    by (simp_all add: unat_sub word_le_nat_alt)
  have d: "deref (take (unat maxlen) s) = deref s"
    "deref (take (unat (maxlen - 1)) (tl s)) = deref (tl s)"
    using u by (simp_all add: deref_take u2)
  have t: "tl (take (unat maxlen) s) = take (unat (maxlen - 1)) (tl s)"
    "tl (take (unat (maxlen - 1)) (tl s)) = take (unat (maxlen - 2)) (tl (tl s))"
    using u by (simp_all add: tl_take' u2 numeral_2_eq_2)
  show ?thesis
    unfolding parseLongParse_def d t
    by (intro if_cong refl) (rule digit_loop_take)+
qed

text \<open>
  C37. Where the character after the first maxlen ones is not a sign, parseLong and parseULong
  look at no more than those maxlen characters. (With a sign there they can read on, see
  parseULong_maxlen_wraps. Every caller in the program passes a maxlen that ends before a colon
  or at the end of the string.)
\<close>

theorem parseLongDo_maxlen:
  assumes "deref (drop (unat maxlen) s) \<noteq> CHR ''+''" and "deref (drop (unat maxlen) s) \<noteq> CHR ''-''"
  shows "parseLongDo s maxlen signs = parseLongDo (take (unat maxlen) s) maxlen signs"
proof (cases "maxlen = 0")
  case True
  then show ?thesis by (simp add: parseLongDo_def)
next
  case False
  then have pos: "0 < unat maxlen" by (simp add: unat_gt_0)
  obtain s1 m1 where sk: "skip_blank s maxlen = (s1, m1)" by fastforce
  note sk' = skip_blank_take [OF sk]
  show ?thesis
  proof (cases "m1 = 0")
    case True
    with sk' assms have "deref s1 \<noteq> CHR ''+''" "deref s1 \<noteq> CHR ''-''" by auto
    with True sk sk' pos show ?thesis
      by (simp add: parseLongDo_def Let_def deref_take)
  next
    case m1: False
    then have p1: "0 < unat m1" by (simp add: unat_gt_0)
    have u1: "unat (m1 - 1) = unat m1 - 1" by (rule unat_minus_one' [OF m1])
    have tl1: "tl (take (unat m1) s1) = take (unat (m1 - 1)) (tl s1)" by (simp add: tl_take' u1)
    have d1: "deref (take (unat m1) s1) = deref s1" by (rule deref_take [OF p1])
    have "m1 - 1 \<noteq> 0 \<Longrightarrow> deref (take (unat (m1 - 1)) (tl s1)) = deref (tl s1)"
      by (rule deref_take) (simp add: unat_gt_0)
    then show ?thesis
      unfolding parseLongDo_def sk sk' [THEN conjunct1] Let_def prod.case d1 tl1
      using parseLongParse_take [OF m1, of s1] parseLongParse_take [of "m1 - 1" "tl s1"] m1 d1
      by (auto simp: deref_take pos)
  qed
qed

theorem parseLongDo_maxlen_witness:
  "parseLongDo ''30:1'' 2 True = parseLongDo ''30'' 2 True \<and> parseLongDo ''30'' 2 True = Parsed 30"
proof -
  have "parseLongDo ''30'' 2 True = Parsed 30" by code_simp
  with parseLongDo_maxlen [of 2 "''30:1''" True] show ?thesis by simp
qed

text \<open>
  Where the first maxlen characters are all blank and a sign follows, the decrement of
  maxlen wraps around and the parser reads on past its bound.
\<close>

theorem parseULong_maxlen_wraps:
  "parseULong ''  +5'' 2 = Parsed 5 \<and> parseULong (take 2 ''  +5'') 2 = Rejected"
  by code_simp

section \<open>Event names\<close>

lemma strncaseeq_cong:
  "n \<le> length a \<Longrightarrow> n \<le> length a' \<Longrightarrow> map to_lower (take n a) = map to_lower (take n a') \<Longrightarrow>
   strncaseeq n a b = strncaseeq n a' b"
proof (induction n arbitrary: a a' b)
  case 0
  then show ?case by simp
next
  case (Suc n)
  then obtain c s c' s' where a: "a = c # s" "a' = c' # s'"
    by (metis Suc_le_length_iff)
  with Suc.prems have c: "to_lower c = to_lower c'" by simp
  have "c = NUL \<longleftrightarrow> c' = NUL"
  proof -
    have "to_lower x = NUL \<longleftrightarrow> x = NUL" for x
      by (auto simp: to_lower_def Let_def char_of_eq_iff take_bit_eq_mod)
    with c show ?thesis by metis
  qed
  moreover have "strncaseeq n s (tl b) = strncaseeq n s' (tl b)"
    using Suc.prems a by (intro Suc.IH) auto
  ultimately show ?case using c by (simp add: a)
qed

text \<open>The part of \<open>String2EV\<close> after the prefix: the first table entry the text abbreviates.\<close>

definition ev_lookup :: "string \<Rightarrow> nat \<Rightarrow> (nat \<times> string) option" where
  "ev_lookup text len = List.find (\<lambda>(num, name). strncaseeq len text name) kEVMap"

lemma ev_lookup_cong:
  assumes "length text = length text'" and "map to_lower text = map to_lower text'"
  shows "ev_lookup (text @ r) (length text) = ev_lookup text' (length text')"
proof -
  have "strncaseeq (length text) (text @ r) name = strncaseeq (length text') text' name" for name
    using assms strncaseeq_cong [of "length text" "text @ r" text' name] by simp
  then show ?thesis by (simp add: ev_lookup_def)
qed

lemma ev_lookup_String2EV:
  "\<not> (len > 3 \<and> strncaseeq 3 text ''EV_'') \<Longrightarrow> ev_lookup text len = Some (num, name) \<Longrightarrow>
   String2EV text len = Parsed (word_of_nat num)"
  "len > 3 \<Longrightarrow> strncaseeq 3 text ''EV_'' \<Longrightarrow>
   ev_lookup (drop 3 text) (len - 3) = Some (num, name) \<Longrightarrow>
   String2EV text len = Parsed (word_of_nat num)"
  by (auto simp: String2EV_def ev_lookup_def Let_def)

lemma kEVMap_lookup:
  "(num, name) \<in> set kEVMap \<Longrightarrow>
   ev_lookup name (length name) = Some (num, name) \<and> \<not> strncaseeq 3 name ''EV_'' \<and> 2 \<le> length name"
proof -
  have "list_all (\<lambda>(num, name). ev_lookup name (length name) = Some (num, name) \<and>
      \<not> strncaseeq 3 name ''EV_'' \<and> 2 \<le> length name) kEVMap"
    by code_simp
  then show "(num, name) \<in> set kEVMap \<Longrightarrow> ?thesis" by (auto simp: list_all_iff)
qed

text \<open>
  C38. Every event type name of the table is accepted in any case, with or without the EV_
  prefix and whatever follows it, and gives the type's number.
\<close>

theorem String2EV_names:
  assumes "(num, name) \<in> set kEVMap" and "pre = [] \<or> pre = ''EV_''"
    and "map to_lower text = map to_lower (pre @ name)"
  shows "String2EV (text @ r) (length text) = Parsed (word_of_nat num)"
proof -
  note k = kEVMap_lookup [OF assms(1)]
  have len: "length text = length pre + length name" using assms(3) by (metis length_append length_map)
  define t where "t = drop (length pre) text"
  have t: "length t = length name" "map to_lower t = map to_lower name"
    using assms(3) len by (simp_all add: t_def flip: drop_map)
  with k ev_lookup_cong [OF t] have look: "ev_lookup (t @ r) (length t) = Some (num, name)" by simp
  show ?thesis
  proof (cases "pre = []")
    case True
    then have "strncaseeq 3 (text @ r) ''EV_'' = strncaseeq 3 name ''EV_''" if "length text > 3"
      using that t by (intro strncaseeq_cong) (auto simp: t_def simp flip: take_map)
    with True k look show ?thesis by (intro ev_lookup_String2EV(1)) (auto simp: t_def)
  next
    case False
    with assms(2) have pre: "pre = ''EV_''" by simp
    have "strncaseeq 3 (text @ r) ''EV_'' = strncaseeq 3 ''EV_'' ''EV_''"
      using assms(3) len pre by (intro strncaseeq_cong) (auto simp flip: take_map)
    moreover have "strncaseeq 3 ''EV_'' ''EV_''" by code_simp
    ultimately show ?thesis
      using look k len pre
      by (intro ev_lookup_String2EV(2) [where name = name]) (auto simp: t_def numeral_3_eq_3)
  qed
qed

theorem String2EV_names_witness:
  "(1, ''KEY'') \<in> set kEVMap \<and> String2EV ''ev_Key:189:1'' 6 = Parsed 1"
proof -
  have k: "(1, ''KEY'') \<in> set kEVMap" by (simp add: kEVMap_def)
  have "map to_lower ''ev_Key'' = map to_lower (''EV_'' @ ''KEY'')" by code_simp
  from String2EV_names [OF k _ this, of "'':189:1''"] k show ?thesis
    by (simp add: eval_nat_numeral)
qed

text \<open>
  EV2String is the inverse of the table only for the types 0 to 5: the event types
  from EV_LED on are not contiguous, so their own names are never printed, and the names
  of the table's last six entries are printed for the unused types 6 to 11.
\<close>

theorem EV2String_table:
  "filter (\<lambda>t. (t, EV2String t) \<in> set kEVMap) [0..<EV_CNT] = [0..<6] \<and>
   map EV2String [EV_LED, EV_SND, EV_REP, EV_FF, EV_PWR, EV_FF_STATUS] =
     replicate 6 ''<Unknown>'' \<and>
   map EV2String [6..<12] = [''LED'', ''SND'', ''REP'', ''FF'', ''PWR'', ''FF_STATUS'']"
  by code_simp

end
