(* ===== verification/Proto.thy ===== *)
theory Proto
  imports World CString
begin

text \<open>
  The netevent 2 wire format of \<^verbatim>\<open>main.h\<close> and the hello handshake of
  \<^verbatim>\<open>main.cpp\<close>.

  \<open>NE2Packet\<close> is a packed union that is sent as it lies in memory, so a packet is the
  list of its 28 bytes and its fields are read and written at their offsets in the host's
  byte order; \<open>htobe16\<close> and the like are applied by the code where it applies them.
\<close>

section \<open>Codecs of fixed width\<close>

locale fixed_codec =
  fixes enc :: "'a \<Rightarrow> byte list"
    and dec :: "byte list \<Rightarrow> 'a"
    and width :: nat
  assumes length_enc: "length (enc x) = width"
    and dec_enc: "dec (enc x) = x"
begin

lemma enc_inject: "enc x = enc y \<longleftrightarrow> x = y"
  by (metis dec_enc)

lemma take_enc: "take width (enc x @ r) = enc x"
  by (simp add: length_enc)

lemma drop_enc: "drop width (enc x @ r) = r"
  by (simp add: length_enc)

lemma length_concat_enc: "length (concat (map enc xs)) = width * length xs"
  by (induction xs) (simp_all add: length_enc)

lemma prefix_free: "enc x @ r = enc y @ r' \<longleftrightarrow> x = y \<and> r = r'"
  by (metis append_eq_append_conv enc_inject length_enc)

lemma concat_inject:
  "length xs = length ys \<Longrightarrow> concat (map enc xs) @ r = concat (map enc ys) @ r' \<longleftrightarrow> xs = ys \<and> r = r'"
  by (induction xs ys rule: list_induct2) (auto simp: prefix_free)

end

text \<open>
  A big-endian field, as one host writes it (\<open>htobe\<close>, then its memory) and another,
  possibly of the other byte order, reads it.
\<close>

definition put_be :: "endian \<Rightarrow> nat \<Rightarrow> 'a::len word \<Rightarrow> byte list" where
  "put_be e n w = mem_of e n (hton e n w)"

definition get_be :: "endian \<Rightarrow> nat \<Rightarrow> byte list \<Rightarrow> 'a::len word" where
  "get_be e n bs = hton e n (of_mem e bs)"

lemma length_put_be [simp]: "length (put_be e n w) = n"
  by (simp add: put_be_def)

lemma put_be_bytes: "8 * n = LENGTH('a) \<Longrightarrow> put_be e n (w :: 'a::len word) = be_bytes n w"
  by (simp add: put_be_def mem_of_hton)

lemma get_put_be [codec_simps]:
  "8 * n = LENGTH('a) \<Longrightarrow> get_be e' n (put_be e n (w :: 'a::len word)) = w"
  by (simp add: put_be_bytes get_be_def hton_of_mem_be)

interpretation be16: fixed_codec "put_be e 2 :: 16 word \<Rightarrow> byte list" "get_be e' 2" 2 for e e'
  by unfold_locales (simp_all add: get_put_be)

interpretation be32: fixed_codec "put_be e 4 :: 32 word \<Rightarrow> byte list" "get_be e' 4" 4 for e e'
  by unfold_locales (simp_all add: get_put_be)

interpretation be64: fixed_codec "put_be e 8 :: 64 word \<Rightarrow> byte list" "get_be e' 8" 8 for e e'
  by unfold_locales (simp_all add: get_put_be)

interpretation host16: fixed_codec "mem_of e 2 :: 16 word \<Rightarrow> byte list" "of_mem e" 2 for e
  by unfold_locales (simp_all add: of_mem_mem_of)

section \<open>Input events\<close>

record InputEvent =
  tv_sec :: "64 word"
  tv_usec :: "32 word"
  ev_type :: "16 word"
  ev_code :: "16 word"
  ev_value :: "32 word"
  padding :: "32 word"

definition InputEvent_size :: nat where
  "InputEvent_size = 24"

definition event_mem :: "endian \<Rightarrow> InputEvent \<Rightarrow> byte list" where
  "event_mem e ev =
     mem_of e 8 (tv_sec ev) @ mem_of e 4 (tv_usec ev) @ mem_of e 2 (ev_type ev) @
     mem_of e 2 (ev_code ev) @ mem_of e 4 (ev_value ev) @ mem_of e 4 (padding ev)"

definition event_of_mem :: "endian \<Rightarrow> byte list \<Rightarrow> InputEvent" where
  "event_of_mem e bs =
     \<lparr>tv_sec = of_mem e (take 8 bs),
      tv_usec = of_mem e (take 4 (drop 8 bs)),
      ev_type = of_mem e (take 2 (drop 12 bs)),
      ev_code = of_mem e (take 2 (drop 14 bs)),
      ev_value = of_mem e (take 4 (drop 16 bs)),
      padding = of_mem e (take 4 (drop 20 bs))\<rparr>"

definition toHost :: "endian \<Rightarrow> InputEvent \<Rightarrow> InputEvent" where
  "toHost e ev = ev\<lparr>tv_sec := hton e 8 (tv_sec ev), tv_usec := hton e 4 (tv_usec ev),
     ev_type := hton e 2 (ev_type ev), ev_code := hton e 2 (ev_code ev),
     ev_value := hton e 4 (ev_value ev)\<rparr>"

definition toNet :: "endian \<Rightarrow> InputEvent \<Rightarrow> InputEvent" where
  "toNet e ev = ev\<lparr>tv_sec := hton e 8 (tv_sec ev), tv_usec := hton e 4 (tv_usec ev),
     ev_type := hton e 2 (ev_type ev), ev_code := hton e 2 (ev_code ev),
     ev_value := hton e 4 (ev_value ev)\<rparr>"

lemma length_event_mem [simp]: "length (event_mem e ev) = 24"
  by (simp add: event_mem_def)

lemma event_of_mem_mem [codec_simps]: "event_of_mem e (event_mem e ev) = ev"
  by (simp add: event_of_mem_def event_mem_def of_mem_mem_of)

interpretation host_event: fixed_codec "event_mem e" "event_of_mem e" 24 for e
  by unfold_locales (simp_all add: event_of_mem_mem)

lemma toHost_toNet [simp]: "toHost e (toNet e ev) = ev"
  by (simp add: toHost_def toNet_def)

section \<open>Packets\<close>

definition NE2Packet_size :: nat where
  "NE2Packet_size = 28"

definition zero_packet :: "byte list" where
  "zero_packet = replicate NE2Packet_size 0"

definition put :: "nat \<Rightarrow> byte list \<Rightarrow> byte list \<Rightarrow> byte list" where
  "put off bs p = take off p @ bs @ drop (off + length bs) p"

definition field :: "nat \<Rightarrow> nat \<Rightarrow> byte list \<Rightarrow> byte list" where
  "field off n p = take n (drop off p)"

definition cmd_KeepAlive :: "16 word" where "cmd_KeepAlive = 0"
definition cmd_AddDevice :: "16 word" where "cmd_AddDevice = 1"
definition cmd_RemoveDevice :: "16 word" where "cmd_RemoveDevice = 2"
definition cmd_DeviceEvent :: "16 word" where "cmd_DeviceEvent = 3"
definition cmd_Hello :: "16 word" where "cmd_Hello = 4"

text \<open>The union's members at their offsets, in host byte order.\<close>

definition pkt_cmd :: "endian \<Rightarrow> byte list \<Rightarrow> 16 word" where
  "pkt_cmd e p = of_mem e (field 0 2 p)"

definition pkt_id :: "endian \<Rightarrow> byte list \<Rightarrow> 16 word" where
  "pkt_id e p = of_mem e (field 2 2 p)"

definition add_info_size :: "endian \<Rightarrow> byte list \<Rightarrow> 16 word" where
  "add_info_size e p = of_mem e (field 4 2 p)"

definition add_name_size :: "endian \<Rightarrow> byte list \<Rightarrow> 16 word" where
  "add_name_size e p = of_mem e (field 6 2 p)"

definition hello_version :: "endian \<Rightarrow> byte list \<Rightarrow> 16 word" where
  "hello_version e p = of_mem e (field 2 2 p)"

definition hello_magic :: "byte list \<Rightarrow> byte list" where
  "hello_magic p = field 4 8 p"

definition pkt_event :: "endian \<Rightarrow> byte list \<Rightarrow> InputEvent" where
  "pkt_event e p = event_of_mem e (field 4 24 p)"

definition set16 :: "endian \<Rightarrow> nat \<Rightarrow> 16 word \<Rightarrow> byte list \<Rightarrow> byte list" where
  "set16 e off w p = put off (mem_of e 2 w) p"

text \<open>\<open>pkt.field = be16toh (pkt.field)\<close>, for the 16-bit field at an offset.\<close>

definition swap16 :: "endian \<Rightarrow> nat \<Rightarrow> byte list \<Rightarrow> byte list" where
  "swap16 e off p = set16 e off (hton e 2 (of_mem e (field off 2 p))) p"

text \<open>
  The conversions \<open>cmd_create\<close> applies to a packet it has read: the command of every
  packet, and the other fields of an announcement.
\<close>

definition cmd_to_host :: "endian \<Rightarrow> byte list \<Rightarrow> byte list" where
  "cmd_to_host e p = swap16 e 0 p"

definition add_to_host :: "endian \<Rightarrow> byte list \<Rightarrow> byte list" where
  "add_to_host e p = swap16 e 6 (swap16 e 4 (swap16 e 2 p))"

lemma length_put: "off + length bs \<le> length p \<Longrightarrow> length (put off bs p) = length p"
  by (simp add: put_def)

lemma field_put_same: "off + length bs \<le> length p \<Longrightarrow> field off (length bs) (put off bs p) = bs"
  by (simp add: field_def put_def)

lemma field_put_before: "off + n \<le> off' \<Longrightarrow> off' \<le> length p \<Longrightarrow> field off n (put off' bs p) = field off n p"
  by (simp add: field_def put_def take_drop min_def)

lemma field_put_after:
  "off' + length bs \<le> off \<Longrightarrow> off' \<le> length p \<Longrightarrow> field off n (put off' bs p) = field off n p"
  by (simp add: field_def put_def)

lemma length_zero_packet [simp]: "length zero_packet = 28"
  by (simp add: zero_packet_def NE2Packet_size_def)

lemma length_swap16 [simp]: "off + 2 \<le> length p \<Longrightarrow> length (swap16 e off p) = length p"
  by (simp add: swap16_def set16_def length_put)

lemma field_swap16_same:
  "off + 2 \<le> length p \<Longrightarrow> field off 2 (swap16 e off p) = mem_of e 2 (get_be e 2 (field off 2 p) :: 16 word)"
  using field_put_same [of off "mem_of e 2 (hton e 2 (of_mem e (field off 2 p) :: 16 word))" p]
  by (simp add: swap16_def set16_def get_be_def)

lemma field_swap16_other:
  "off + 2 \<le> length p \<Longrightarrow> off' + n \<le> off \<or> off + 2 \<le> off' \<Longrightarrow>
   field off' n (swap16 e off p) = field off' n p"
  by (auto simp: swap16_def set16_def field_put_before field_put_after)

text \<open>Converting a packet to host order makes its fields the big-endian values it carries.\<close>

lemma host_fields [codec_simps]:
  assumes "length p = 28"
  shows "pkt_cmd e (cmd_to_host e p) = get_be e 2 (field 0 2 p)"
    "pkt_cmd e (add_to_host e (cmd_to_host e p)) = get_be e 2 (field 0 2 p)"
    "pkt_id e (add_to_host e (cmd_to_host e p)) = get_be e 2 (field 2 2 p)"
    "add_info_size e (add_to_host e (cmd_to_host e p)) = get_be e 2 (field 4 2 p)"
    "add_name_size e (add_to_host e (cmd_to_host e p)) = get_be e 2 (field 6 2 p)"
    "pkt_id e (cmd_to_host e p) = of_mem e (field 2 2 p)"
    "field 4 24 (cmd_to_host e p) = field 4 24 p"
  using assms
  by (simp_all add: pkt_cmd_def pkt_id_def add_info_size_def add_name_size_def cmd_to_host_def
      add_to_host_def field_swap16_same field_swap16_other of_mem_mem_of)

section \<open>Hello\<close>

definition kNE2Hello :: "byte list" where
  "kNE2Hello = str_bytes ''NE2Hello''"

definition kNE2Version :: "16 word" where
  "kNE2Version = 2"

definition hello_packet :: "endian \<Rightarrow> byte list" where
  "hello_packet e =
     (let pkt = zero_packet;
          pkt = set16 e 0 (hton e 2 cmd_Hello) pkt;
          pkt = put 4 kNE2Hello pkt
      in set16 e 2 (hton e 2 kNE2Version) pkt)"

definition writeHello :: "os \<Rightarrow> endian \<Rightarrow> int \<Rightarrow> ('a world_scheme, unit) prog" where
  "writeHello os e fd =
     bindP (mustWrite os fd (hello_packet e)) (\<lambda>r. case r of
       None \<Rightarrow> ret ()
     | Some err \<Rightarrow> throw_errno (os_strerror os) ''failed to write hello packet'' err)"

text \<open>\<open>checkHello\<close> on a packet whose \<open>cmd\<close> is already in host order.\<close>

definition checkHello :: "endian \<Rightarrow> byte list \<Rightarrow> exn option" where
  "checkHello e pkt =
     (if pkt_cmd e pkt \<noteq> cmd_Hello
      then Some (MsgException_new (''protocol error: got '' @ show_nat (unat (pkt_cmd e pkt)) @
             '' instead of '' @ show_nat (unat cmd_Hello) @ '' (Hello)'' @ [NL]))
      else if hello_magic pkt \<noteq> kNE2Hello
      then Some (MsgException_new ''protocol error: bad hello packet magic'')
      else if hton e 2 (hello_version e pkt) \<noteq> kNE2Version
      then Some (MsgException_new (''protocol version mismatch: got '' @
             show_nat (unat (hton e 2 (hello_version e pkt))) @ '', expected '' @
             show_nat (unat kNE2Version) @ [NL]))
      else None)"

definition readHello :: "os \<Rightarrow> endian \<Rightarrow> ('a rworld_scheme, unit) prog" where
  "readHello os e =
     bindP (mustRead NE2Packet_size) (\<lambda>r. case r of
       Inl err \<Rightarrow> throw_errno (os_strerror os) ''error while expecting hello packet'' err
     | Inr pkt \<Rightarrow>
         (case checkHello e (cmd_to_host e pkt) of
            None \<Rightarrow> ret ()
          | Some ex \<Rightarrow> raise ex))"

lemma take_drop_split: "take (m + n) xs = take m xs @ take n (drop m xs)"
  by (rule take_add)

lemma hello_packet_fields [codec_simps]:
  "length (hello_packet e) = 28"
  "field 0 2 (hello_packet e) = be_bytes 2 cmd_Hello"
  "field 2 2 (hello_packet e) = be_bytes 2 kNE2Version"
  "field 4 8 (hello_packet e) = kNE2Hello"
  by (simp_all add: hello_packet_def set16_def Let_def kNE2Hello_def put_def field_def
      mem_of_hton)

lemma get_be_iff:
  assumes "8 * n = LENGTH('a)" and "length bs = n"
  shows "get_be e n bs = (w :: 'a::len word) \<longleftrightarrow> bs = be_bytes n w"
proof
  assume "bs = be_bytes n w"
  then show "get_be e n bs = w" using assms by (simp add: get_be_def hton_of_mem_be)
next
  assume w: "get_be e n bs = w"
  let ?w = "unword_le (rev bs) :: 'a word"
  have "word_le n ?w = rev bs" using word_unword_le [of "rev bs", where 'a = 'a] assms by simp
  then have "bs = be_bytes n ?w" by (simp add: be_bytes_def)
  moreover have "get_be e n (be_bytes n ?w) = ?w"
    using assms by (simp add: get_be_def hton_of_mem_be)
  ultimately show "bs = be_bytes n w" using w by metis
qed

lemma hello_fields_swapped:
  "length p = 28 \<Longrightarrow> hello_magic (cmd_to_host e p) = field 4 8 p"
  "length p = 28 \<Longrightarrow> hton e 2 (hello_version e (cmd_to_host e p)) = get_be e 2 (field 2 2 p)"
  by (simp_all add: hello_magic_def hello_version_def cmd_to_host_def field_swap16_other get_be_def)

lemma checkHello_swapped:
  assumes "length p = 28"
  shows "checkHello e (cmd_to_host e p) = None \<longleftrightarrow>
    take 12 p = be_bytes 2 cmd_Hello @ be_bytes 2 kNE2Version @ kNE2Hello"
proof -
  have len: "length (field 0 2 p) = 2" "length (field 2 2 p) = 2" "length (field 4 8 p) = 8"
    using assms by (simp_all add: field_def)
  have "take 12 p = field 0 2 p @ field 2 2 p @ field 4 8 p"
    using take_drop_split [of 2 10 p] take_drop_split [of 2 8 "drop 2 p"] by (simp add: field_def)
  then have "take 12 p = be_bytes 2 cmd_Hello @ be_bytes 2 kNE2Version @ kNE2Hello \<longleftrightarrow>
      field 0 2 p = be_bytes 2 cmd_Hello \<and> field 2 2 p = be_bytes 2 kNE2Version \<and>
      field 4 8 p = kNE2Hello"
    using len by simp
  then show ?thesis
    using len assms
    by (auto simp: checkHello_def host_fields hello_fields_swapped get_be_iff)
qed

lemma readHello_Ret:
  "(fst (readHello os e s) = Ret ()) =
   (28 \<le> length (rdata s) \<and>
    take 12 (rdata s) = be_bytes 2 cmd_Hello @ be_bytes 2 kNE2Version @ kNE2Hello)"
proof (cases "28 \<le> length (rdata s)")
  case True
  then have "length (take 28 (rdata s)) = 28" by simp
  from checkHello_swapped [OF this, of e] True show ?thesis
    by (auto simp: readHello_def run_simps NE2Packet_size_def min_def split: option.split)
next
  case False
  then show ?thesis
    by (auto simp: readHello_def run_simps NE2Packet_size_def throw_errno_def split: option.split)
qed

text \<open>
  C30. The handshake accepts exactly the streams that start with a whole packet holding the
  hello command, the protocol version and the magic, all big-endian, on a host of either
  byte order; the packet's remaining 16 bytes are ignored.
\<close>

theorem readHello_accepts:
  "(fst (readHello os e s) = Ret ()) =
   (28 \<le> length (rdata s) \<and>
    take 12 (rdata s) = be_bytes 2 cmd_Hello @ be_bytes 2 kNE2Version @ kNE2Hello)"
  by (rule readHello_Ret)

text \<open>What the program's own hello looks like on the wire.\<close>

lemma hello_packet_bytes:
  "take 12 (hello_packet e) = be_bytes 2 cmd_Hello @ be_bytes 2 kNE2Version @ kNE2Hello"
  using take_drop_split [of 2 10 "hello_packet e"]
    take_drop_split [of 2 8 "drop 2 (hello_packet e)"] hello_packet_fields [of e]
  by (simp add: field_def)

text \<open>
  C29. Two instances understand each other's hello whatever their byte orders: if the
  sender's write succeeds, the bytes it put on the descriptor are accepted by the receiver's
  readHello, which leaves exactly what follows them.
\<close>

theorem hello_handshake:
  assumes "fst (writeHello os e fd s) = Ret ()"
  shows "\<exists>bytes. wrote fd (history (snd (writeHello os e fd s))) = wrote fd (history s) @ bytes \<and>
    readHello os' e' \<lparr>history = h, rdata = bytes @ rest, rend = err\<rparr> =
      (Ret (), \<lparr>history = h, rdata = rest, rend = err\<rparr>)"
proof -
  let ?s = "\<lparr>history = h, rdata = hello_packet e @ rest, rend = err\<rparr>"
  from assms have "os_call os (history s) (Write fd (hello_packet e)) = None"
    by (auto simp: writeHello_def mustWrite_def run_simps throw_errno_def split: option.splits)
  then have "wrote fd (history (snd (writeHello os e fd s))) = wrote fd (history s) @ hello_packet e"
    by (simp add: writeHello_def mustWrite_def run_simps)
  moreover have "fst (readHello os' e' ?s) = Ret ()"
    by (simp add: readHello_Ret hello_packet_fields hello_packet_bytes)
  moreover have "snd (readHello os' e' ?s) = \<lparr>history = h, rdata = rest, rend = err\<rparr>"
    by (simp add: readHello_def run_simps NE2Packet_size_def hello_packet_fields split: option.split)
  ultimately show ?thesis by (metis prod.collapse)
qed

theorem hello_handshake_witness:
  "fst (writeHello quiet_os Little 5 \<lparr>history = []\<rparr>) = Ret () \<and>
   (\<exists>bytes. wrote 5 (history (snd (writeHello quiet_os Little 5 \<lparr>history = []\<rparr>))) = bytes \<and>
     readHello quiet_os Big \<lparr>history = [], rdata = bytes @ [7], rend = 0\<rparr> =
       (Ret (), \<lparr>history = [], rdata = [7], rend = 0\<rparr>))"
proof -
  have h: "fst (writeHello quiet_os Little 5 \<lparr>history = []\<rparr>) = Ret ()"
    by (simp add: writeHello_def mustWrite_def run_simps quiet_os_def)
  from hello_handshake [OF h, of quiet_os Big "[]" "[7]" 0] h show ?thesis by simp
qed

section \<open>Event packets\<close>

text \<open>
  How \<open>cmd_cat\<close> and \<open>readFromDevice\<close> turn an event into a packet: the zeroed packet gets
  the command, the device id and the event in network order.
\<close>

definition event_packet :: "endian \<Rightarrow> 16 word \<Rightarrow> InputEvent \<Rightarrow> byte list" where
  "event_packet e dev ev =
     (let pkt = zero_packet;
          pkt = set16 e 0 (hton e 2 cmd_DeviceEvent) pkt;
          pkt = set16 e 2 (hton e 2 dev) pkt
      in put 4 (event_mem e (toNet e ev)) pkt)"

lemma event_packet_append:
  "event_packet e dev ev =
     be_bytes 2 cmd_DeviceEvent @ be_bytes 2 dev @ event_mem e (toNet e ev)"
  by (simp add: event_packet_def set16_def Let_def put_def mem_of_hton zero_packet_def
      NE2Packet_size_def)

lemma event_packet_fields [codec_simps]:
  "length (event_packet e dev ev) = 28"
  "field 0 2 (event_packet e dev ev) = be_bytes 2 cmd_DeviceEvent"
  "field 2 2 (event_packet e dev ev) = be_bytes 2 dev"
  "field 4 24 (event_packet e dev ev) = event_mem e (toNet e ev)"
  by (simp_all add: event_packet_append field_def)

lemma event_net_host:
  "toHost e' (event_of_mem e' (event_mem e (toNet e ev))) =
     ev\<lparr>padding := of_mem e' (mem_of e 4 (padding ev))\<rparr>"
  by (simp add: toHost_def toNet_def event_of_mem_def event_mem_def mem_of_hton hton_of_mem_be)

end
