(* ===== verification/Tables.thy ===== *)
theory Tables
  imports Proto Bitfield NumParse
begin

text \<open>
  The tables \<open>main\<close> fills in (\<open>kUISetBitIOC\<close>, \<open>kBitLength\<close>) and the sizes that depend
  on the kernel headers the program was compiled with. Those headers are not part of the
  program: the record \<open>uapi\<close> holds the counts they define (\<open>KEY_CNT\<close>, ...), so that
  sender and receiver may have been compiled against different ones.
\<close>

record uapi =
  KEY_CNT :: nat
  REL_CNT :: nat
  ABS_CNT :: nat
  MSC_CNT :: nat
  LED_CNT :: nat
  SND_CNT :: nat
  FF_CNT :: nat
  SW_CNT :: nat

definition LONG_BITS :: nat where
  "LONG_BITS = 64"

definition NLONGS :: "nat \<Rightarrow> nat" where
  "NLONGS x = (x + LONG_BITS - 1) div LONG_BITS"

text \<open>
  \<open>kUISetBitIOC[ev]\<close>: the request that enables a code of the event type, \<open>None\<close> for 0.
  The requests differ by event type only, so the type stands for the request.
\<close>

definition kUISetBitIOC :: "nat \<Rightarrow> nat option" where
  "kUISetBitIOC ev =
     (if List.member [EV_KEY, EV_REL, EV_ABS, EV_MSC, EV_LED, EV_SND, EV_FF, EV_SW] ev
      then Some ev else None)"

definition kBitLength :: "uapi \<Rightarrow> nat \<Rightarrow> nat" where
  "kBitLength u ev =
     (if ev = EV_KEY then NLONGS (KEY_CNT u)
      else if ev = EV_REL then NLONGS (REL_CNT u)
      else if ev = EV_ABS then NLONGS (ABS_CNT u)
      else if ev = EV_MSC then NLONGS (MSC_CNT u)
      else if ev = EV_LED then NLONGS (LED_CNT u)
      else if ev = EV_SND then NLONGS (SND_CNT u)
      else if ev = EV_FF then NLONGS (FF_CNT u)
      else if ev = EV_SW then NLONGS (SW_CNT u)
      else 0)"

definition name_size :: nat where
  "name_size = 80"

text \<open>\<open>sizeof (struct uinput_user_dev)\<close>: name, id, \<open>ff_effects_max\<close> and four arrays.\<close>

definition user_dev_size :: "uapi \<Rightarrow> nat" where
  "user_dev_size u = name_size + 8 + 4 + 4 * (4 * ABS_CNT u)"

text \<open>The bits of an event type that are sent: whole longs.\<close>

definition entry_count :: "uapi \<Rightarrow> nat \<Rightarrow> nat" where
  "entry_count u ev = kBitLength u ev * LONG_BITS"

text \<open>
  What the code takes for granted of the headers: every bit field fits a 16-bit count, and
  the size of \<open>struct uinput_user_dev\<close> fits the 16 bits it is announced in.
\<close>

definition uapi_ok :: "uapi \<Rightarrow> bool" where
  "uapi_ok u \<longleftrightarrow> (\<forall>ev\<in>set [EV_KEY, EV_REL, EV_ABS, EV_MSC, EV_LED, EV_SND, EV_FF, EV_SW].
     entry_count u ev < 65536) \<and> user_dev_size u < 65536"

lemma user_dev_size_16: "uapi_ok u \<Longrightarrow> user_dev_size u < 65536"
  by (simp add: uapi_ok_def)

lemma entry_count_16: "uapi_ok u \<Longrightarrow> entry_count u ev < 65536"
  by (auto simp: uapi_ok_def entry_count_def kBitLength_def)

definition linux_uapi :: uapi where
  "linux_uapi = \<lparr>KEY_CNT = 768, REL_CNT = 16, ABS_CNT = 64, MSC_CNT = 8, LED_CNT = 16,
     SND_CNT = 8, FF_CNT = 128, SW_CNT = 17\<rparr>"

lemma linux_uapi_ok: "uapi_ok linux_uapi"
  by (simp add: uapi_ok_def entry_count_def kBitLength_def NLONGS_def LONG_BITS_def linux_uapi_def
      user_dev_size_def name_size_def)

section \<open>Kernel structures in memory\<close>

definition id_mem :: "endian \<Rightarrow> input_id \<Rightarrow> byte list" where
  "id_mem e i = mem_of e 2 (bustype i) @ mem_of e 2 (vendor i) @ mem_of e 2 (product i) @
     mem_of e 2 (version i)"

definition id_of_mem :: "endian \<Rightarrow> byte list \<Rightarrow> input_id" where
  "id_of_mem e bs = \<lparr>bustype = of_mem e (field 0 2 bs), vendor = of_mem e (field 2 2 bs),
     product = of_mem e (field 4 2 bs), version = of_mem e (field 6 2 bs)\<rparr>"

text \<open>The identifier in network order, as the packets carry it.\<close>

definition id_net :: "endian \<Rightarrow> input_id \<Rightarrow> byte list" where
  "id_net e i = put_be e 2 (bustype i) @ put_be e 2 (vendor i) @ put_be e 2 (product i) @
     put_be e 2 (version i)"

definition id_of_net :: "endian \<Rightarrow> byte list \<Rightarrow> input_id" where
  "id_of_net e bs = \<lparr>bustype = get_be e 2 (field 0 2 bs), vendor = get_be e 2 (field 2 2 bs),
     product = get_be e 2 (field 4 2 bs), version = get_be e 2 (field 6 2 bs)\<rparr>"

definition absinfo_mem :: "endian \<Rightarrow> absinfo \<Rightarrow> byte list" where
  "absinfo_mem e a = mem_of e 4 (ai_value a) @ mem_of e 4 (ai_minimum a) @
     mem_of e 4 (ai_maximum a) @ mem_of e 4 (ai_fuzz a) @ mem_of e 4 (ai_flat a) @
     mem_of e 4 (ai_resolution a)"

definition absinfo_of_mem :: "endian \<Rightarrow> byte list \<Rightarrow> absinfo" where
  "absinfo_of_mem e bs = \<lparr>ai_value = of_mem e (field 0 4 bs), ai_minimum = of_mem e (field 4 4 bs),
     ai_maximum = of_mem e (field 8 4 bs), ai_fuzz = of_mem e (field 12 4 bs),
     ai_flat = of_mem e (field 16 4 bs), ai_resolution = of_mem e (field 20 4 bs)\<rparr>"

definition absinfo_net :: "endian \<Rightarrow> absinfo \<Rightarrow> byte list" where
  "absinfo_net e a = put_be e 4 (ai_value a) @ put_be e 4 (ai_minimum a) @
     put_be e 4 (ai_maximum a) @ put_be e 4 (ai_fuzz a) @ put_be e 4 (ai_flat a) @
     put_be e 4 (ai_resolution a)"

definition absinfo_of_net :: "endian \<Rightarrow> byte list \<Rightarrow> absinfo" where
  "absinfo_of_net e bs = \<lparr>ai_value = get_be e 4 (field 0 4 bs), ai_minimum = get_be e 4 (field 4 4 bs),
     ai_maximum = get_be e 4 (field 8 4 bs), ai_fuzz = get_be e 4 (field 12 4 bs),
     ai_flat = get_be e 4 (field 16 4 bs), ai_resolution = get_be e 4 (field 20 4 bs)\<rparr>"

definition absinfo_size :: nat where
  "absinfo_size = 24"

interpretation host_id: fixed_codec "id_mem e" "id_of_mem e" 8 for e
  by unfold_locales (simp_all add: id_mem_def id_of_mem_def field_def of_mem_mem_of)

interpretation net_id: fixed_codec "id_net e" "id_of_net e'" 8 for e e'
  by unfold_locales (simp_all add: id_net_def id_of_net_def field_def get_put_be)

interpretation host_absinfo: fixed_codec "absinfo_mem e" "absinfo_of_mem e" 24 for e
  by unfold_locales (simp_all add: absinfo_mem_def absinfo_of_mem_def field_def of_mem_mem_of)

interpretation net_absinfo: fixed_codec "absinfo_net e" "absinfo_of_net e'" 24 for e e'
  by unfold_locales (simp_all add: absinfo_net_def absinfo_of_net_def field_def get_put_be)

end
