(* ===== verification/Reader.thy ===== *)
theory Reader
  imports Tables
begin

text \<open>
  \<^verbatim>\<open>reader.cpp\<close>: \<open>InDevice\<close>, an event device the program reads from, and the two
  device announcements it sends (\<open>writeNeteventHeader\<close> for netevent 1,
  \<open>writeNE2AddDevice\<close> for netevent 2).

  A method that changes the object returns the changed record. The \<open>ioctl\<close> queries go
  to the \<open>os\<close>; their answers are the bytes the kernel copies into the buffer.
\<close>

record InDevice =
  in_fd :: int
  eof :: bool
  grabbing :: bool
  persistent :: bool
  dev_name :: "byte list"
  dev_id :: input_id
  real_name :: string
  evbits :: Bits

text \<open>An \<open>ioctl\<close> that copies \<open>got\<close> to the start of a buffer.\<close>

definition overlay :: "byte list \<Rightarrow> byte list \<Rightarrow> byte list" where
  "overlay buf got = take (length buf) got @ drop (length got) buf"

lemma length_overlay [simp]: "length (overlay buf got) = length buf"
  by (simp add: overlay_def)

text \<open>\<open>InDevice::ctl\<close>: the message is formatted into 1024 bytes before it is thrown.\<close>

definition in_ctl :: "os \<Rightarrow> int \<Rightarrow> query \<Rightarrow> string \<Rightarrow> ('a world_scheme, byte list) prog" where
  "in_ctl os fd q errmsg =
     bindP (do_query os (Query fd q)) (\<lambda>r. case r of
       Inl err \<Rightarrow> throw_errno (os_strerror os) (fst (vsnprintf 1024 errmsg)) err
     | Inr got \<Rightarrow> ret got)"

definition InDevice_new :: "os \<Rightarrow> endian \<Rightarrow> string \<Rightarrow> ('a world_scheme, InDevice) prog" where
  "InDevice_new os e path =
     (let evbits0 = snd (resize (Some (\<lambda>_. 0)) EV_MAX Bits_empty) in
      bindP (do_open os (Open (cstr path))) (\<lambda>r. case r of
        Inl err \<Rightarrow> throw_errno (os_strerror os) (''open('' @ cstr path @ '')'') err
      | Inr fd \<Rightarrow>
          bindP (in_ctl os fd EVIOCGNAME ''failed to query device name'') (\<lambda>got.
          let name = overlay (replicate name_size 0) got in
          bindP (in_ctl os fd EVIOCGID ''failed to query device id'') (\<lambda>idb.
          bindP (in_ctl os fd (EVIOCGBIT EV_SYN (byte_size EV_MAX))
                   ''failed to query event device capabilities'') (\<lambda>bits.
          ret \<lparr>in_fd = fd, eof = False, grabbing = False, persistent = False,
               dev_name = name,
               dev_id = id_of_mem e (overlay (replicate 8 0) idb),
               real_name = bytes_str (takeWhile (\<lambda>b. b \<noteq> 0) name),
               evbits = evbits0\<lparr>data := overlay (data evbits0) bits\<rparr>\<rparr>)))))"

definition InDevice_delete :: "os \<Rightarrow> InDevice \<Rightarrow> ('a world_scheme, unit) prog" where
  "InDevice_delete os d = whenP (in_fd d \<noteq> - 1) (do_ignore os (Close (in_fd d)))"

definition InDevice_grab :: "os \<Rightarrow> bool \<Rightarrow> InDevice \<Rightarrow> ('a world_scheme, InDevice) prog" where
  "InDevice_grab os on d =
     bindP (do_call os (Ioctl (in_fd d) (EVIOCGRAB on))) (\<lambda>r. case r of
       None \<Rightarrow> ret (d\<lparr>grabbing := on\<rparr>)
     | Some err \<Rightarrow>
         if on = grabbing d \<and> ((on \<and> err = EBUSY) \<or> (\<not> on \<and> err = EINVAL))
         then ret d
         else throw_errno (os_strerror os)
                (if on then ''failed to grab input device''
                 else ''failed to release input device'') err)"

text \<open>
  \<open>InDevice::read\<close>. The exceptions are values here because the end of the file also sets
  \<open>eof_\<close>: the result is the exception or the returned flag with the event, and the object.
  \<open>pad\<close> is the padding field of the event object, which the method does not touch.
  The read of \<open>sizeof (ev)\<close> bytes is one call that gets an event or fails: \<open>mustRead\<close> would go
  on after a shorter read (\<open>mustRead_loop\<close>), but an event device gives whole events only.
\<close>

definition InDevice_read ::
    "os \<Rightarrow> 32 word \<Rightarrow> InDevice \<Rightarrow> ('a world_scheme, (exn option + bool \<times> InputEvent) \<times> InDevice) prog" where
  "InDevice_read os pad d =
     bindP (do_event os (ReadEvent (in_fd d))) (\<lambda>r. case r of
       Inl err \<Rightarrow>
         if err = 0
         then ret (Inl (Some (Exception ''unexpected EOF'')), d\<lparr>eof := True\<rparr>)
         else ret (Inl (ErrnoException_new (os_strerror os) ''failed to read from device'' err), d)
     | Inr ke \<Rightarrow>
         ret (Inr (\<not> eof d,
              \<lparr>tv_sec = ke_sec ke, tv_usec = ke_usec ke, ev_type = ke_type ke,
               ev_code = ke_code ke, ev_value = ke_value ke, padding = pad\<rparr>), d))"

definition setName :: "string \<Rightarrow> InDevice \<Rightarrow> exn + InDevice" where
  "setName name d =
     (if length name \<ge> name_size
      then Inl (MsgException_new (''name too long ('' @ show_nat (length name) @ '' > '' @
             show_nat (name_size - 1) @ '')''))
      else Inr (d\<lparr>dev_name := str_bytes name @ replicate (name_size - length name) 0\<rparr>))"

definition resetName :: "InDevice \<Rightarrow> exn + InDevice" where
  "resetName d = setName (real_name d) d"

definition set_persistent :: "bool \<Rightarrow> InDevice \<Rightarrow> InDevice" where
  "set_persistent on d = d\<lparr>persistent := on\<rparr>"

section \<open>The netevent 2 announcement\<close>

definition add_packet :: "uapi \<Rightarrow> endian \<Rightarrow> 16 word \<Rightarrow> byte list" where
  "add_packet u e dev =
     (let pkt = zero_packet;
          pkt = set16 e 0 (hton e 2 cmd_AddDevice) pkt;
          pkt = set16 e 2 (hton e 2 dev) pkt;
          pkt = set16 e 4 (hton e 2 (word_of_nat (user_dev_size u))) pkt
      in set16 e 6 (hton e 2 (word_of_nat name_size)) pkt)"

text \<open>
  The loop over the event types: the bits of each type that matters are queried into the
  one buffer \<open>entry\<close>, whose count changes but whose allocation does not, and sent with
  their count; those of \<open>EV_ABS\<close> are kept.
\<close>

fun write_entries ::
    "os \<Rightarrow> uapi \<Rightarrow> endian \<Rightarrow> int \<Rightarrow> int \<Rightarrow> nat list \<Rightarrow> Bits \<Rightarrow> Bits \<Rightarrow> ('a world_scheme, Bits) prog" where
  "write_entries os u e dfd fd [] entry absbits = ret absbits"
| "write_entries os u e dfd fd (ev # evs) entry absbits =
     (if kUISetBitIOC ev = None then write_entries os u e dfd fd evs entry absbits
      else
        (let count = kBitLength u ev * LONG_BITS;
             entry1 = setBitCount count entry
         in bindP (in_ctl os dfd (EVIOCGBIT ev (byte_size count))
                (''failed to query bits for event type '' @ show_nat ev)) (\<lambda>got.
            let entry2 = entry1\<lparr>data := overlay (data entry1) (take (byte_size count) got)\<rparr> in
            bindP (mustWrite os fd (put_be e 2 (word_of_nat count :: 16 word) @
                     take (byte_size count) (data entry2))) (\<lambda>r. case r of
              Some err \<Rightarrow> throw_errno (os_strerror os) (''failed to write bits for event type '' @ show_nat ev) err
            | None \<Rightarrow> write_entries os u e dfd fd evs entry2
                (if ev = EV_ABS then snd (dup (Some (\<lambda>_. 0)) entry2) else absbits)))))"

definition write_axis :: "os \<Rightarrow> endian \<Rightarrow> int \<Rightarrow> int \<Rightarrow> nat \<Rightarrow> ('a world_scheme, unit) prog" where
  "write_axis os e dfd fd i =
     bindP (in_ctl os dfd (EVIOCGABS i) (''failed to query abs axis '' @ show_nat i @ '' info'')) (\<lambda>got.
     bindP (mustWrite os fd (absinfo_net e (absinfo_of_mem e got))) (\<lambda>r. case r of
       Some err \<Rightarrow> throw_errno (os_strerror os) (''failed to write absolute axis '' @ show_nat i) err
     | None \<Rightarrow> ret ()))"

definition writeNE2AddDevice ::
    "os \<Rightarrow> uapi \<Rightarrow> endian \<Rightarrow> InDevice \<Rightarrow> int \<Rightarrow> 16 word \<Rightarrow> ('a world_scheme, unit) prog" where
  "writeNE2AddDevice os u e d fd dev =
     bindP (mustWrite os fd (add_packet u e dev @ dev_name d @ id_net e (dev_id d) @
              put_be e 2 (word_of_nat (bitcount (evbits d)) :: 16 word) @
              take (byte_size (bitcount (evbits d))) (data (evbits d)))) (\<lambda>r. case r of
       Some err \<Rightarrow> throw_errno (os_strerror os) ''failed to write device header'' err
     | None \<Rightarrow>
        (case set_indices (evbits d) of None \<Rightarrow> undef | Some evs \<Rightarrow>
         bindP (write_entries os u e (in_fd d) fd evs
                  (snd (resize (Some (\<lambda>_. 0)) 65535 Bits_empty)) Bits_empty) (\<lambda>absbits.
         case set_indices absbits of None \<Rightarrow> undef | Some axes \<Rightarrow>
         thenP (forP (write_axis os e (in_fd d) fd) axes)
         (bindP (mustWrite os fd (data (snd (resize (Some (\<lambda>_. 0)) (bitcount (evbits d)) Bits_empty))))
           (\<lambda>r. case r of
              Some err \<Rightarrow> throw_errno (os_strerror os) ''failed to write empty state bitfield'' err
            | None \<Rightarrow> ret ())))))"

section \<open>The netevent 1 header\<close>

definition ne1_entry_types :: "uapi \<Rightarrow> (nat \<times> nat \<times> string) list" where
  "ne1_entry_types u =
     [(EV_KEY, KEY_CNT u - 1, ''key''), (EV_ABS, ABS_CNT u - 1, ''abs''),
      (EV_REL, REL_CNT u - 1, ''rel''), (EV_MSC, MSC_CNT u - 1, ''msc''),
      (EV_SW, SW_CNT u - 1, ''sw''), (EV_LED, LED_CNT u - 1, ''led'')]"

definition ne1_state_types :: "uapi \<Rightarrow> (nat \<times> nat \<times> string) list" where
  "ne1_state_types u =
     [(EV_KEY, KEY_CNT u - 1, ''key''), (EV_LED, LED_CNT u - 1, ''led''),
      (EV_SW, SW_CNT u - 1, ''sw'')]"

text \<open>
  One step of either loop: skip a type the device does not have, otherwise query into a
  zeroed array of netevent 1's size and send it. \<open>q\<close> is the query (\<open>EVIOCGBIT\<close>, or
  \<open>EVIOCGKEY\<close> and its kin), \<open>kind\<close> the words the messages differ in.
\<close>

definition write_ne1_bits ::
    "os \<Rightarrow> int \<Rightarrow> int \<Rightarrow> Bits \<Rightarrow> (nat \<Rightarrow> nat \<Rightarrow> query) \<Rightarrow> string \<Rightarrow> string \<Rightarrow> nat \<times> nat \<times> string \<Rightarrow>
     ('a world_scheme, unit) prog" where
  "write_ne1_bits os dfd fd ebits q kind_q kind_w type =
     (case type of (code, mx, kind) \<Rightarrow>
       (case get_bit ebits code of
          None \<Rightarrow> undef
        | Some False \<Rightarrow> ret ()
        | Some True \<Rightarrow>
            (let b = snd (resizeNE1Compat (Some (\<lambda>_. 0)) mx Bits_empty);
                 buf = replicate (byte_size (bitcount b)) 0
             in bindP (in_ctl os dfd (q code (byte_size (bitcount b)))
                         (''failed to query '' @ kind @ kind_q)) (\<lambda>got.
                bindP (mustWrite os fd (overlay buf got)) (\<lambda>r. case r of
                  Some err \<Rightarrow> throw_errno (os_strerror os) (''failed to write '' @ kind @ kind_w) err
                | None \<Rightarrow> ret ())))))"

definition write_ne1_axis :: "os \<Rightarrow> endian \<Rightarrow> int \<Rightarrow> int \<Rightarrow> nat \<Rightarrow> ('a world_scheme, unit) prog" where
  "write_ne1_axis os e dfd fd i =
     bindP (in_ctl os dfd (EVIOCGABS i) (''failed to get abs axis '' @ show_nat i @ '' info'')) (\<lambda>got.
     bindP (mustWrite os fd (absinfo_mem e (absinfo_of_mem e got))) (\<lambda>r. case r of
       Some err \<Rightarrow> throw_errno (os_strerror os) (''failed to write absolute axis '' @ show_nat i) err
     | None \<Rightarrow> ret ()))"

definition writeNeteventHeader ::
    "os \<Rightarrow> uapi \<Rightarrow> endian \<Rightarrow> InDevice \<Rightarrow> int \<Rightarrow> ('a world_scheme, unit) prog" where
  "writeNeteventHeader os u e d fd =
     bindP (mustWrite os fd (mem_of e 2 (word_of_nat (user_dev_size u) :: 16 word) @ dev_name d @
              id_mem e (dev_id d) @ take (byte_size (bitcount (evbits d))) (data (evbits d)))) (\<lambda>r.
     case r of
       Some err \<Rightarrow> throw_errno (os_strerror os) ''failed to write device header'' err
     | None \<Rightarrow>
         thenP (forP (write_ne1_bits os (in_fd d) fd (evbits d) EVIOCGBIT
                  '' event bits'' '' bits'') (ne1_entry_types u))
         (thenP (forP (write_ne1_bits os (in_fd d) fd (evbits d) EVIOCGSTATE
                  '' state bits'' '' state'') (ne1_state_types u))
         (case get_bit (evbits d) EV_ABS of
            None \<Rightarrow> undef
          | Some False \<Rightarrow> ret ()
          | Some True \<Rightarrow> forP (write_ne1_axis os e (in_fd d) fd) [0..<ABS_CNT u - 1])))"

section \<open>What the announcement puts on the wire\<close>

text \<open>
  A device whose capabilities do not change while it is announced: \<open>entries ev\<close> are the
  bits of event type \<open>ev\<close>, \<open>axis i\<close> is the absolute axis \<open>i\<close>.
\<close>

definition steady :: "os \<Rightarrow> endian \<Rightarrow> int \<Rightarrow> uapi \<Rightarrow> (nat \<Rightarrow> byte list) \<Rightarrow> (nat \<Rightarrow> absinfo) \<Rightarrow> bool" where
  "steady os e dfd u entries axis \<longleftrightarrow>
     (\<forall>h ev. os_query os h (Query dfd (EVIOCGBIT ev (byte_size (entry_count u ev)))) = Inr (entries ev) \<and>
        length (entries ev) = byte_size (entry_count u ev)) \<and>
     (\<forall>h i. os_query os h (Query dfd (EVIOCGABS i)) = Inr (absinfo_mem e (axis i)))"

text \<open>What the constructor establishes of the object, and every method keeps.\<close>

definition InDevice_ok :: "InDevice \<Rightarrow> bool" where
  "InDevice_ok d \<longleftrightarrow> length (dev_name d) = name_size \<and> bitcount (evbits d) = EV_MAX \<and>
     length (data (evbits d)) = byte_size EV_MAX"

lemma InDevice_ok_valid: "InDevice_ok d \<Longrightarrow> valid (evbits d)"
  by (simp add: InDevice_ok_def valid_def)

text \<open>The event types of the device whose bits are transferred.\<close>

definition typed_events :: "Bits \<Rightarrow> nat list" where
  "typed_events b = filter (\<lambda>ev. kUISetBitIOC ev \<noteq> None) (filter (get_ok b) [0..<bitcount b])"

definition bits_of :: "nat \<Rightarrow> byte list \<Rightarrow> Bits" where
  "bits_of n bs = \<lparr>bitcount = n, data = bs\<rparr>"

text \<open>The absolute axes of the device, in order.\<close>

definition abs_axes :: "uapi \<Rightarrow> Bits \<Rightarrow> (nat \<Rightarrow> byte list) \<Rightarrow> nat list" where
  "abs_axes u b entries =
     (if EV_ABS \<in> set (typed_events b)
      then filter (get_ok (bits_of (entry_count u EV_ABS) (entries EV_ABS))) [0..<entry_count u EV_ABS]
      else [])"

definition ne2_add_header :: "uapi \<Rightarrow> endian \<Rightarrow> InDevice \<Rightarrow> 16 word \<Rightarrow> byte list" where
  "ne2_add_header u e d dev =
     add_packet u e dev @ dev_name d @ id_net e (dev_id d) @
     put_be e 2 (word_of_nat (bitcount (evbits d)) :: 16 word) @ data (evbits d)"

definition ne2_add_body :: "uapi \<Rightarrow> endian \<Rightarrow> InDevice \<Rightarrow> (nat \<Rightarrow> byte list) \<Rightarrow> (nat \<Rightarrow> absinfo) \<Rightarrow> byte list" where
  "ne2_add_body u e d entries axis =
     concat (map (\<lambda>ev. put_be e 2 (word_of_nat (entry_count u ev) :: 16 word) @ entries ev)
       (typed_events (evbits d))) @
     concat (map (\<lambda>i. absinfo_net e (axis i)) (abs_axes u (evbits d) entries)) @
     replicate (byte_size EV_MAX) 0"

lemma byte_size_EV_MAX: "byte_size EV_MAX = 4"
  by (simp add: byte_size_def)

lemma resize_new:
  assumes "n \<noteq> 0"
  shows "snd (resize (Some junk) n Bits_empty) = bits_of n (replicate (byte_size n) 0)"
proof -
  have "0 < byte_size n" using assms by (simp add: byte_size_def)
  with assms show ?thesis
    by (simp add: resize_def Bits_empty_def realloc_def zero_from_def bits_of_def byte_size_def Let_def)
qed

lemma dup_new:
  assumes "length (data b) \<ge> byte_size (bitcount b)"
  shows "snd (dup (Some junk) b) = bits_of (bitcount b) (take (byte_size (bitcount b)) (data b))"
proof (cases "bitcount b = 0")
  case True
  then show ?thesis by (simp add: dup_def resize_def bits_of_def)
next
  case False
  obtain r d where rd: "dup (Some junk) b = (r, d)" by fastforce
  from assms have "valid b" by (simp add: valid_def)
  from dup_valid [OF this rd] rd show ?thesis by (simp add: bits_of_def)
qed

lemma emits_ctl:
  assumes "\<And>h. os_query os h (Query dfd q) = Inr got"
  shows "emits fd (in_ctl os dfd q msg) got []"
  unfolding in_ctl_def
proof (rule emits_silent [OF emits_query [OF assms]], unfold sum.case)
  show "emits fd (ret got) got []" by (rule emits_ret)
qed

lemma emits_ctl_bind:
  "(\<And>h. os_query os h (Query dfd q) = Inr got) \<Longrightarrow> emits fd (f got) r bs \<Longrightarrow>
   emits fd (bindP (in_ctl os dfd q msg) f) r bs"
  using emits_bind [OF emits_ctl] by fastforce

lemma steadyD:
  assumes "steady os e dfd u entries axis"
  shows "os_query os h (Query dfd (EVIOCGBIT ev (byte_size (entry_count u ev)))) = Inr (entries ev)"
    and "length (entries ev) = byte_size (entry_count u ev)"
    and "os_query os h (Query dfd (EVIOCGABS i)) = Inr (absinfo_mem e (axis i))"
  using assms by (simp_all add: steady_def)

lemma emits_entries:
  assumes st: "steady os e dfd u entries axis" and ok: "uapi_ok u" and w: "writes_ok os fd"
  shows "length (data entry) = 8192 \<Longrightarrow>
    emits fd (write_entries os u e dfd fd evs entry absbits :: ('a world_scheme, Bits) prog)
      (if EV_ABS \<in> set evs then bits_of (entry_count u EV_ABS) (entries EV_ABS) else absbits)
      (concat (map (\<lambda>ev. put_be e 2 (word_of_nat (entry_count u ev) :: 16 word) @ entries ev)
        (filter (\<lambda>ev. kUISetBitIOC ev \<noteq> None) evs)))"
proof (induction evs arbitrary: entry absbits)
  case Nil
  then show ?case by (simp add: emits_ret)
next
  case (Cons ev evs)
  show ?case
  proof (cases "kUISetBitIOC ev = None")
    case True
    moreover from True have "ev \<noteq> EV_ABS" by (auto simp: kUISetBitIOC_def)
    ultimately show ?thesis using Cons by simp
  next
    case False
    let ?n = "entry_count u ev"
    let ?data = "overlay (data entry) (take (byte_size ?n) (entries ev))"
    let ?entry = "bits_of ?n ?data"
    let ?abs = "if ev = EV_ABS then bits_of ?n (entries ev) else absbits"
    have small: "byte_size ?n \<le> 8192"
      using entry_count_16 [OF ok, of ev] by (intro byte_size_le) simp
    have sent: "take (byte_size ?n) ?data = entries ev"
      using small Cons.prems by (simp add: overlay_def steadyD [OF st])
    have dup: "snd (dup (Some (\<lambda>_. 0)) ?entry) = bits_of ?n (entries ev)"
      using dup_new [of ?entry] sent small Cons.prems by (simp add: bits_of_def)
    have count: "kBitLength u ev * LONG_BITS = ?n" by (simp add: entry_count_def)
    have entry: "setBitCount ?n entry\<lparr>data := overlay (data (setBitCount ?n entry))
        (take (byte_size ?n) (entries ev))\<rparr> = ?entry"
      by (simp add: setBitCount_def bits_of_def)
    have dat: "data ?entry = ?data" by (simp add: bits_of_def)
    have len: "length (data ?entry) = 8192" using Cons.prems by (simp add: bits_of_def)
    have rest: "emits fd (write_entries os u e dfd fd evs ?entry ?abs :: ('a world_scheme, Bits) prog)
      (if EV_ABS \<in> set evs then bits_of (entry_count u EV_ABS) (entries EV_ABS) else ?abs)
      (concat (map (\<lambda>ev. put_be e 2 (word_of_nat (entry_count u ev) :: 16 word) @ entries ev)
        (filter (\<lambda>ev. kUISetBitIOC ev \<noteq> None) evs)))"
      by (rule Cons.IH [OF len])
    have "emits fd
      (write_entries os u e dfd fd (ev # evs) entry absbits :: ('a world_scheme, Bits) prog)
      (if EV_ABS \<in> set evs then bits_of (entry_count u EV_ABS) (entries EV_ABS) else ?abs)
      ((put_be e 2 (word_of_nat ?n :: 16 word) @ entries ev) @
       concat (map (\<lambda>ev. put_be e 2 (word_of_nat (entry_count u ev) :: 16 word) @ entries ev)
        (filter (\<lambda>ev. kUISetBitIOC ev \<noteq> None) evs)))"
      unfolding write_entries.simps(2) Let_def count if_not_P [OF False]
    proof (rule emits_ctl_bind [OF steadyD(1) [OF st]], unfold entry dat sent dup,
        rule emits_write_bind [OF w], unfold option.case)
    qed (rule rest)
    moreover have "(if EV_ABS \<in> set evs then bits_of (entry_count u EV_ABS) (entries EV_ABS) else ?abs) =
        (if EV_ABS \<in> set (ev # evs) then bits_of (entry_count u EV_ABS) (entries EV_ABS) else absbits)"
      by auto
    ultimately show ?thesis using False by (simp del: write_entries.simps)
  qed
qed

lemma emits_axis:
  assumes "steady os e dfd u entries axis" and "writes_ok os fd"
  shows "emits fd (write_axis os e dfd fd i) () (absinfo_net e (axis i))"
  unfolding write_axis_def
  by (rule emits_ctl_bind [OF steadyD(3) [OF assms(1)]], rule emits_eq,
      rule emits_write_bind [OF assms(2)])
    (simp_all add: emits_ret host_absinfo.dec_enc)

lemma emits_announce:
  assumes "InDevice_ok d" and "steady os e (in_fd d) u entries axis" and "uapi_ok u"
    and "writes_ok os fd"
  shows "emits fd (writeNE2AddDevice os u e d fd dev :: ('a world_scheme, unit) prog) ()
    (ne2_add_header u e d dev @ ne2_add_body u e d entries axis)"
proof -
  let ?evs = "filter (get_ok (evbits d)) [0..<bitcount (evbits d)]"
  let ?abs = "if EV_ABS \<in> set ?evs then bits_of (entry_count u EV_ABS) (entries EV_ABS) else Bits_empty"
  note ok = assms(1) [unfolded InDevice_ok_def]
  have evs: "set_indices (evbits d) = Some ?evs"
    by (rule set_indices_valid [OF InDevice_ok_valid [OF assms(1)]])
  have data: "take (byte_size (bitcount (evbits d))) (data (evbits d)) = data (evbits d)"
    using ok by simp
  have "valid ?abs"
    by (simp add: valid_def bits_of_def Bits_empty_def steadyD(2) [OF assms(2)])
  moreover have abs_in: "EV_ABS \<in> set ?evs \<longleftrightarrow> EV_ABS \<in> set (typed_events (evbits d))"
    by (simp add: typed_events_def kUISetBitIOC_def)
  ultimately have axes: "set_indices ?abs = Some (abs_axes u (evbits d) entries)"
    by (simp add: set_indices_valid abs_axes_def bits_of_def Bits_empty_def)
  have big: "length (data (snd (resize (Some (\<lambda>_. 0)) 65535 Bits_empty))) = 8192"
    by (simp add: resize_new bits_of_def byte_size_def)
  have state: "data (snd (resize (Some (\<lambda>_. 0)) (bitcount (evbits d)) Bits_empty)) =
      replicate (byte_size EV_MAX) 0"
    using ok by (simp add: resize_new bits_of_def)
  have "emits fd (writeNE2AddDevice os u e d fd dev :: ('a world_scheme, unit) prog) ()
    (ne2_add_header u e d dev @
     (concat (map (\<lambda>ev. put_be e 2 (word_of_nat (entry_count u ev) :: 16 word) @ entries ev)
        (filter (\<lambda>ev. kUISetBitIOC ev \<noteq> None) ?evs)) @
      (concat (map (\<lambda>i. absinfo_net e (axis i)) (abs_axes u (evbits d) entries)) @
       (replicate (byte_size EV_MAX) 0 @ []))))"
    unfolding writeNE2AddDevice_def data
    by (rule emits_eq, rule emits_write_bind [OF assms(4)], simp only: option.case evs,
        rule emits_bind [OF emits_entries [OF assms(2-4) big]],
        simp only: option.case axes,
        rule emits_then [OF emits_for [OF emits_axis [OF assms(2,4)]]],
        simp only: state, rule emits_write_bind [OF assms(4)])
      (simp_all add: emits_ret ne2_add_header_def)
  then show ?thesis by (simp add: ne2_add_body_def typed_events_def)
qed

text \<open>
  C24. Announcing a device (netevent 2) to a descriptor that takes every write returns
  normally and puts exactly the announcement on it: the 28-byte packet, the name, the id
  and the event types, then for each event type the device has the bit count and bits of
  the kernel's answer, then the axis data of each absolute axis it has, then an empty
  state bit field.
\<close>

theorem writeNE2AddDevice_emits:
  assumes "InDevice_ok d" and "steady os e (in_fd d) u entries axis" and "uapi_ok u"
    and "writes_ok os fd"
  shows "emits fd (writeNE2AddDevice os u e d fd dev :: ('a world_scheme, unit) prog) ()
    (ne2_add_header u e d dev @ ne2_add_body u e d entries axis)"
  by (rule emits_announce [OF assms])

text \<open>A sample device: it has keys, relative axes and absolute axes.\<close>

definition sample_device :: InDevice where
  "sample_device = \<lparr>in_fd = 4, eof = False, grabbing = False, persistent = False,
     dev_name = str_bytes ''pad'' @ replicate 77 0,
     dev_id = \<lparr>bustype = 3, vendor = 1, product = 2, version = 1\<rparr>,
     real_name = ''pad'', evbits = \<lparr>bitcount = EV_MAX, data = [15, 0, 0, 0]\<rparr>\<rparr>"

definition sample_entries :: "nat \<Rightarrow> byte list" where
  "sample_entries ev = replicate (byte_size (entry_count linux_uapi ev)) 1"

definition sample_axis :: "nat \<Rightarrow> absinfo" where
  "sample_axis i = \<lparr>ai_value = 0, ai_minimum = 0, ai_maximum = 255, ai_fuzz = 1, ai_flat = 2,
     ai_resolution = of_nat i\<rparr>"

definition sample_os :: "endian \<Rightarrow> os" where
  "sample_os e = quiet_os\<lparr>os_query := (\<lambda>h c. case c of
     Query fd (EVIOCGBIT ev n) \<Rightarrow>
       Inr (if ev = EV_SYN \<and> n = 4 then [15, 0, 0, 0] else sample_entries ev)
   | Query fd EVIOCGNAME \<Rightarrow> Inr (str_bytes ''pad'')
   | Query fd EVIOCGID \<Rightarrow> Inr (id_mem e (dev_id sample_device))
   | Query fd (EVIOCGABS i) \<Rightarrow> Inr (absinfo_mem e (sample_axis i))
   | _ \<Rightarrow> Inr [])\<rparr>"

lemma sample_ok:
  "InDevice_ok sample_device"
  "steady (sample_os e) e 4 linux_uapi sample_entries sample_axis"
  "writes_ok (sample_os e) fd"
  by (simp_all add: InDevice_ok_def sample_device_def byte_size_def name_size_def steady_def
      sample_os_def sample_entries_def writes_ok_def quiet_os_def entry_count_def kBitLength_def)

theorem writeNE2AddDevice_emits_witness:
  "emits 1 (writeNE2AddDevice (sample_os Big) linux_uapi Big sample_device 1 7
       :: (unit world_scheme, unit) prog) ()
    (ne2_add_header linux_uapi Big sample_device 7 @
     ne2_add_body linux_uapi Big sample_device sample_entries sample_axis)"
  by (rule writeNE2AddDevice_emits [OF sample_ok(1) _ linux_uapi_ok sample_ok(3)])
    (simp add: sample_device_def sample_ok(2) [unfolded sample_device_def])

end
