(* ===== verification/Writer.thy ===== *)
theory Writer
  imports Tables
begin

text \<open>
  \<^verbatim>\<open>writer.cpp\<close>: \<open>OutDevice\<close>, a uinput device the program creates from an
  announcement it reads (\<open>newFromNeteventStream\<close> for netevent 1, \<open>newFromNE2AddCommand\<close>
  for netevent 2) and then writes events to.

  The state of a program here is the byte stream it reads, the history of system calls and
  the global \<open>gUse_UI_DEV_SETUP\<close>. The \<open>unique_ptr\<close> that owns the new device destroys
  it when a later step throws (\<open>with_device\<close>); a constructor that throws runs no destructor.
\<close>

record wstate = rworld +
  use_setup :: bool

record OutDevice =
  out_fd :: int
  user_dev :: uinput_user_dev
  created :: bool

definition gDevicePaths :: "string list" where
  "gDevicePaths = [''/dev/uinput'', ''/dev/input/uinput'', ''/dev/misc/uinput'']"

text \<open>The value of \<open>errno\<close>: the error of the last call that failed.\<close>

definition last_errno :: "effect list \<Rightarrow> errno" where
  "last_errno h = foldl (\<lambda>x (c, r). case r of None \<Rightarrow> x | Some e \<Rightarrow> e) 0 h"

text \<open>
  \<open>throw ErrnoException(errmsg)\<close> with a format and no arguments: a conversion in the
  format then reads arguments that were not passed, which is undefined behaviour.
\<close>

definition throw_format :: "os \<Rightarrow> string \<Rightarrow> errno \<Rightarrow> ('s, 'a) prog" where
  "throw_format os fmt err =
     (if List.member fmt CHR ''%'' then undef else throw_errno (os_strerror os) fmt err)"

definition out_ctl :: "os \<Rightarrow> int \<Rightarrow> ioctl \<Rightarrow> string \<Rightarrow> ('a world_scheme, unit) prog" where
  "out_ctl os fd req fmt =
     bindP (do_call os (Ioctl fd req)) (\<lambda>r. case r of
       None \<Rightarrow> ret ()
     | Some err \<Rightarrow> throw_format os fmt err)"

definition OutDevice_delete :: "os \<Rightarrow> OutDevice \<Rightarrow> ('a world_scheme, unit) prog" where
  "OutDevice_delete os d =
     thenP (do_ignore os (Ioctl (out_fd d) UI_DEV_DESTROY)) (do_ignore os (Close (out_fd d)))"

definition assertNotCreated :: "OutDevice \<Rightarrow> string \<Rightarrow> ('s, unit) prog" where
  "assertNotCreated d errmsg = (if created d then raise (DeviceException errmsg) else ret ())"

text \<open>The constructor's loop over the device nodes.\<close>

fun open_uinput :: "os \<Rightarrow> string list \<Rightarrow> ('a world_scheme, int) prog" where
  "open_uinput os [] = raise (DeviceException ''cannot find uinput device node'')"
| "open_uinput os (path # paths) =
     bindP (do_open os (Open path)) (\<lambda>r. case r of
       Inr fd \<Rightarrow> ret fd
     | Inl err \<Rightarrow>
         if err \<noteq> ENOENT then throw_errno (os_strerror os) ''error opening uinput device'' err
         else open_uinput os paths)"

definition OutDevice_new :: "os \<Rightarrow> string \<Rightarrow> input_id \<Rightarrow> ('a wstate_scheme, OutDevice) prog" where
  "OutDevice_new os name i =
     (if length name \<ge> name_size then raise (DeviceException ''device name too long'')
      else
        bindP (open_uinput os gDevicePaths) (\<lambda>fd.
        let d = \<lparr>out_fd = fd,
                 user_dev = \<lparr>ud_name = str_bytes name @ replicate (name_size - length name) 0,
                   ud_id = i, ud_absmax = [], ud_absmin = [], ud_absfuzz = [], ud_absflat = []\<rparr>,
                 created = False\<rparr> in
        bindP (getP use_setup) (\<lambda>us.
        if \<not> us then ret d
        else bindP (do_call os (Ioctl fd (UI_DEV_SETUP (ud_name (user_dev d)) i))) (\<lambda>r. case r of
               None \<Rightarrow> ret d
             | Some err \<Rightarrow>
                 if err = EINVAL then thenP (modifyP (\<lambda>s. s\<lparr>use_setup := False\<rparr>)) (ret d)
                 else throw_errno (os_strerror os) ''failed to setup uinput device'' err))))"

definition setEventBit :: "os \<Rightarrow> OutDevice \<Rightarrow> nat \<Rightarrow> ('a world_scheme, unit) prog" where
  "setEventBit os d type =
     thenP (assertNotCreated d ''trying to enable event type'')
       (out_ctl os (out_fd d) (UI_SET_EVBIT type) ''failed to enable input bit %u'')"

definition setGenericBit :: "os \<Rightarrow> OutDevice \<Rightarrow> nat \<Rightarrow> nat \<Rightarrow> string \<Rightarrow> ('a world_scheme, unit) prog" where
  "setGenericBit os d req b fmt =
     (if created d
      then bindP (getP (\<lambda>s. last_errno (history s))) (\<lambda>err.
             throw_errno (os_strerror os) ''device already created'' err)
      else bindP (do_call os (Ioctl (out_fd d) (UI_SET_BIT req b))) (\<lambda>r. case r of
             None \<Rightarrow> ret ()
           | Some err \<Rightarrow> throw_format os fmt err))"

text \<open>The legacy path: the axis is stored in the arrays of \<open>user_dev_\<close>.\<close>

definition store_axis :: "nat \<Rightarrow> absinfo \<Rightarrow> OutDevice \<Rightarrow> OutDevice" where
  "store_axis code info d = d\<lparr>user_dev := (user_dev d)
     \<lparr>ud_absmax := (code, ai_maximum info) # ud_absmax (user_dev d),
      ud_absmin := (code, ai_minimum info) # ud_absmin (user_dev d),
      ud_absfuzz := (code, ai_fuzz info) # ud_absfuzz (user_dev d),
      ud_absflat := (code, ai_flat info) # ud_absflat (user_dev d)\<rparr>\<rparr>"

definition setupAbsoluteAxis :: "os \<Rightarrow> uapi \<Rightarrow> nat \<Rightarrow> absinfo \<Rightarrow> OutDevice \<Rightarrow> ('a wstate_scheme, OutDevice) prog" where
  "setupAbsoluteAxis os u code info d =
     thenP (assertNotCreated d ''trying to set absolute axis'')
     (bindP (getP use_setup) (\<lambda>us.
      if us
      then thenP (out_ctl os (out_fd d) (UI_ABS_SETUP code info)
                    ''failed to setup device axis information'') (ret d)
      else if code < ABS_CNT u
      then ret (store_axis code info d)
      else undef))"

definition create :: "os \<Rightarrow> OutDevice \<Rightarrow> ('a wstate_scheme, OutDevice) prog" where
  "create os d =
     bindP (getP use_setup) (\<lambda>us.
     bindP (if us then ret None else do_call os (WriteUserDev (out_fd d) (user_dev d))) (\<lambda>r.
     case r of
       Some err \<Rightarrow> throw_errno (os_strerror os) ''failed to upload device info'' err
     | None \<Rightarrow>
         bindP (do_call os (Ioctl (out_fd d) UI_DEV_CREATE)) (\<lambda>r. case r of
           Some err \<Rightarrow> throw_errno (os_strerror os) ''failed to create device'' err
         | None \<Rightarrow> ret (d\<lparr>created := True\<rparr>))))"

definition OutDevice_write :: "os \<Rightarrow> OutDevice \<Rightarrow> InputEvent \<Rightarrow> ('a world_scheme, unit) prog" where
  "OutDevice_write os d ie =
     (if unat (ev_type ie) = EV_FF then ret ()
      else bindP (do_call os (WriteEvent (out_fd d)
                   \<lparr>ke_sec = tv_sec ie, ke_usec = tv_usec ie, ke_type = ev_type ie,
                    ke_code = ev_code ie, ke_value = ev_value ie\<rparr>)) (\<lambda>r. case r of
             None \<Rightarrow> ret ()
           | Some err \<Rightarrow> throw_errno (os_strerror os) ''failed to write event'' err))"

text \<open>The owner of the new device: an exception thrown past it destroys the device.\<close>

definition with_device :: "os \<Rightarrow> OutDevice option \<Rightarrow> ('a world_scheme, 'b) prog \<Rightarrow> ('a world_scheme, 'b) prog" where
  "with_device os dev m =
     catchP m (\<lambda>ex. thenP (case dev of None \<Rightarrow> ret () | Some d \<Rightarrow> OutDevice_delete os d) (raise ex))"

definition read_or :: "os \<Rightarrow> nat \<Rightarrow> string \<Rightarrow> ('a rworld_scheme, byte list) prog" where
  "read_or os n errmsg =
     bindP (mustRead n) (\<lambda>r. case r of
       Inl err \<Rightarrow> throw_errno (os_strerror os) errmsg err
     | Inr bs \<Rightarrow> ret bs)"

text \<open>\<open>resize\<close>, then \<open>mustRead\<close> into the whole array.\<close>

definition load_bits :: "nat \<Rightarrow> byte list \<Rightarrow> Bits \<Rightarrow> Bits" where
  "load_bits n bs b =
     (let b' = snd (resize (Some (\<lambda>_. 0)) n b) in b'\<lparr>data := bs @ drop (length bs) (data b')\<rparr>)"

section \<open>netevent 2\<close>

fun read_entries ::
    "os \<Rightarrow> endian \<Rightarrow> OutDevice option \<Rightarrow> nat list \<Rightarrow> Bits \<Rightarrow> Bits \<Rightarrow> ('a wstate_scheme, Bits) prog" where
  "read_entries os e dev [] entrybits absbits = ret absbits"
| "read_entries os e dev (ev # evs) entrybits absbits =
     (case kUISetBitIOC ev of
        None \<Rightarrow> read_entries os e dev evs entrybits absbits
      | Some ioc \<Rightarrow>
          bindP (read_or os 2 (''failed to read type '' @ show_nat ev @ '' bit count'')) (\<lambda>cb.
          let count = unat (get_be e 2 cb :: 16 word) in
          bindP (read_or os (byte_size count)
                   (''failed to read type '' @ show_nat ev @ '' bit field'')) (\<lambda>bs.
          let entry = load_bits count bs entrybits in
          thenP (case dev of
                   None \<Rightarrow> ret ()
                 | Some d \<Rightarrow>
                     (case set_indices entry of
                        None \<Rightarrow> undef
                      | Some is \<Rightarrow> forP (\<lambda>b. setGenericBit os d ioc b ''failed to set %zu bit %zu'') is))
            (if ev = EV_ABS then read_entries os e dev evs Bits_empty entry
             else read_entries os e dev evs entry absbits))))"

fun read_axes :: "os \<Rightarrow> uapi \<Rightarrow> endian \<Rightarrow> OutDevice option \<Rightarrow> nat list \<Rightarrow> ('a wstate_scheme, OutDevice option) prog" where
  "read_axes os u e dev [] = ret dev"
| "read_axes os u e dev (i # is) =
     bindP (read_or os absinfo_size (''failed to read absolute axis '' @ show_nat i)) (\<lambda>ai.
     case dev of
       None \<Rightarrow> read_axes os u e None is
     | Some d \<Rightarrow>
         bindP (setupAbsoluteAxis os u i (absinfo_of_net e ai) d) (\<lambda>d'.
         read_axes os u e (Some d') is))"

text \<open>
  \<open>newFromNE2AddCommand (fd, pkt, skip)\<close>: \<open>pkt\<close> has its fields in host order; the rest
  of the announcement is read from the stream. With \<open>skip\<close> the bytes are read and no
  device is made.
\<close>

definition newFromNE2AddCommand ::
    "os \<Rightarrow> uapi \<Rightarrow> endian \<Rightarrow> byte list \<Rightarrow> bool \<Rightarrow> ('a wstate_scheme, OutDevice option) prog" where
  "newFromNE2AddCommand os u e pkt skip =
     (if pkt_cmd e pkt \<noteq> cmd_AddDevice then raise (Exception ''internal error: wrong packet'')
      else if unat (add_info_size e pkt) \<noteq> user_dev_size u
      then raise (DeviceException ''protocol error: struct uinput_user_dev size mismatch'')
      else if unat (add_name_size e pkt) \<noteq> name_size
      then raise (DeviceException ''protocol error: struct input device name size mismatch'')
      else
        bindP (read_or os name_size ''error reading device name'') (\<lambda>name.
        bindP (read_or os 8 ''error reading device id'') (\<lambda>idb.
        bindP (if skip then ret None
               else bindP (OutDevice_new os (bytes_str (takeWhile (\<lambda>b. b \<noteq> 0) name)) (id_of_net e idb))
                      (\<lambda>d. ret (Some d))) (\<lambda>dev.
        with_device os dev
        (bindP (read_or os 2 ''failed to read type bitfield size'') (\<lambda>szb.
         let evbitsize = unat (get_be e 2 szb :: 16 word) in
         if evbitsize \<noteq> EV_MAX
         then throw_msg (''protocol error: event type count mismatch, got '' @
                show_nat evbitsize @ '' != '' @ show_nat EV_MAX)
         else
         bindP (read_or os (byte_size EV_MAX) ''error reading event bits'') (\<lambda>bs.
         case set_indices (load_bits EV_MAX bs Bits_empty) of None \<Rightarrow> undef | Some evs \<Rightarrow>
         thenP (case dev of
                  None \<Rightarrow> ret ()
                | Some d \<Rightarrow> forP (\<lambda>ev. if ev \<noteq> EV_FF then setEventBit os d ev else ret ()) evs)
         (bindP (read_entries os e dev evs Bits_empty Bits_empty) (\<lambda>absbits.
          case set_indices absbits of None \<Rightarrow> undef | Some axes \<Rightarrow>
          bindP (read_axes os u e dev axes) (\<lambda>dev'.
          bindP (read_or os (byte_size EV_MAX) ''failed to read state bitfield'') (\<lambda>st.
          case set_indices (load_bits EV_MAX st Bits_empty) of None \<Rightarrow> undef | Some sts \<Rightarrow>
          thenP (whenP (sts \<noteq> []) (do_ignore os (Stderr (''got unexpected state bits'' @ [NL]))))
          (case dev' of
             None \<Rightarrow> ret None
           | Some d \<Rightarrow> bindP (create os d) (\<lambda>d'. ret (Some d'))))))))))))))"

section \<open>netevent 1\<close>

definition ne1_entries :: "uapi \<Rightarrow> (nat \<times> nat \<times> string) list" where
  "ne1_entries u =
     [(EV_KEY, KEY_CNT u - 1, ''key''), (EV_ABS, ABS_CNT u - 1, ''abs''),
      (EV_REL, REL_CNT u - 1, ''rel''), (EV_MSC, MSC_CNT u - 1, ''msc''),
      (EV_SW, SW_CNT u - 1, ''sw''), (EV_LED, LED_CNT u - 1, ''led'')]"

definition ne1_states :: "uapi \<Rightarrow> (nat \<times> nat \<times> string) list" where
  "ne1_states u =
     [(EV_KEY, KEY_CNT u - 1, ''key''), (EV_LED, LED_CNT u - 1, ''led''),
      (EV_SW, SW_CNT u - 1, ''sw'')]"

definition ne1_bytes :: "nat \<Rightarrow> nat" where
  "ne1_bytes mx = byte_size (8 * (1 + mx div 8))"

fun read_ne1_entries ::
    "os \<Rightarrow> OutDevice \<Rightarrow> Bits \<Rightarrow> (nat \<times> nat \<times> string) list \<Rightarrow> Bits \<Rightarrow> Bits \<Rightarrow> ('a wstate_scheme, Bits) prog" where
  "read_ne1_entries os d bits [] entrybits absbits = ret absbits"
| "read_ne1_entries os d bits ((code, mx, kind) # types) entrybits absbits =
     (case get_bit bits code of
        None \<Rightarrow> undef
      | Some False \<Rightarrow> read_ne1_entries os d bits types entrybits absbits
      | Some True \<Rightarrow>
          bindP (read_or os (ne1_bytes mx) (''error reading '' @ kind @ '' bits'')) (\<lambda>bs.
          let entry = shrinkTo mx (load_bits (8 * (1 + mx div 8)) bs entrybits) in
          case set_indices entry of None \<Rightarrow> undef | Some is \<Rightarrow>
          thenP (forP (\<lambda>b. setGenericBit os d code b ''failed to set %s bit'') is)
            (if code = EV_ABS then read_ne1_entries os d bits types Bits_empty entry
             else read_ne1_entries os d bits types entry absbits)))"

definition skip_ne1_state :: "os \<Rightarrow> Bits \<Rightarrow> nat \<times> nat \<times> string \<Rightarrow> ('a wstate_scheme, unit) prog" where
  "skip_ne1_state os bits type =
     (case type of (code, mx, kind) \<Rightarrow>
       (case get_bit bits code of
          None \<Rightarrow> undef
        | Some False \<Rightarrow> ret ()
        | Some True \<Rightarrow>
            bindP (read_or os (ne1_bytes mx) (''error reading '' @ kind @ '' state'')) (\<lambda>_. ret ())))"

fun read_ne1_axes :: "os \<Rightarrow> uapi \<Rightarrow> endian \<Rightarrow> Bits \<Rightarrow> OutDevice \<Rightarrow> nat list \<Rightarrow> ('a wstate_scheme, OutDevice) prog" where
  "read_ne1_axes os u e absbits d [] = ret d"
| "read_ne1_axes os u e absbits d (i # is) =
     bindP (read_or os absinfo_size (''failed to read absolute axis '' @ show_nat i)) (\<lambda>ai.
     case get_bit absbits i of
       None \<Rightarrow> undef
     | Some False \<Rightarrow> read_ne1_axes os u e absbits d is
     | Some True \<Rightarrow>
         bindP (setupAbsoluteAxis os u i (absinfo_of_mem e ai) d) (\<lambda>d'.
         read_ne1_axes os u e absbits d' is))"

definition newFromNeteventStream :: "os \<Rightarrow> uapi \<Rightarrow> endian \<Rightarrow> ('a wstate_scheme, OutDevice) prog" where
  "newFromNeteventStream os u e =
     bindP (read_or os 2 ''i/o error'') (\<lambda>szb.
     if unat (of_mem e szb :: 16 word) \<noteq> user_dev_size u
     then raise (DeviceException ''protocol error: struct uinput_user_dev size mismatch'')
     else
     bindP (read_or os name_size ''error reading device name'') (\<lambda>name.
     bindP (read_or os 8 ''error reading device id'') (\<lambda>idb.
     bindP (OutDevice_new os (bytes_str (takeWhile (\<lambda>b. b \<noteq> 0) name)) (id_of_mem e idb)) (\<lambda>d.
     with_device os (Some d)
     (bindP (read_or os (ne1_bytes EV_MAX) ''error reading event bits'') (\<lambda>bs.
      let bits1 = shrinkTo EV_MAX (load_bits (8 * (1 + EV_MAX div 8)) bs Bits_empty) in
      case (if EV_FF < bitcount bits1 then set_bit_to bits1 EV_FF False else Some bits1) of
        None \<Rightarrow> undef
      | Some bits \<Rightarrow>
      (case set_indices bits of None \<Rightarrow> undef | Some evs \<Rightarrow>
       thenP (forP (setEventBit os d) evs)
       (bindP (read_ne1_entries os d bits (ne1_entries u) Bits_empty Bits_empty) (\<lambda>absbits.
        thenP (forP (skip_ne1_state os bits) (ne1_states u))
        (case get_bit bits EV_ABS of
           None \<Rightarrow> undef
         | Some has_abs \<Rightarrow>
             bindP (if has_abs then read_ne1_axes os u e absbits d [0..<ABS_CNT u - 1] else ret d) (\<lambda>d'.
             create os d')))))))))))"

section \<open>What reading an announcement leaves alone\<close>

text \<open>
  \<open>leaves I\<close>: \<open>I\<close> does not depend on what the functions of this file change, namely the
  history, the position in the stream and \<open>gUse_UI_DEV_SETUP\<close>.
\<close>

definition leaves :: "('a wstate_scheme \<Rightarrow> bool) \<Rightarrow> bool" where
  "leaves I \<longleftrightarrow> (\<forall>c r s. I s \<longrightarrow> I (log_call c r s)) \<and>
     (\<forall>n s. I s \<longrightarrow> I (s\<lparr>rdata := drop n (rdata s)\<rparr>)) \<and>
     (\<forall>b s. I s \<longrightarrow> I (s\<lparr>use_setup := b\<rparr>))"

locale stream_invariant =
  fixes I :: "'a wstate_scheme \<Rightarrow> bool"
  assumes leaves: "leaves I"
begin

lemma keeps_W_log: "I s \<Longrightarrow> I (log_call c r s)"
  using leaves by (simp add: leaves_def)

lemma keeps_W_calls:
  "keeps I (do_call os c)" "keeps I (do_open os c)" "keeps I (do_ignore os c)"
  by (auto intro!: keeps_logged keeps_logged_open keeps_W_log simp: log_open_def split: sum.split)

lemma keeps_W_read: "keeps I (read_or os n msg)"
proof -
  have "keeps I (mustRead n)"
  proof (rule keepsI)
    fix s assume "I s"
    then have "I (s\<lparr>rdata := drop n (rdata s)\<rparr>)" "I (s\<lparr>rdata := drop (length (rdata s)) (rdata s)\<rparr>)"
      using leaves unfolding leaves_def by blast+
    then show "I (snd (mustRead n s))" by (simp add: run_simps)
  qed
  then show ?thesis unfolding read_or_def by (auto intro!: keeps_intro)
qed

lemma keeps_W_throw: "keeps I (throw_format os fmt err)"
  by (simp add: throw_format_def keeps_intro)

lemma keeps_W_ctl: "keeps I (out_ctl os fd req fmt)"
  unfolding out_ctl_def by (intro keeps_intro keeps_W_calls keeps_W_throw)

lemma keeps_W_delete: "keeps I (OutDevice_delete os d)"
  unfolding OutDevice_delete_def by (intro keeps_intro keeps_W_calls)

lemma keeps_W_open: "keeps I (open_uinput os paths)"
  by (induction paths) (auto intro!: keeps_intro keeps_W_calls)

lemma keeps_W_new: "keeps I (OutDevice_new os name i)"
proof -
  have "keeps I (modifyP (\<lambda>s. s\<lparr>use_setup := False\<rparr>))"
    using leaves by (intro keeps_modify) (simp add: leaves_def)
  then show ?thesis
    unfolding OutDevice_new_def Let_def by (intro keeps_intro keeps_W_calls keeps_W_open)
qed

lemma keeps_W_assert: "keeps I (assertNotCreated d msg)"
  unfolding assertNotCreated_def by (intro keeps_intro)

lemma keeps_W_event: "keeps I (setEventBit os d type)"
  unfolding setEventBit_def by (intro keeps_intro keeps_W_assert keeps_W_ctl)

lemma keeps_W_generic: "keeps I (setGenericBit os d req b fmt)"
  unfolding setGenericBit_def by (intro keeps_intro keeps_W_calls keeps_W_throw)

lemma keeps_W_axis: "keeps I (setupAbsoluteAxis os u code info d)"
  unfolding setupAbsoluteAxis_def by (intro keeps_intro keeps_W_assert keeps_W_ctl)

lemma keeps_W_create: "keeps I (create os d)"
  unfolding create_def by (intro keeps_intro keeps_W_calls)

lemma keeps_W_write: "keeps I (OutDevice_write os d ie)"
  unfolding OutDevice_write_def by (intro keeps_intro keeps_W_calls)

lemma keeps_W_with: "keeps I m \<Longrightarrow> keeps I (with_device os dev m)"
  unfolding with_device_def by (intro keeps_intro keeps_W_delete)

lemma keeps_W_entries: "keeps I (read_entries os e dev evs entry absbits)"
  by (induction evs arbitrary: entry absbits)
    (auto simp: Let_def intro!: keeps_intro keeps_W_read keeps_W_generic)

lemma keeps_W_axes: "keeps I (read_axes os u e dev is)"
  by (induction "is" arbitrary: dev) (auto intro!: keeps_intro keeps_W_read keeps_W_axis)

lemma keeps_newFromNE2AddCommand: "keeps I (newFromNE2AddCommand os u e pkt skip)"
  unfolding newFromNE2AddCommand_def Let_def
  by (intro keeps_intro keeps_W_with keeps_W_read keeps_W_new keeps_W_event keeps_W_entries
      keeps_W_axes keeps_W_create keeps_W_calls)

lemma keeps_W_ne1_entries: "keeps I (read_ne1_entries os d bits types entry absbits)"
proof (induction types arbitrary: entry absbits)
  case (Cons t types)
  obtain code mx kind where t: "t = (code, mx, kind)" by (cases t)
  show ?case
    unfolding t read_ne1_entries.simps Let_def
    by (auto intro!: keeps_intro keeps_W_read keeps_W_generic Cons split: option.split bool.split)
qed (simp add: keeps_intro)

lemma keeps_W_ne1_state: "keeps I (skip_ne1_state os bits type)"
  unfolding skip_ne1_state_def
  by (auto intro!: keeps_intro keeps_W_read split: prod.split option.split bool.split)

lemma keeps_W_ne1_axes: "keeps I (read_ne1_axes os u e absbits d is)"
  by (induction "is" arbitrary: d)
    (auto intro!: keeps_intro keeps_W_read keeps_W_axis split: option.split bool.split)

lemma keeps_newFromNeteventStream: "keeps I (newFromNeteventStream os u e)"
  unfolding newFromNeteventStream_def Let_def
  by (intro keeps_intro keeps_W_with keeps_W_read keeps_W_new keeps_W_event keeps_W_ne1_entries
      keeps_W_ne1_state keeps_W_ne1_axes keeps_W_create keeps_W_calls)

end

section \<open>What the constructors return\<close>

lemma returns_create: "returns created (create os d)"
  unfolding create_def by (intro returns_intro) simp

lemma returns_with: "returns Q m \<Longrightarrow> returns Q (with_device os dev m)"
  unfolding with_device_def by (intro returns_intro)

text \<open>A device that is returned has been created; with \<open>skip\<close> there is none.\<close>

lemma returns_bind_from:
  assumes "returns P m" and "\<And>x. P x \<Longrightarrow> returns Q (f x)"
  shows "returns Q (bindP m f)"
  using assms unfolding returns_def run_bind by (fastforce split: prod.splits outcome.splits)

lemma returns_newFromNE2AddCommand:
  "returns (\<lambda>r. case r of None \<Rightarrow> True | Some d \<Rightarrow> created d) (newFromNE2AddCommand os u e pkt skip)"
  unfolding newFromNE2AddCommand_def Let_def
  by (intro returns_intro returns_with returns_bind_from [OF returns_create]) simp_all

lemma returns_newFromNeteventStream: "returns created (newFromNeteventStream os u e)"
  unfolding newFromNeteventStream_def Let_def
  by (intro returns_intro returns_with returns_create)

section \<open>No fuel is needed\<close>

lemma settles_W_basic [settles_intro]:
  "settles (read_or os n msg)" "settles (throw_format os fmt err)" "settles (out_ctl os fd req fmt)"
  "settles (OutDevice_delete os d)" "settles (assertNotCreated d msg)"
  "settles (OutDevice_write os d ie)"
  unfolding read_or_def throw_format_def out_ctl_def OutDevice_delete_def assertNotCreated_def
    OutDevice_write_def
  by (intro settles_intro)+

lemma settles_W_open [settles_intro]: "settles (open_uinput os paths)"
  by (induction paths) (auto intro!: settles_intro)

lemma settles_W_device [settles_intro]:
  "settles (OutDevice_new os name i)" "settles (setEventBit os d type)"
  "settles (setGenericBit os d req b fmt)" "settles (setupAbsoluteAxis os u code info d)"
  "settles (create os d)" "settles m \<Longrightarrow> settles (with_device os dev m)"
  unfolding OutDevice_new_def setEventBit_def setGenericBit_def setupAbsoluteAxis_def create_def
    with_device_def Let_def
  by (intro settles_intro | assumption)+

lemma settles_W_entries [settles_intro]: "settles (read_entries os e dev evs entry absbits)"
  by (induction evs arbitrary: entry absbits) (auto simp: Let_def intro!: settles_intro)

lemma settles_W_axes [settles_intro]: "settles (read_axes os u e dev is)"
  by (induction "is" arbitrary: dev) (auto intro!: settles_intro)

lemma settles_newFromNE2AddCommand [settles_intro]: "settles (newFromNE2AddCommand os u e pkt skip)"
  unfolding newFromNE2AddCommand_def Let_def by (intro settles_intro)

end
