(* ===== verification/Announce.thy ===== *)
theory Announce
  imports Reader Writer
begin

text \<open>
  The announcement of a device from end to end: what \<open>InDevice::writeNE2AddDevice\<close> puts on
  the wire is read back by \<open>OutDevice::newFromNE2AddCommand\<close>, on a host of either byte
  order, as a device with the same name, id, event types, codes and axes.
\<close>

section \<open>Programs that read a stream and make calls that succeed\<close>

text \<open>
  \<open>consumes us m bs r cs\<close>: with \<open>gUse_UI_DEV_SETUP = us\<close> and a stream that starts with
  \<open>bs\<close>, \<open>m\<close> returns \<open>r\<close>, has read exactly \<open>bs\<close>, and has made the calls \<open>cs\<close>,
  all of them successful.
\<close>

definition consumes :: "bool \<Rightarrow> ('a wstate_scheme, 'b) prog \<Rightarrow> byte list \<Rightarrow> 'b \<Rightarrow> call list \<Rightarrow> bool" where
  "consumes us m bs r cs \<longleftrightarrow>
     (\<forall>s rest. use_setup s = us \<and> rdata s = bs @ rest \<longrightarrow>
        m s = (Ret r, s\<lparr>rdata := rest, history := history s @ map (\<lambda>c. (c, None)) cs\<rparr>))"

text \<open>A kernel that grants every request; a new descriptor is \<open>fd\<close>.\<close>

definition accepting :: "os \<Rightarrow> int \<Rightarrow> bool" where
  "accepting os fd \<longleftrightarrow> (\<forall>h c. os_call os h c = None) \<and> (\<forall>h c. os_open os h c = Inr fd)"

lemma consumes_ret: "consumes us (ret r) [] r []"
  by (simp add: consumes_def run_simps)

lemma consumes_bind:
  fixes m :: "('a wstate_scheme, 'b) prog" and f :: "'b \<Rightarrow> ('a wstate_scheme, 'c) prog"
  assumes "consumes us m bs x cs" and "consumes us (f x) bs' y cs'"
  shows "consumes us (bindP m f) (bs @ bs') y (cs @ cs')"
  unfolding consumes_def
proof (intro allI impI)
  fix s :: "'a wstate_scheme" and rest
  assume s: "use_setup s = us \<and> rdata s = (bs @ bs') @ rest"
  let ?s = "s\<lparr>rdata := bs' @ rest, history := history s @ map (\<lambda>c. (c, None)) cs\<rparr>"
  have "m s = (Ret x, ?s)" using assms(1) s by (simp add: consumes_def)
  moreover have "f x ?s = (Ret y, ?s\<lparr>rdata := rest, history := history ?s @ map (\<lambda>c. (c, None)) cs'\<rparr>)"
    using assms(2) s by (simp add: consumes_def)
  ultimately show "bindP m f s = (Ret y, s\<lparr>rdata := rest,
      history := history s @ map (\<lambda>c. (c, None)) (cs @ cs')\<rparr>)"
    by (simp add: run_simps)
qed

lemma consumes_eq: "consumes us m bs r cs \<Longrightarrow> bs = bs' \<Longrightarrow> cs = cs' \<Longrightarrow> consumes us m bs' r cs'"
  by simp

lemma consumes_then:
  "consumes us m bs x cs \<Longrightarrow> consumes us n bs' y cs' \<Longrightarrow> consumes us (thenP m n) (bs @ bs') y (cs @ cs')"
  unfolding thenP_def by (rule consumes_bind)

lemma consumes_calls_then:
  "consumes us m [] x cs \<Longrightarrow> consumes us n bs y cs' \<Longrightarrow> consumes us (thenP m n) bs y (cs @ cs')"
  using consumes_then [of us m "[]"] by fastforce

lemma consumes_calls_bind:
  "consumes us m [] x cs \<Longrightarrow> consumes us (f x) bs y cs' \<Longrightarrow> consumes us (bindP m f) bs y (cs @ cs')"
  using consumes_bind [of us m "[]"] by fastforce

lemma consumes_for:
  "(\<And>x. x \<in> set xs \<Longrightarrow> consumes us (f x) [] () (g x)) \<Longrightarrow>
   consumes us (forP f xs) [] () (concat (map g xs))"
proof (induction xs)
  case Nil
  then show ?case by (simp add: consumes_ret)
next
  case (Cons x xs)
  then show ?case by (auto intro: consumes_calls_then)
qed

lemma consumes_read: "length bs = n \<Longrightarrow> consumes us (read_or os n msg) bs bs []"
  by (auto simp: consumes_def read_or_def run_simps)

lemma consumes_read_bind:
  "length bs = n \<Longrightarrow> consumes us (f bs) bs' y cs \<Longrightarrow>
   consumes us (bindP (read_or os n msg) f) (bs @ bs') y cs"
  using consumes_bind [OF consumes_read] by fastforce

lemma consumes_call:
  "accepting os fd \<Longrightarrow> consumes us (do_call os c) [] None [c]"
  by (auto simp: consumes_def accepting_def run_simps log_call_def)

lemma consumes_call_bind:
  "accepting os fd \<Longrightarrow> consumes us (f None) bs y cs \<Longrightarrow>
   consumes us (bindP (do_call os c) f) bs y (c # cs)"
  using consumes_calls_bind [OF consumes_call] by fastforce

lemma consumes_with_device:
  "consumes us m bs r cs \<Longrightarrow> consumes us (with_device os dev m) bs r cs"
  by (auto simp: consumes_def with_device_def run_simps)

lemma consumes_get: "consumes us (getP use_setup) [] us []"
  by (simp add: consumes_def run_simps)

lemma consumes_get_bind:
  "consumes us (f us) bs y cs \<Longrightarrow> consumes us (bindP (getP use_setup) f) bs y cs"
  using consumes_calls_bind [OF consumes_get] by fastforce

section \<open>The steps of the receiver\<close>

lemma consumes_out_ctl:
  "accepting os fd \<Longrightarrow> consumes us (out_ctl os fd' req fmt) [] () [Ioctl fd' req]"
  unfolding out_ctl_def by (rule consumes_call_bind) (simp_all add: consumes_ret)

lemma consumes_setEventBit:
  "accepting os fd \<Longrightarrow> \<not> created d \<Longrightarrow>
   consumes us (setEventBit os d ev) [] () [Ioctl (out_fd d) (UI_SET_EVBIT ev)]"
  unfolding setEventBit_def assertNotCreated_def
  using consumes_calls_then [OF consumes_ret consumes_out_ctl] by fastforce

lemma consumes_setGenericBit:
  assumes "accepting os fd" and "\<not> created d"
  shows "consumes us (setGenericBit os d req b fmt) [] () [Ioctl (out_fd d) (UI_SET_BIT req b)]"
proof -
  have "consumes us (bindP (do_call os (Ioctl (out_fd d) (UI_SET_BIT req b)))
      (\<lambda>r. case r of None \<Rightarrow> ret () | Some err \<Rightarrow> throw_format os fmt err)) [] ()
      [Ioctl (out_fd d) (UI_SET_BIT req b)]"
    by (rule consumes_call_bind [OF assms(1)]) (simp add: consumes_ret)
  with assms(2) show ?thesis by (simp add: setGenericBit_def)
qed

text \<open>What \<open>setupAbsoluteAxis\<close> does, with the ioctl or into the arrays.\<close>

definition axis_call :: "bool \<Rightarrow> int \<Rightarrow> (nat \<Rightarrow> absinfo) \<Rightarrow> nat \<Rightarrow> call list" where
  "axis_call us fd axis i = (if us then [Ioctl fd (UI_ABS_SETUP i (axis i))] else [])"

definition axis_store :: "bool \<Rightarrow> (nat \<Rightarrow> absinfo) \<Rightarrow> nat list \<Rightarrow> OutDevice \<Rightarrow> OutDevice" where
  "axis_store us axis is d = (if us then d else foldl (\<lambda>d i. store_axis i (axis i) d) d is)"

lemma store_axis_frame [simp]:
  "out_fd (store_axis i a d) = out_fd d" "created (store_axis i a d) = created d"
  by (simp_all add: store_axis_def)

lemma axis_store_frame [simp]:
  "out_fd (axis_store us axis is d) = out_fd d" "created (axis_store us axis is d) = created d"
proof -
  have "out_fd (foldl (\<lambda>d i. store_axis i (axis i) d) d is) = out_fd d \<and>
      created (foldl (\<lambda>d i. store_axis i (axis i) d) d is) = created d" for d
    by (induction "is" arbitrary: d) auto
  then show "out_fd (axis_store us axis is d) = out_fd d"
    "created (axis_store us axis is d) = created d"
    by (simp_all add: axis_store_def)
qed

lemma consumes_setupAbsoluteAxis:
  assumes "accepting os fd" and "\<not> created d" and "us \<or> i < ABS_CNT u"
  shows "consumes us (setupAbsoluteAxis os u i a d) [] (if us then d else store_axis i a d)
    (if us then [Ioctl (out_fd d) (UI_ABS_SETUP i a)] else [])"
proof -
  have 1: "consumes us (assertNotCreated d ''trying to set absolute axis'') [] () []"
    using assms(2) by (simp add: assertNotCreated_def consumes_ret)
  have 2: "consumes True (thenP (out_ctl os (out_fd d) (UI_ABS_SETUP i a)
      ''failed to setup device axis information'') (ret d)) [] d [Ioctl (out_fd d) (UI_ABS_SETUP i a)]"
    using consumes_calls_then [OF consumes_out_ctl [OF assms(1)] consumes_ret] by fastforce
  have "consumes us (setupAbsoluteAxis os u i a d) [] (if us then d else store_axis i a d)
    ([] @ (if us then [Ioctl (out_fd d) (UI_ABS_SETUP i a)] else []))"
    unfolding setupAbsoluteAxis_def
    by (rule consumes_calls_then [OF 1], rule consumes_get_bind)
      (use 2 assms(3) in \<open>auto simp: consumes_ret\<close>)
  then show ?thesis by simp
qed

lemma consumes_axes:
  assumes acc: "accepting os fd"
  shows "(\<forall>d. dev = Some d \<longrightarrow> \<not> created d) \<Longrightarrow> us \<or> (\<forall>i\<in>set is. i < ABS_CNT u) \<Longrightarrow>
    consumes us (read_axes os u e' dev is :: ('a wstate_scheme, OutDevice option) prog)
      (concat (map (\<lambda>i. absinfo_net e (axis i)) is))
      (map_option (axis_store us axis is) dev)
      (case dev of None \<Rightarrow> [] | Some d \<Rightarrow> concat (map (axis_call us (out_fd d) axis) is))"
proof (induction "is" arbitrary: dev)
  case Nil
  have "axis_store us axis [] = id" by (simp add: axis_store_def fun_eq_iff)
  then show ?case by (simp add: consumes_ret option.map_id0 split: option.split)
next
  case (Cons i "is")
  have len: "length (absinfo_net e (axis i)) = absinfo_size"
    by (simp add: net_absinfo.length_enc absinfo_size_def)
  have dec: "absinfo_of_net e' (absinfo_net e (axis i)) = axis i"
    by (rule net_absinfo.dec_enc)
  show ?case
  proof (cases dev)
    case None
    have "consumes us (read_axes os u e' None is :: ('a wstate_scheme, OutDevice option) prog)
        (concat (map (\<lambda>i. absinfo_net e (axis i)) is)) None []"
      using Cons.IH [of None] Cons.prems by auto
    then show ?thesis
      unfolding None read_axes.simps(2) list.map concat.simps option.map option.case
      by (rule consumes_read_bind [OF len])
  next
    case (Some d)
    let ?d = "if us then d else store_axis i (axis i) d"
    have nc: "\<not> created d" "\<not> created ?d" and fd: "out_fd ?d = out_fd d"
      using Cons.prems Some by auto
    have rest: "consumes us (read_axes os u e' (Some ?d) is :: ('a wstate_scheme, OutDevice option) prog)
        (concat (map (\<lambda>i. absinfo_net e (axis i)) is))
        (Some (axis_store us axis is ?d)) (concat (map (axis_call us (out_fd d) axis) is))"
      using Cons.IH [of "Some ?d"] Cons.prems nc fd by auto
    have store: "axis_store us axis is ?d = axis_store us axis (i # is) d"
      by (simp add: axis_store_def)
    have call: "(if us then [Ioctl (out_fd d) (UI_ABS_SETUP i (axis i))] else []) =
        axis_call us (out_fd d) axis i"
      by (simp add: axis_call_def)
    have "us \<or> i < ABS_CNT u" using Cons.prems by auto
    note step = consumes_setupAbsoluteAxis [OF acc nc(1) this, of "axis i", unfolded call]
    show ?thesis
      unfolding Some read_axes.simps(2) list.map concat.simps option.map option.case store [symmetric]
      by (rule consumes_read_bind [OF len], unfold option.case dec,
          rule consumes_calls_bind, rule step, rule rest)
  qed
qed

lemma load_bits_eq: "length bs = byte_size n \<Longrightarrow> load_bits n bs b = bits_of n bs"
proof -
  assume len: "length bs = byte_size n"
  obtain r b' where rb: "resize (Some (\<lambda>_. 0)) n b = (r, b')" by fastforce
  note ok = resize_ok [OF rb]
  have "b'\<lparr>data := bs\<rparr> = bits_of n bs" using ok(2) by (cases b') (simp add: bits_of_def)
  with rb ok(3) len show ?thesis by (simp add: load_bits_def)
qed

lemma bits_of_valid: "length bs = byte_size n \<Longrightarrow> valid (bits_of n bs)"
  by (simp add: valid_def bits_of_def)

lemma set_indices_bits_of:
  "length bs = byte_size n \<Longrightarrow> set_indices (bits_of n bs) = Some (filter (get_ok (bits_of n bs)) [0..<n])"
  using set_indices_valid [OF bits_of_valid] by (simp add: bits_of_def)

text \<open>The codes of an event type the device has.\<close>

definition ones :: "uapi \<Rightarrow> (nat \<Rightarrow> byte list) \<Rightarrow> nat \<Rightarrow> nat list" where
  "ones u entries ev =
     filter (get_ok (bits_of (entry_count u ev) (entries ev))) [0..<entry_count u ev]"

definition bit_calls :: "int \<Rightarrow> uapi \<Rightarrow> (nat \<Rightarrow> byte list) \<Rightarrow> nat \<Rightarrow> call list" where
  "bit_calls fd u entries ev = map (\<lambda>b. Ioctl fd (UI_SET_BIT ev b)) (ones u entries ev)"

lemma kUISetBitIOC_Some: "kUISetBitIOC ev = Some ioc \<Longrightarrow> ioc = ev"
  by (simp add: kUISetBitIOC_def split: if_splits)

lemma get_put_count:
  "uapi_ok u \<Longrightarrow> unat (get_be e' 2 (put_be e 2 (word_of_nat (entry_count u ev) :: 16 word)) :: 16 word) =
     entry_count u ev"
  using entry_count_16 [of u ev] by (simp add: get_put_be unat_of_nat take_bit_eq_mod)

lemma consumes_entries:
  assumes acc: "accepting os fd" and ok: "uapi_ok u"
    and len: "\<And>ev. length (entries ev) = byte_size (entry_count u ev)"
    and nc: "\<forall>d. dev = Some d \<longrightarrow> \<not> created d"
  shows "consumes us (read_entries os e' dev evs entry absbits :: ('a wstate_scheme, Bits) prog)
      (concat (map (\<lambda>ev. put_be e 2 (word_of_nat (entry_count u ev) :: 16 word) @ entries ev)
        (filter (\<lambda>ev. kUISetBitIOC ev \<noteq> None) evs)))
      (if EV_ABS \<in> set evs then bits_of (entry_count u EV_ABS) (entries EV_ABS) else absbits)
      (case dev of None \<Rightarrow> []
       | Some d \<Rightarrow> concat (map (bit_calls (out_fd d) u entries)
           (filter (\<lambda>ev. kUISetBitIOC ev \<noteq> None) evs)))"
proof (induction evs arbitrary: entry absbits)
  case Nil
  then show ?case by (simp add: consumes_ret split: option.split)
next
  case (Cons ev evs)
  show ?case
  proof (cases "kUISetBitIOC ev")
    case None
    moreover from None have "ev \<noteq> EV_ABS" by (auto simp: kUISetBitIOC_def)
    ultimately show ?thesis using Cons None by (cases dev) auto
  next
    case (Some ioc)
    then have ioc: "ioc = ev" by (rule kUISetBitIOC_Some)
    let ?n = "entry_count u ev"
    let ?entry = "bits_of ?n (entries ev)"
    let ?all = "if EV_ABS \<in> set evs then bits_of (entry_count u EV_ABS) (entries EV_ABS)
                else (if ev = EV_ABS then ?entry else absbits)"
    let ?rest = "concat (map (\<lambda>ev. put_be e 2 (word_of_nat (entry_count u ev) :: 16 word) @ entries ev)
        (filter (\<lambda>ev. kUISetBitIOC ev \<noteq> None) evs))"
    let ?calls = "case dev of None \<Rightarrow> []
       | Some d \<Rightarrow> concat (map (bit_calls (out_fd d) u entries)
           (filter (\<lambda>ev. kUISetBitIOC ev \<noteq> None) evs))"
    have count: "unat (get_be e' 2 (put_be e 2 (word_of_nat ?n :: 16 word)) :: 16 word) = ?n"
      by (rule get_put_count [OF ok])
    have load: "load_bits ?n (entries ev) entry = ?entry" by (rule load_bits_eq [OF len])
    have rest: "consumes us (if ev = EV_ABS then read_entries os e' dev evs Bits_empty ?entry
             else read_entries os e' dev evs ?entry absbits :: ('a wstate_scheme, Bits) prog)
        ?rest ?all ?calls"
    proof (cases "ev = EV_ABS")
      case True
      show ?thesis unfolding if_P [OF True] by (rule Cons.IH)
    next
      case False
      show ?thesis unfolding if_not_P [OF False] by (rule Cons.IH)
    qed
    have set: "consumes us ((case dev of None \<Rightarrow> ret ()
             | Some d \<Rightarrow> (case set_indices ?entry of None \<Rightarrow> undef
                 | Some is \<Rightarrow> forP (\<lambda>b. setGenericBit os d ev b ''failed to set %zu bit %zu'') is))
             :: ('a wstate_scheme, unit) prog)
        [] () (case dev of None \<Rightarrow> [] | Some d \<Rightarrow> bit_calls (out_fd d) u entries ev)"
    proof (cases dev)
      case None
      then show ?thesis by (simp add: consumes_ret)
    next
      case (Some d)
      then have "\<not> created d" using nc by simp
      have "consumes us (forP (\<lambda>b. setGenericBit os d ev b ''failed to set %zu bit %zu'')
          (ones u entries ev) :: ('a wstate_scheme, unit) prog) [] ()
          (concat (map (\<lambda>b. [Ioctl (out_fd d) (UI_SET_BIT ev b)]) (ones u entries ev)))"
        by (rule consumes_for) (rule consumes_setGenericBit [OF acc \<open>\<not> created d\<close>])
      with Some show ?thesis
        by (simp add: set_indices_bits_of [OF len] ones_def bit_calls_def)
    qed
    have step: "consumes us (read_entries os e' dev (ev # evs) entry absbits :: ('a wstate_scheme, Bits) prog)
        (put_be e 2 (word_of_nat ?n :: 16 word) @ entries ev @ ?rest) ?all
        ((case dev of None \<Rightarrow> [] | Some d \<Rightarrow> bit_calls (out_fd d) u entries ev) @ ?calls)"
      unfolding read_entries.simps(2) Some option.case Let_def ioc
      by (rule consumes_read_bind, simp, unfold count, rule consumes_read_bind [OF len],
          unfold load, rule consumes_calls_then [OF set rest])
    have all: "?all = (if EV_ABS \<in> set (ev # evs)
        then bits_of (entry_count u EV_ABS) (entries EV_ABS) else absbits)" by auto
    from step show ?thesis
      unfolding all using Some by (cases dev) (simp_all del: read_entries.simps)
  qed
qed

section \<open>The device the receiver makes\<close>

lemma add_packet_fields [codec_simps]:
  "length (add_packet u e dev) = 28"
  "field 0 2 (add_packet u e dev) = be_bytes 2 cmd_AddDevice"
  "field 2 2 (add_packet u e dev) = be_bytes 2 dev"
  "field 4 2 (add_packet u e dev) = be_bytes 2 (word_of_nat (user_dev_size u) :: 16 word)"
  "field 6 2 (add_packet u e dev) = be_bytes 2 (word_of_nat name_size :: 16 word)"
  by (simp_all add: add_packet_def set16_def Let_def put_def field_def mem_of_hton)

lemma get_be_be_bytes [codec_simps]:
  "8 * n = LENGTH('a) \<Longrightarrow> get_be e n (be_bytes n (w :: 'a::len word)) = w"
  by (simp add: get_be_def hton_of_mem_be)

text \<open>The name in the object: a C string shorter than the field, padded with zeros.\<close>

definition padded_name :: "byte list \<Rightarrow> string \<Rightarrow> bool" where
  "padded_name bs n \<longleftrightarrow> NUL \<notin> set n \<and> length n < name_size \<and>
     bs = str_bytes n @ replicate (name_size - length n) 0"

lemma padded_name_read:
  assumes "padded_name bs n"
  shows "bytes_str (takeWhile (\<lambda>b. b \<noteq> 0) bs) = n"
proof -
  have "takeWhile (\<lambda>b. b \<noteq> 0) (replicate m (0::byte)) = []" for m by (cases m) simp_all
  with assms show ?thesis by (auto simp: padded_name_def takeWhile_str_bytes)
qed

text \<open>The events whose \<open>UI_SET_EVBIT\<close> the receiver issues.\<close>

definition enabled_events :: "Bits \<Rightarrow> nat list" where
  "enabled_events b = filter (\<lambda>ev. ev \<noteq> EV_FF) (filter (get_ok b) [0..<bitcount b])"

definition new_user_dev :: "byte list \<Rightarrow> input_id \<Rightarrow> uinput_user_dev" where
  "new_user_dev name i = \<lparr>ud_name = name, ud_id = i, ud_absmax = [], ud_absmin = [],
     ud_absfuzz = [], ud_absflat = []\<rparr>"

text \<open>
  The device the receiver ends up with, and the calls it makes for it: open the node, set it
  up, enable every event type but force feedback, every code of every type and, with the
  newer interface, every axis; then create it.
\<close>

definition received_device ::
    "bool \<Rightarrow> int \<Rightarrow> uapi \<Rightarrow> InDevice \<Rightarrow> (nat \<Rightarrow> byte list) \<Rightarrow> (nat \<Rightarrow> absinfo) \<Rightarrow> OutDevice" where
  "received_device us fd u d entries axis =
     axis_store us axis (abs_axes u (evbits d) entries)
       \<lparr>out_fd = fd, user_dev = new_user_dev (dev_name d) (dev_id d), created = False\<rparr>"

definition received_calls ::
    "bool \<Rightarrow> int \<Rightarrow> uapi \<Rightarrow> InDevice \<Rightarrow> (nat \<Rightarrow> byte list) \<Rightarrow> (nat \<Rightarrow> absinfo) \<Rightarrow> call list" where
  "received_calls us fd u d entries axis =
     [Open ''/dev/uinput'', GotFd fd] @
     (if us then [Ioctl fd (UI_DEV_SETUP (dev_name d) (dev_id d))] else []) @
     map (\<lambda>ev. Ioctl fd (UI_SET_EVBIT ev)) (enabled_events (evbits d)) @
     concat (map (bit_calls fd u entries) (typed_events (evbits d))) @
     concat (map (axis_call us fd axis) (abs_axes u (evbits d) entries)) @
     (if us then [] else [WriteUserDev fd (user_dev (received_device us fd u d entries axis))]) @
     [Ioctl fd UI_DEV_CREATE]"

lemma consumes_open:
  "accepting os fd \<Longrightarrow> consumes us (do_open os c) [] (Inr fd) [c, GotFd fd]"
  by (auto simp: consumes_def accepting_def run_simps log_call_def log_open_def)

lemma consumes_open_uinput:
  "accepting os fd \<Longrightarrow> consumes us (open_uinput os gDevicePaths) [] fd [Open ''/dev/uinput'', GotFd fd]"
  unfolding gDevicePaths_def open_uinput.simps
  by (rule consumes_eq, rule consumes_calls_bind, erule consumes_open, unfold sum.case, rule consumes_ret)
    simp_all

lemma consumes_OutDevice_new:
  assumes acc: "accepting os fd" and n: "padded_name bs n"
  shows "consumes us (OutDevice_new os n i) []
    \<lparr>out_fd = fd, user_dev = new_user_dev bs i, created = False\<rparr>
    (Open ''/dev/uinput'' # GotFd fd # (if us then [Ioctl fd (UI_DEV_SETUP bs i)] else []))"
proof -
  let ?d = "\<lparr>out_fd = fd, user_dev = new_user_dev bs i, created = False\<rparr>"
  have d: "\<lparr>out_fd = fd, user_dev = \<lparr>ud_name = str_bytes n @ replicate (name_size - length n) 0,
      ud_id = i, ud_absmax = [], ud_absmin = [], ud_absfuzz = [], ud_absflat = []\<rparr>,
      created = False\<rparr> = ?d"
    using n by (simp add: padded_name_def new_user_dev_def)
  have name: "ud_name (user_dev ?d) = bs" by (simp add: new_user_dev_def)
  have short: "\<not> length n \<ge> name_size" using n by (simp add: padded_name_def)
  have ioc: "consumes True (bindP (do_call os (Ioctl fd (UI_DEV_SETUP bs i))) (\<lambda>r. case r of
        None \<Rightarrow> ret ?d
      | Some err \<Rightarrow> if err = EINVAL then thenP (modifyP (\<lambda>s. s\<lparr>use_setup := False\<rparr>)) (ret ?d)
          else throw_errno (os_strerror os) ''failed to setup uinput device'' err)) [] ?d
      [Ioctl fd (UI_DEV_SETUP bs i)]"
    by (rule consumes_call_bind [OF acc]) (simp add: consumes_ret)
  have "consumes us (OutDevice_new os n i) [] ?d
      ([Open ''/dev/uinput'', GotFd fd] @ (if us then [Ioctl fd (UI_DEV_SETUP bs i)] else []))"
    unfolding OutDevice_new_def if_not_P [OF short]
    by (rule consumes_calls_bind [OF consumes_open_uinput [OF acc]], unfold Let_def d name,
        rule consumes_get_bind)
      (use ioc in \<open>cases us, simp_all add: consumes_ret\<close>)
  then show ?thesis by simp
qed

lemma consumes_create:
  assumes acc: "accepting os fd"
  shows "consumes us (create os d) [] (d\<lparr>created := True\<rparr>)
    ((if us then [] else [WriteUserDev (out_fd d) (user_dev d)]) @ [Ioctl (out_fd d) UI_DEV_CREATE])"
  unfolding create_def
proof (rule consumes_get_bind, rule consumes_calls_bind)
  show "consumes us (if us then ret None else do_call os (WriteUserDev (out_fd d) (user_dev d))) []
    None (if us then [] else [WriteUserDev (out_fd d) (user_dev d)])"
    by (simp add: consumes_ret consumes_call [OF acc])
qed (simp, rule consumes_call_bind [OF acc], simp add: consumes_ret)

text \<open>What the reading of an announcement takes for granted of its parts.\<close>

definition announceable :: "InDevice \<Rightarrow> string \<Rightarrow> uapi \<Rightarrow> (nat \<Rightarrow> byte list) \<Rightarrow> bool" where
  "announceable d n u entries \<longleftrightarrow> InDevice_ok d \<and> padded_name (dev_name d) n \<and> uapi_ok u \<and>
     (\<forall>ev. length (entries ev) = byte_size (entry_count u ev))"

definition same_layout :: "uapi \<Rightarrow> uapi \<Rightarrow> bool" where
  "same_layout u u' \<longleftrightarrow> user_dev_size u' = user_dev_size u"

lemma same_layout_ABS: "same_layout u u' \<Longrightarrow> ABS_CNT u' = ABS_CNT u"
  by (simp add: same_layout_def user_dev_size_def)

text \<open>The announcement after its packet, as the stream has it.\<close>

definition ne2_add_rest :: "uapi \<Rightarrow> endian \<Rightarrow> InDevice \<Rightarrow> (nat \<Rightarrow> byte list) \<Rightarrow> (nat \<Rightarrow> absinfo) \<Rightarrow> byte list" where
  "ne2_add_rest u e d entries axis =
     dev_name d @ id_net e (dev_id d) @ put_be e 2 (word_of_nat EV_MAX :: 16 word) @
     data (evbits d) @ ne2_add_body u e d entries axis"

lemma announcement_split:
  "InDevice_ok d \<Longrightarrow> ne2_add_header u e d dev @ ne2_add_body u e d entries axis =
     add_packet u e dev @ ne2_add_rest u e d entries axis"
  by (simp add: ne2_add_header_def ne2_add_rest_def InDevice_ok_def)

lemma bits_of_data: "bitcount b = n \<Longrightarrow> bits_of n (data b) = b"
  by (cases b) (simp add: bits_of_def)

lemma add_packet_checks:
  assumes "uapi_ok u" and "same_layout u u'"
  shows "pkt_cmd e' (add_to_host e' (cmd_to_host e' (add_packet u e dev))) = cmd_AddDevice"
    "unat (add_info_size e' (add_to_host e' (cmd_to_host e' (add_packet u e dev)))) = user_dev_size u'"
    "unat (add_name_size e' (add_to_host e' (cmd_to_host e' (add_packet u e dev)))) = name_size"
  using user_dev_size_16 [OF assms(1)] assms(2)
  by (simp_all add: host_fields add_packet_fields get_be_be_bytes unat_of_nat take_bit_eq_mod
      same_layout_def name_size_def)

text \<open>The part of the reading that is the same whether a device is made or skipped.\<close>

lemma consumes_body:
  assumes acc: "accepting os fd" and ok: "announceable d n u entries" and lay: "same_layout u u'"
    and nc: "\<forall>x. dev = Some x \<longrightarrow> \<not> created x"
    and ax: "us \<or> (\<forall>i\<in>set (abs_axes u (evbits d) entries). i < ABS_CNT u)"
    and fin: "consumes us ((case map_option (axis_store us axis (abs_axes u (evbits d) entries)) dev of
        None \<Rightarrow> ret None | Some d \<Rightarrow> bindP (create os d) (\<lambda>d'. ret (Some d')))
        :: ('a wstate_scheme, OutDevice option) prog) [] res cs"
  shows "consumes us ((bindP (read_entries os e' dev (filter (get_ok (evbits d)) [0..<EV_MAX]) Bits_empty Bits_empty) (\<lambda>absbits.
        case set_indices absbits of None \<Rightarrow> undef | Some axes \<Rightarrow>
        bindP (read_axes os u' e' dev axes) (\<lambda>dev'.
        bindP (read_or os (byte_size EV_MAX) ''failed to read state bitfield'') (\<lambda>st.
        case set_indices (load_bits EV_MAX st Bits_empty) of None \<Rightarrow> undef | Some sts \<Rightarrow>
        thenP (whenP (sts \<noteq> []) (do_ignore os (Stderr (''got unexpected state bits'' @ [NL]))))
        (case dev' of None \<Rightarrow> ret None
         | Some d \<Rightarrow> bindP (create os d) (\<lambda>d'. ret (Some d'))))))) :: ('a wstate_scheme, OutDevice option) prog)
    (ne2_add_body u e d entries axis) res
    ((case dev of None \<Rightarrow> []
      | Some x \<Rightarrow> concat (map (bit_calls (out_fd x) u entries) (typed_events (evbits d)))) @
     (case dev of None \<Rightarrow> []
      | Some x \<Rightarrow> concat (map (axis_call us (out_fd x) axis) (abs_axes u (evbits d) entries))) @ cs)"
proof -
  let ?evs = "filter (get_ok (evbits d)) [0..<EV_MAX]"
  let ?axes = "abs_axes u (evbits d) entries"
  let ?abs = "if EV_ABS \<in> set ?evs then bits_of (entry_count u EV_ABS) (entries EV_ABS) else Bits_empty"
  have uok: "uapi_ok u" and dok: "InDevice_ok d" and len: "\<And>ev. length (entries ev) = byte_size (entry_count u ev)"
    using ok by (simp_all add: announceable_def)
  have cnt: "bitcount (evbits d) = EV_MAX" using dok by (simp add: InDevice_ok_def)
  have typed: "typed_events (evbits d) = filter (\<lambda>ev. kUISetBitIOC ev \<noteq> None) ?evs"
    by (simp add: typed_events_def cnt)
  have abs_in: "EV_ABS \<in> set ?evs \<longleftrightarrow> EV_ABS \<in> set (typed_events (evbits d))"
    by (simp add: typed_events_def kUISetBitIOC_def cnt)
  have axes: "set_indices ?abs = Some ?axes"
    unfolding abs_axes_def abs_in [symmetric]
    by (simp add: set_indices_bits_of [OF len]) (simp add: set_indices_def Bits_empty_def)
  have state: "set_indices (load_bits EV_MAX (replicate (byte_size EV_MAX) 0) Bits_empty) = Some []"
  proof -
    have "\<not> get_ok (bits_of EV_MAX (replicate (byte_size EV_MAX) 0)) i" if "i < EV_MAX" for i
    proof -
      have "i div 8 < 4" using that by simp
      then show ?thesis by (simp add: get_ok_def get_bit_def bits_of_def byte_size_def)
    qed
    then show ?thesis
      by (simp add: load_bits_eq set_indices_bits_of filter_empty_conv)
  qed
  have fin': "consumes us ((bindP (read_or os (byte_size EV_MAX) ''failed to read state bitfield'') (\<lambda>st.
        case set_indices (load_bits EV_MAX st Bits_empty) of None \<Rightarrow> undef | Some sts \<Rightarrow>
        thenP (whenP (sts \<noteq> []) (do_ignore os (Stderr (''got unexpected state bits'' @ [NL]))))
        (case map_option (axis_store us axis ?axes) dev of None \<Rightarrow> ret None
         | Some d \<Rightarrow> bindP (create os d) (\<lambda>d'. ret (Some d'))))) :: ('a wstate_scheme, OutDevice option) prog)
      (replicate (byte_size EV_MAX) 0) res cs"
    by (rule consumes_eq, rule consumes_read_bind [OF length_replicate [of _ 0]], unfold state option.case,
        rule consumes_calls_then [OF _ fin]) (simp_all add: whenP_def consumes_ret)
  show ?thesis
    unfolding ne2_add_body_def typed
  proof (rule consumes_bind [OF consumes_entries [OF acc uok len nc]], unfold axes option.case)
  qed (rule consumes_bind [OF consumes_axes [OF acc nc]],
      use ax same_layout_ABS [OF lay] in simp, rule fin')
qed

lemma consumes_head:
  assumes acc: "accepting os fd" and ok: "announceable d n u entries" and lay: "same_layout u u'"
    and dev: "consumes us ((if skip then ret None
        else bindP (OutDevice_new os n (dev_id d)) (\<lambda>x. ret (Some x)))
        :: ('a wstate_scheme, OutDevice option) prog) [] dv cs0"
    and nc: "\<forall>x. dv = Some x \<longrightarrow> \<not> created x"
    and ax: "us \<or> (\<forall>i\<in>set (abs_axes u (evbits d) entries). i < ABS_CNT u)"
    and fin: "consumes us ((case map_option (axis_store us axis (abs_axes u (evbits d) entries)) dv of
        None \<Rightarrow> ret None | Some d \<Rightarrow> bindP (create os d) (\<lambda>d'. ret (Some d')))
        :: ('a wstate_scheme, OutDevice option) prog) [] res cs"
  shows "consumes us
      (newFromNE2AddCommand os u' e' (add_to_host e' (cmd_to_host e' (add_packet u e dev))) skip
        :: ('a wstate_scheme, OutDevice option) prog)
      (ne2_add_rest u e d entries axis) res
    (cs0 @
     (case dv of None \<Rightarrow> []
      | Some x \<Rightarrow> map (\<lambda>ev. Ioctl (out_fd x) (UI_SET_EVBIT ev)) (enabled_events (evbits d))) @
     (case dv of None \<Rightarrow> []
      | Some x \<Rightarrow> concat (map (bit_calls (out_fd x) u entries) (typed_events (evbits d)))) @
     (case dv of None \<Rightarrow> []
      | Some x \<Rightarrow> concat (map (axis_call us (out_fd x) axis) (abs_axes u (evbits d) entries))) @ cs)"
proof -
  let ?evs = "filter (get_ok (evbits d)) [0..<EV_MAX]"
  have uok: "uapi_ok u" and dok: "InDevice_ok d" and name: "padded_name (dev_name d) n"
    using ok by (simp_all add: announceable_def)
  have cnt: "bitcount (evbits d) = EV_MAX" and lenb: "length (data (evbits d)) = byte_size EV_MAX"
    and lenn: "length (dev_name d) = name_size"
    using dok by (simp_all add: InDevice_ok_def)
  have evs: "set_indices (load_bits EV_MAX (data (evbits d)) Bits_empty) = Some ?evs"
    using set_indices_valid [OF InDevice_ok_valid [OF dok]]
    by (simp add: load_bits_eq [OF lenb] bits_of_data [OF cnt] cnt)
  have cnt_net: "unat (get_be e' 2 (put_be e 2 (word_of_nat EV_MAX :: 16 word)) :: 16 word) = EV_MAX"
    by (simp add: get_put_be)
  have name': "bytes_str (takeWhile (\<lambda>b. b \<noteq> 0) (dev_name d)) = n"
    by (rule padded_name_read [OF name])
  have idd: "id_of_net e' (id_net e (dev_id d)) = dev_id d" by (rule net_id.dec_enc)
  have lenid: "length (id_net e (dev_id d)) = 8" by (rule net_id.length_enc)
  have enabled: "consumes us ((case dv of None \<Rightarrow> ret ()
        | Some x \<Rightarrow> forP (\<lambda>ev. if ev \<noteq> EV_FF then setEventBit os x ev else ret ()) ?evs)
        :: ('a wstate_scheme, unit) prog) [] ()
      (case dv of None \<Rightarrow> []
       | Some x \<Rightarrow> map (\<lambda>ev. Ioctl (out_fd x) (UI_SET_EVBIT ev)) (enabled_events (evbits d)))"
  proof (cases dv)
    case None
    then show ?thesis by (simp add: consumes_ret)
  next
    case (Some x)
    with nc have ncx: "\<not> created x" by simp
    have "consumes us (forP (\<lambda>ev. if ev \<noteq> EV_FF then setEventBit os x ev else ret ()) ?evs
        :: ('a wstate_scheme, unit) prog) [] ()
        (concat (map (\<lambda>ev. if ev \<noteq> EV_FF then [Ioctl (out_fd x) (UI_SET_EVBIT ev)] else []) ?evs))"
      by (rule consumes_for) (simp add: consumes_setEventBit [OF acc ncx] consumes_ret)
    moreover have "concat (map (\<lambda>ev. if ev \<noteq> EV_FF then [Ioctl (out_fd x) (UI_SET_EVBIT ev)] else []) xs) =
        map (\<lambda>ev. Ioctl (out_fd x) (UI_SET_EVBIT ev)) (filter (\<lambda>ev. ev \<noteq> EV_FF) xs)" for xs
      by (induction xs) auto
    ultimately show ?thesis using Some by (simp add: enabled_events_def cnt)
  qed
  note checks = add_packet_checks [OF uok lay]
  note body = consumes_body [OF acc ok lay nc ax fin]
  show ?thesis
    unfolding newFromNE2AddCommand_def checks ne2_add_rest_def simp_thms if_False
    by (rule consumes_read_bind [OF lenn], unfold name', rule consumes_read_bind [OF lenid],
        unfold idd, rule consumes_calls_bind [OF dev], rule consumes_with_device,
        rule consumes_read_bind, simp, unfold Let_def cnt_net simp_thms if_False,
        rule consumes_read_bind [OF lenb], unfold evs option.case,
        rule consumes_calls_then [OF enabled body])
qed

lemma newFromNE2AddCommand_consumes:
  assumes "accepting os fd" and "announceable d n u entries" and "same_layout u u'"
    and "us \<or> (\<forall>i\<in>set (abs_axes u (evbits d) entries). i < ABS_CNT u)"
  shows "consumes us
      (newFromNE2AddCommand os u' e' (add_to_host e' (cmd_to_host e' (add_packet u e dev))) False
        :: ('a wstate_scheme, OutDevice option) prog)
      (ne2_add_rest u e d entries axis)
      (Some (received_device us fd u d entries axis\<lparr>created := True\<rparr>))
      (received_calls us fd u d entries axis)" and
    "consumes us
      (newFromNE2AddCommand os u' e' (add_to_host e' (cmd_to_host e' (add_packet u e dev))) True
        :: ('a wstate_scheme, OutDevice option) prog)
      (ne2_add_rest u e d entries axis) None []"
proof -
  let ?x = "\<lparr>out_fd = fd, user_dev = new_user_dev (dev_name d) (dev_id d), created = False\<rparr>"
  let ?r = "received_device us fd u d entries axis"
  have r: "axis_store us axis (abs_axes u (evbits d) entries) ?x = ?r"
    by (simp add: received_device_def)
  have fd: "out_fd (received_device us' fd u d entries axis) = fd" for us' by (simp add: received_device_def)
  have name: "padded_name (dev_name d) n" using assms(2) by (simp add: announceable_def)
  have new: "consumes us ((if False then ret None
      else bindP (OutDevice_new os n (dev_id d)) (\<lambda>x. ret (Some x))) :: ('a wstate_scheme, OutDevice option) prog) [] (Some ?x)
    ((Open ''/dev/uinput'' # GotFd fd # (if us then [Ioctl fd (UI_DEV_SETUP (dev_name d) (dev_id d))] else [])) @ [])"
    unfolding if_False by (rule consumes_calls_bind [OF consumes_OutDevice_new [OF assms(1) name] consumes_ret])
  have fin: "consumes us ((case map_option (axis_store us axis (abs_axes u (evbits d) entries)) (Some ?x) of
        None \<Rightarrow> ret None | Some d \<Rightarrow> bindP (create os d) (\<lambda>d'. ret (Some d'))) :: ('a wstate_scheme, OutDevice option) prog) []
      (Some (?r\<lparr>created := True\<rparr>))
      (((if us then [] else [WriteUserDev (out_fd ?r) (user_dev ?r)]) @ [Ioctl (out_fd ?r) UI_DEV_CREATE]) @ [])"
    unfolding option.map option.case r
    by (rule consumes_calls_bind [OF consumes_create [OF assms(1)] consumes_ret])
  show "consumes us
      (newFromNE2AddCommand os u' e' (add_to_host e' (cmd_to_host e' (add_packet u e dev))) False
        :: ('a wstate_scheme, OutDevice option) prog)
      (ne2_add_rest u e d entries axis) (Some (?r\<lparr>created := True\<rparr>))
      (received_calls us fd u d entries axis)"
    by (rule consumes_eq, rule consumes_head [OF assms(1-3) new _ assms(4) fin])
      (simp_all add: received_calls_def fd)
next
  have new: "consumes us ((if True then ret None
      else bindP (OutDevice_new os n (dev_id d)) (\<lambda>x. ret (Some x))) :: ('a wstate_scheme, OutDevice option) prog) [] None []"
    by (simp add: consumes_ret)
  have fin: "consumes us ((case map_option (axis_store us axis (abs_axes u (evbits d) entries)) None of
        None \<Rightarrow> ret None | Some d \<Rightarrow> bindP (create os d) (\<lambda>d'. ret (Some d'))) :: ('a wstate_scheme, OutDevice option) prog) [] None []"
    by (simp add: consumes_ret)
  show "consumes us
      (newFromNE2AddCommand os u' e' (add_to_host e' (cmd_to_host e' (add_packet u e dev))) True
        :: ('a wstate_scheme, OutDevice option) prog)
      (ne2_add_rest u e d entries axis) None []"
    by (rule consumes_eq, rule consumes_head [OF assms(1-3) new _ assms(4) fin]) simp_all
qed

text \<open>
  C22. Round trip of a device announcement between two hosts, of any byte orders, whose
  kernel headers agree on the size of uinput_user_dev: on a kernel that grants every
  request, newFromNE2AddCommand reads exactly the announcement writeNE2AddDevice sends and
  makes a device with the sender's name, identifier, event types (force feedback excepted),
  codes and axes, by exactly the calls listed; with skip it reads the same bytes, makes no
  device and no call.
\<close>

theorem newFromNE2AddCommand_roundtrip:
  assumes "accepting os fd" and "announceable d n u entries" and "same_layout u u'"
    and "us \<or> (\<forall>i\<in>set (abs_axes u (evbits d) entries). i < ABS_CNT u)"
  shows "consumes us
      (newFromNE2AddCommand os u' e' (add_to_host e' (cmd_to_host e' (add_packet u e dev))) False
        :: ('a wstate_scheme, OutDevice option) prog)
      (ne2_add_rest u e d entries axis)
      (Some (received_device us fd u d entries axis\<lparr>created := True\<rparr>))
      (received_calls us fd u d entries axis) \<and>
    consumes us
      (newFromNE2AddCommand os u' e' (add_to_host e' (cmd_to_host e' (add_packet u e dev))) True
        :: ('a wstate_scheme, OutDevice option) prog)
      (ne2_add_rest u e d entries axis) None []"
  using newFromNE2AddCommand_consumes [OF assms] by blast

lemma sample_announceable: "announceable sample_device ''pad'' linux_uapi sample_entries"
  using sample_ok(1) linux_uapi_ok
  by (simp add: announceable_def padded_name_def sample_device_def name_size_def sample_entries_def)

theorem newFromNE2AddCommand_roundtrip_witness:
  "consumes True
      (newFromNE2AddCommand quiet_os linux_uapi Big
        (add_to_host Big (cmd_to_host Big (add_packet linux_uapi Little 7))) False
        :: (unit wstate_scheme, OutDevice option) prog)
      (ne2_add_rest linux_uapi Little sample_device sample_entries sample_axis)
      (Some (received_device True 3 linux_uapi sample_device sample_entries sample_axis\<lparr>created := True\<rparr>))
      (received_calls True 3 linux_uapi sample_device sample_entries sample_axis)"
proof -
  have a: "accepting quiet_os 3" by (simp add: accepting_def quiet_os_def)
  have c: "same_layout linux_uapi linux_uapi" by (simp add: same_layout_def)
  from newFromNE2AddCommand_roundtrip [OF a sample_announceable c, of True] show ?thesis by blast
qed

end
