(* ===== verification/Handles.thy ===== *)
theory Handles
  imports Main "HOL-Library.Multiset" "HOL-Library.AList"
begin

text \<open>
  \<^verbatim>\<open>iohandle.h\<close>: \<open>IOHandle\<close>, the owner of a file descriptor. The state is the
  program's live handle objects with their \<open>fd_\<close>, and three logs: the descriptors handed
  to a constructor, those passed to \<open>close\<close>, and those given up by \<open>release\<close>.
\<close>

record hstate =
  objs :: "(nat \<times> int) list"
  given :: "int list"
  closed :: "int list"
  released :: "int list"

definition h_get :: "nat \<Rightarrow> hstate \<Rightarrow> int option" where
  "h_get h s = map_of (objs s) h"

definition h_set :: "nat \<Rightarrow> int \<Rightarrow> hstate \<Rightarrow> hstate" where
  "h_set h fd s = s\<lparr>objs := (h, fd) # AList.delete h (objs s)\<rparr>"

text \<open>The constructor from a descriptor; -1 is the empty handle.\<close>

definition IOHandle_new :: "nat \<Rightarrow> int \<Rightarrow> hstate \<Rightarrow> hstate option" where
  "IOHandle_new h fd s =
     (case h_get h s of
        Some _ \<Rightarrow> None
      | None \<Rightarrow> Some ((h_set h fd s)\<lparr>given := (if fd = - 1 then given s else fd # given s)\<rparr>))"

definition h_close :: "int \<Rightarrow> hstate \<Rightarrow> hstate" where
  "h_close fd s = (if fd \<noteq> - 1 then s\<lparr>closed := fd # closed s\<rparr> else s)"

definition IOHandle_close :: "nat \<Rightarrow> hstate \<Rightarrow> hstate option" where
  "IOHandle_close h s = map_option (\<lambda>fd. h_set h (- 1) (h_close fd s)) (h_get h s)"

definition IOHandle_release :: "nat \<Rightarrow> hstate \<Rightarrow> hstate option" where
  "IOHandle_release h s = map_option (\<lambda>fd.
     (h_set h (- 1) s)\<lparr>released := (if fd = - 1 then released s else fd # released s)\<rparr>) (h_get h s)"

text \<open>\<open>IOHandle (IOHandle&& o)\<close>.\<close>

definition IOHandle_move :: "nat \<Rightarrow> nat \<Rightarrow> hstate \<Rightarrow> hstate option" where
  "IOHandle_move h src s =
     (case (h_get h s, h_get src s) of
        (None, Some fd) \<Rightarrow> Some (h_set src (- 1) (h_set h fd s))
      | _ \<Rightarrow> None)"

text \<open>\<open>operator= (IOHandle&& o)\<close>: close, take over, empty the source; also for \<open>h = src\<close>.\<close>

definition IOHandle_assign :: "nat \<Rightarrow> nat \<Rightarrow> hstate \<Rightarrow> hstate option" where
  "IOHandle_assign h src s =
     (case IOHandle_close h s of
        None \<Rightarrow> None
      | Some s1 \<Rightarrow>
          (case h_get src s1 of
             None \<Rightarrow> None
           | Some fd \<Rightarrow> Some (h_set src (- 1) (h_set h fd s1))))"

definition IOHandle_delete :: "nat \<Rightarrow> hstate \<Rightarrow> hstate option" where
  "IOHandle_delete h s = map_option (\<lambda>fd.
     (h_close fd s)\<lparr>objs := AList.delete h (objs (h_close fd s))\<rparr>) (h_get h s)"

inductive h_step :: "hstate \<Rightarrow> hstate \<Rightarrow> bool" where
  "IOHandle_new h fd s = Some s' \<Longrightarrow> h_step s s'"
| "IOHandle_close h s = Some s' \<Longrightarrow> h_step s s'"
| "IOHandle_release h s = Some s' \<Longrightarrow> h_step s s'"
| "IOHandle_move h src s = Some s' \<Longrightarrow> h_step s s'"
| "IOHandle_assign h src s = Some s' \<Longrightarrow> h_step s s'"
| "IOHandle_delete h s = Some s' \<Longrightarrow> h_step s s'"

inductive_cases h_stepE: "h_step s s'"

definition h_init :: hstate where
  "h_init = \<lparr>objs = [], given = [], closed = [], released = []\<rparr>"

inductive h_reach :: "hstate \<Rightarrow> bool" where
  h_start: "h_reach h_init"
| h_more: "h_reach s \<Longrightarrow> h_step s s' \<Longrightarrow> h_reach s'"

text \<open>The descriptors the live objects own.\<close>

definition owned :: "hstate \<Rightarrow> int multiset" where
  "owned s = filter_mset (\<lambda>fd. fd \<noteq> - 1) (image_mset snd (mset (objs s)))"

definition h_ok :: "hstate \<Rightarrow> bool" where
  "h_ok s \<longleftrightarrow> distinct (map fst (objs s)) \<and>
     mset (given s) = owned s + mset (closed s) + mset (released s)"

lemma mset_delete:
  "distinct (map fst xs) \<Longrightarrow> map_of xs k = Some v \<Longrightarrow> mset xs = add_mset (k, v) (mset (AList.delete k xs))"
proof (induction xs)
  case (Cons x xs)
  show ?case
  proof (cases "fst x = k")
    case True
    with Cons.prems have "k \<notin> fst ` set xs" by auto
    then have "AList.delete k xs = xs" by (simp add: AList.delete_eq filter_id_conv) force
    with True Cons.prems show ?thesis by (cases x) simp
  next
    case False
    with Cons show ?thesis by (cases x) (simp add: add_mset_commute)
  qed
qed simp

lemma delete_absent: "map_of xs k = None \<Longrightarrow> AList.delete k xs = xs"
  by (auto simp: AList.delete_eq filter_id_conv map_of_eq_None_iff) force

lemma h_ok_frame:
  "owned (s\<lparr>given := g\<rparr>) = owned s" "owned (s\<lparr>closed := c\<rparr>) = owned s"
  "owned (s\<lparr>released := r\<rparr>) = owned s" "owned (h_close fd s) = owned s"
  by (simp_all add: owned_def h_close_def)

lemma owned_h_set:
  assumes "distinct (map fst (objs s))" and "h_get h s = Some fd"
  shows "owned (h_set h fd' s) + (if fd = - 1 then {#} else {#fd#}) =
    owned s + (if fd' = - 1 then {#} else {#fd'#})"
  using mset_delete [OF assms(1), of h fd] assms(2)
  by (simp add: owned_def h_set_def h_get_def)

lemma owned_h_set_new:
  "h_get h s = None \<Longrightarrow> owned (h_set h fd s) = owned s + (if fd = - 1 then {#} else {#fd#})"
  by (simp add: owned_def h_set_def h_get_def delete_absent)

lemma h_set_fields [simp]:
  "given (h_set h fd s) = given s" "closed (h_set h fd s) = closed s"
  "released (h_set h fd s) = released s"
  "objs (h_close fd s) = objs s" "given (h_close fd s) = given s" "released (h_close fd s) = released s"
  "h_get k (h_close fd s) = h_get k s"
  "h_get k (h_set h fd s) = (if k = h then Some fd else h_get k s)"
  by (simp_all add: h_set_def h_close_def h_get_def AList.delete_conv)

lemma distinct_h_set [simp]:
  "distinct (map fst (objs s)) \<Longrightarrow> distinct (map fst (objs (h_set h fd s)))"
  by (simp add: h_set_def AList.delete_keys distinct_removeAll)

lemma mset_closed_h_close:
  "mset (closed (h_close fd s)) = mset (closed s) + (if fd = - 1 then {#} else {#fd#})"
  by (simp add: h_close_def)

lemma h_ok_new: "h_ok s \<Longrightarrow> IOHandle_new h fd s = Some s' \<Longrightarrow> h_ok s'"
  by (auto simp: h_ok_def IOHandle_new_def h_ok_frame owned_h_set_new split: option.splits if_splits)

lemma h_ok_close: "h_ok s \<Longrightarrow> IOHandle_close h s = Some s' \<Longrightarrow> h_ok s'"
proof -
  assume ok: "h_ok s" and cl: "IOHandle_close h s = Some s'"
  then obtain fd where fd: "h_get h s = Some fd" "s' = h_set h (- 1) (h_close fd s)"
    by (auto simp: IOHandle_close_def)
  from ok fd owned_h_set [of "h_close fd s" h fd "- 1"] show ?thesis
    by (auto simp: h_ok_def h_ok_frame mset_closed_h_close split: if_splits)
qed

lemma h_ok_release: "h_ok s \<Longrightarrow> IOHandle_release h s = Some s' \<Longrightarrow> h_ok s'"
proof -
  assume ok: "h_ok s" and "IOHandle_release h s = Some s'"
  then obtain fd where fd: "h_get h s = Some fd"
    "s' = (h_set h (- 1) s)\<lparr>released := (if fd = - 1 then released s else fd # released s)\<rparr>"
    by (auto simp: IOHandle_release_def)
  from ok fd owned_h_set [of s h fd "- 1"] show ?thesis
    by (auto simp: h_ok_def h_ok_frame split: if_splits)
qed

text \<open>Handing a descriptor from one object to another that is empty.\<close>

lemma h_ok_hand_over:
  assumes "h_ok s" and "h_get src s = Some fd" and "h_get h s = Some (- 1)"
  shows "h_ok (h_set src (- 1) (h_set h fd s))"
proof (cases "h = src")
  case True
  with assms owned_h_set [of s h "- 1" "- 1"] owned_h_set [of "h_set h (- 1) s" h "- 1" "- 1"]
  show ?thesis by (simp add: h_ok_def)
next
  case False
  with assms owned_h_set [of s h "- 1" fd] owned_h_set [of "h_set h fd s" src fd "- 1"]
  show ?thesis by (auto simp: h_ok_def split: if_splits)
qed

lemma h_ok_move: "h_ok s \<Longrightarrow> IOHandle_move h src s = Some s' \<Longrightarrow> h_ok s'"
proof -
  assume ok: "h_ok s" and "IOHandle_move h src s = Some s'"
  then obtain fd where fd: "h_get h s = None" "h_get src s = Some fd"
    "s' = h_set src (- 1) (h_set h fd s)"
    by (auto simp: IOHandle_move_def split: option.splits)
  then have "h \<noteq> src" by auto
  with ok fd owned_h_set_new [of h s fd] owned_h_set [of "h_set h fd s" src fd "- 1"]
  show ?thesis by (auto simp: h_ok_def split: if_splits)
qed

lemma h_ok_assign: "h_ok s \<Longrightarrow> IOHandle_assign h src s = Some s' \<Longrightarrow> h_ok s'"
proof -
  assume ok: "h_ok s" and "IOHandle_assign h src s = Some s'"
  then obtain s1 fd where s1: "IOHandle_close h s = Some s1" and fd: "h_get src s1 = Some fd"
    "s' = h_set src (- 1) (h_set h fd s1)"
    by (auto simp: IOHandle_assign_def split: option.splits)
  from s1 have "h_get h s1 = Some (- 1)" by (auto simp: IOHandle_close_def)
  with h_ok_hand_over [OF h_ok_close [OF ok s1] fd(1)] fd(2) show ?thesis by simp
qed

lemma h_ok_delete: "h_ok s \<Longrightarrow> IOHandle_delete h s = Some s' \<Longrightarrow> h_ok s'"
proof -
  assume ok: "h_ok s" and "IOHandle_delete h s = Some s'"
  then obtain fd where fd: "h_get h s = Some fd"
    "s' = (h_close fd s)\<lparr>objs := AList.delete h (objs s)\<rparr>"
    by (auto simp: IOHandle_delete_def)
  have "owned s = owned (s\<lparr>objs := AList.delete h (objs s)\<rparr>) + (if fd = - 1 then {#} else {#fd#})"
    using mset_delete [of "objs s" h fd] ok fd(1) by (simp add: owned_def h_ok_def h_get_def)
  moreover have "owned s' = owned (s\<lparr>objs := AList.delete h (objs s)\<rparr>)"
    by (simp add: fd(2) owned_def)
  ultimately show ?thesis
    using ok fd(2) by (auto simp: h_ok_def mset_closed_h_close AList.distinct_delete split: if_splits)
qed

lemmas h_ok_ops = h_ok_new h_ok_close h_ok_release h_ok_move h_ok_assign h_ok_delete

lemma h_reach_ok: "h_reach s \<Longrightarrow> h_ok s"
proof (induction rule: h_reach.induct)
  case h_start
  then show ?case by (simp add: h_ok_def h_init_def owned_def)
next
  case (h_more s s')
  from h_more(2) h_more.IH show ?case by (cases rule: h_stepE) (auto intro: h_ok_ops)
qed

text \<open>
  C26. Ownership of descriptors: however IOHandle objects are constructed, moved, assigned
  (also to themselves), closed, released and destroyed, every descriptor handed to one is
  owned by exactly one live object, or has been closed exactly once, or released exactly
  once. So nothing is closed more often than it was handed over, and once no object is left
  nothing has leaked.
\<close>

theorem IOHandle_ownership:
  assumes "h_reach s"
  shows "mset (given s) = owned s + mset (closed s) + mset (released s) \<and>
    (\<forall>fd. count_list (closed s) fd \<le> count_list (given s) fd) \<and>
    (objs s = [] \<longrightarrow> mset (given s) = mset (closed s) + mset (released s))"
proof -
  have eq: "mset (given s) = owned s + mset (closed s) + mset (released s)"
    using h_reach_ok [OF assms] by (simp add: h_ok_def)
  have "count_list (closed s) fd \<le> count_list (given s) fd" for fd
    using arg_cong [OF eq, of "\<lambda>m. count m fd"] by (simp add: count_mset)
  with eq show ?thesis by (simp add: owned_def)
qed

theorem IOHandle_ownership_witness:
  "\<exists>s. h_reach s \<and> given s = [7] \<and> closed s = [7] \<and> objs s = [] \<and>
    mset (given s) = owned s + mset (closed s) + mset (released s)"
proof -
  let ?s = "\<lparr>objs = [], given = [7], closed = [7], released = []\<rparr>"
  have "h_reach \<lparr>objs = [(1, 7)], given = [7], closed = [], released = []\<rparr>"
    by (rule h_more [OF h_start], rule h_step.intros(1) [of 1 7])
      (simp add: IOHandle_new_def h_get_def h_set_def h_init_def)
  then have "h_reach ?s"
    by (rule h_more, intro h_step.intros(6) [of 1])
      (simp add: IOHandle_delete_def h_get_def h_close_def)
  with IOHandle_ownership [of ?s] show ?thesis by (intro exI [of _ ?s]) simp
qed

end
