(* ===== verification/Sockets.thy ===== *)
theory Sockets
  imports World CString
begin

text \<open>
  \<^verbatim>\<open>socket.cpp\<close> and \<^verbatim>\<open>socket.h\<close>: the unix domain socket the daemon and
  \<open>netevent create\<close> listen on and connect to. A method runs on the pair of the world and
  the \<open>Socket\<close> object; \<open>with_obj\<close> runs it on an object that is part of a larger state.
\<close>

record Socket =
  sock_fd :: int
  sock_path :: string
  unlink_on_close :: bool

definition Socket_new :: Socket where
  "Socket_new = \<lparr>sock_fd = - 1, sock_path = [], unlink_on_close = False\<rparr>"

text \<open>Run a program of the world on a pair; run a method on an object of the state.\<close>

definition lift_world :: "('w, 'a) prog \<Rightarrow> ('w \<times> 'x, 'a) prog" where
  "lift_world m = (\<lambda>(w, x). case m w of (r, w') \<Rightarrow> (r, (w', x)))"

definition with_obj :: "('s \<Rightarrow> 'x) \<Rightarrow> ('x \<Rightarrow> 's \<Rightarrow> 's) \<Rightarrow> ('s \<times> 'x, 'a) prog \<Rightarrow> ('s, 'a) prog" where
  "with_obj get put m = (\<lambda>s. case m (s, get s) of (r, (s', x)) \<Rightarrow> (r, put x s'))"

definition obj :: "('x \<Rightarrow> 'a) \<Rightarrow> ('w \<times> 'x, 'a) prog" where
  "obj f = getP (\<lambda>(w, x). f x)"

definition set_obj :: "('x \<Rightarrow> 'x) \<Rightarrow> ('w \<times> 'x, unit) prog" where
  "set_obj f = modifyP (\<lambda>(w, x). (w, f x))"

lemma run_objects [run_simps]:
  "lift_world m (w, x) = (case m w of (r, w') \<Rightarrow> (r, (w', x)))"
  "with_obj get put n s = (case n (s, get s) of (r', (s', y)) \<Rightarrow> (r', put y s'))"
  "obj f (w1, x1) = (Ret (f x1), (w1, x1))"
  "set_obj g (w2, x2) = (Ret (), (w2, g x2))"
  by (simp_all add: lift_world_def with_obj_def obj_def set_obj_def run_simps)

type_synonym ('w, 'a) sock_prog = "('w world_scheme \<times> Socket, 'a) prog"

definition Socket_close :: "os \<Rightarrow> ('w, unit) sock_prog" where
  "Socket_close os = bindP (obj id) (\<lambda>so.
     whenP (sock_fd so \<noteq> - 1)
       (thenP (lift_world (do_ignore os (Close (sock_fd so))))
       (thenP (set_obj (\<lambda>so. so\<lparr>sock_fd := - 1\<rparr>))
       (whenP (sock_path so \<noteq> [])
         (thenP (whenP (unlink_on_close so)
           (thenP (set_obj (\<lambda>so. so\<lparr>unlink_on_close := False\<rparr>))
             (lift_world (do_ignore os (Unlink (cstr (sock_path so)))))))
         (set_obj (\<lambda>so. so\<lparr>sock_path := []\<rparr>)))))))"

text \<open>\<open>socket\<close> returns -1 when it fails, which is what \<open>fd_\<close> then holds.\<close>

definition openUnixStream :: "os \<Rightarrow> ('w, unit) sock_prog" where
  "openUnixStream os =
     thenP (Socket_close os)
     (bindP (lift_world (do_open os NewSocket)) (\<lambda>r. case r of
        Inr fd \<Rightarrow> set_obj (\<lambda>so. so\<lparr>sock_fd := fd\<rparr>)
      | Inl err \<Rightarrow> thenP (set_obj (\<lambda>so. so\<lparr>sock_fd := - 1\<rparr>))
          (throw_errno (os_strerror os) ''failed to open socket'' err)))"

definition sun_path_size :: nat where
  "sun_path_size = 108"

text \<open>
  The address: \<open>path\<close> and a zero byte are copied to the start of \<open>sun_path\<close>, or for an
  abstract address behind a zero byte. \<open>junk\<close> is what the uninitialised array held. A byte
  written past the array is \<open>None\<close>. The kernel gets the whole array, or for an abstract
  address the bytes up to the end of the path.
\<close>

definition sun_address :: "byte list \<Rightarrow> bool \<Rightarrow> string \<Rightarrow> byte list option" where
  "sun_address junk abstract p =
     (let off = if abstract then 1 else 0;
          mem = (if abstract then [0] else []) @ str_bytes p @ [0]
      in if length mem \<le> sun_path_size
         then Some (if abstract then take (off + length p) mem
                    else mem @ drop (length mem) (take sun_path_size junk))
         else None)"

definition path_too_long :: "string \<Rightarrow> exn" where
  "path_too_long p = MsgException_new (''path too long ('' @ show_nat (length p) @ '' >= '' @
     show_nat sun_path_size @ ''): '' @ [CHR 0x27] @ cstr p @ [CHR 0x27])"

definition bindUnix :: "os \<Rightarrow> byte list \<Rightarrow> bool \<Rightarrow> string \<Rightarrow> ('w, unit) sock_prog" where
  "bindUnix os junk abstract p =
     thenP (openUnixStream os)
     (if length p \<ge> sun_path_size then raise (path_too_long p)
      else case sun_address junk abstract p of None \<Rightarrow> undef | Some addr \<Rightarrow>
        thenP (whenP (\<not> abstract) (lift_world (do_ignore os (Unlink (cstr p)))))
        (bindP (obj sock_fd) (\<lambda>fd.
         bindP (lift_world (do_call os (Bind fd addr))) (\<lambda>r. case r of
           Some err \<Rightarrow> throw_errno (os_strerror os)
             (''failed to bind to '' @ (if abstract then ''@'' else '''') @ cstr p) err
         | None \<Rightarrow> whenP (\<not> abstract)
             (set_obj (\<lambda>so. so\<lparr>sock_path := p, unlink_on_close := True\<rparr>))))))"

text \<open>The message of \<open>listen\<close> has one conversion more than arguments.\<close>

definition Socket_listen :: "os \<Rightarrow> ('w, unit) sock_prog" where
  "Socket_listen os = bindP (obj sock_fd) (\<lambda>fd.
     bindP (lift_world (do_call os (Listen fd))) (\<lambda>r. case r of
       None \<Rightarrow> ret ()
     | Some err \<Rightarrow> undef))"

definition listenUnix :: "os \<Rightarrow> byte list \<Rightarrow> bool \<Rightarrow> string \<Rightarrow> ('w, unit) sock_prog" where
  "listenUnix os junk abstract p = thenP (bindUnix os junk abstract p) (Socket_listen os)"

definition connectUnix :: "os \<Rightarrow> byte list \<Rightarrow> bool \<Rightarrow> string \<Rightarrow> ('w, unit) sock_prog" where
  "connectUnix os junk abstract p =
     thenP (openUnixStream os)
     (if length p \<ge> sun_path_size then raise (path_too_long p)
      else case sun_address junk abstract p of None \<Rightarrow> undef | Some addr \<Rightarrow>
        thenP (whenP (\<not> abstract) (set_obj (\<lambda>so. so\<lparr>sock_path := p\<rparr>)))
        (bindP (obj sock_fd) (\<lambda>fd.
         bindP (lift_world (do_call os (Connect fd addr))) (\<lambda>r. case r of
           Some err \<Rightarrow> throw_errno (os_strerror os)
             (''failed to connect to '' @ (if abstract then ''@'' else '''') @ cstr p) err
         | None \<Rightarrow> ret ()))))"

definition Socket_accept :: "os \<Rightarrow> ('w, int) sock_prog" where
  "Socket_accept os = bindP (obj sock_fd) (\<lambda>fd.
     bindP (lift_world (do_open os (Accept fd))) (\<lambda>r. case r of
       Inr client \<Rightarrow> ret client
     | Inl err \<Rightarrow> throw_errno (os_strerror os) ''failed to accept client'' err))"

definition Socket_shutdown :: "os \<Rightarrow> bool \<Rightarrow> ('w, unit) sock_prog" where
  "Socket_shutdown os read_end = bindP (obj sock_fd) (\<lambda>fd.
     bindP (lift_world (do_call os (Shutdown fd read_end))) (\<lambda>r. case r of
       None \<Rightarrow> ret ()
     | Some err \<Rightarrow> throw_errno (os_strerror os) ''shutdown() on socket failed'' err))"

definition Socket_release :: "('w, int) sock_prog" where
  "Socket_release = bindP (obj sock_fd) (\<lambda>fd.
     thenP (set_obj (\<lambda>so. so\<lparr>sock_fd := - 1\<rparr>)) (ret fd))"

section \<open>Invariants of the larger state\<close>

lemma keeps_with_obj:
  "keeps (\<lambda>x. I (fst x)) m \<Longrightarrow> (\<And>x s. I s \<Longrightarrow> I (wr x s)) \<Longrightarrow> keeps I (with_obj rd wr m)"
  unfolding keeps_def with_obj_def split_beta by auto

lemma keeps_fst_lift: "keeps I m \<Longrightarrow> keeps (\<lambda>x. I (fst x)) (lift_world m)"
  by (fastforce simp: keeps_def lift_world_def split: prod.split)

lemma keeps_fst_obj: "keeps (\<lambda>x. I (fst x)) (obj f)" "keeps (\<lambda>x. I (fst x)) (set_obj g)"
  by (auto simp: keeps_def obj_def set_obj_def run_simps split_paired_all)

section \<open>Addresses\<close>

lemma sun_address_None:
  "sun_address junk abstract p = None \<longleftrightarrow> sun_path_size < length p + (if abstract then 2 else 1)"
  by (simp add: sun_address_def Let_def)

lemma sun_address_abstract:
  "sun_address junk True p = Some addr \<Longrightarrow> addr = 0 # str_bytes p"
  by (simp add: sun_address_def Let_def split: if_splits)

lemma sun_address_file:
  assumes "sun_address junk False p = Some addr" and "length junk = sun_path_size"
  shows "length addr = sun_path_size \<and> take (Suc (length p)) addr = str_bytes p @ [0]"
  using assms by (auto simp: sun_address_def Let_def split: if_splits)

text \<open>The name a socket is bound or connected to, as the kernel reads it from the address.\<close>

definition kernel_name :: "byte list \<Rightarrow> bool \<times> byte list" where
  "kernel_name addr =
     (if addr \<noteq> [] \<and> hd addr = 0 then (True, tl addr)
      else (False, takeWhile (\<lambda>b. b \<noteq> 0) addr))"

lemma sun_address_name:
  assumes "sun_address junk abstract p = Some addr" and "length junk = sun_path_size"
    and "NUL \<notin> set p" and "abstract \<or> p \<noteq> []"
  shows "kernel_name addr = (abstract, str_bytes p)"
proof (cases abstract)
  case True
  with assms(1) have "addr = 0 # str_bytes p"
    by (intro sun_address_abstract [of junk]) simp
  with True show ?thesis by (simp add: kernel_name_def)
next
  case False
  with assms have "take (Suc (length p)) addr = str_bytes p @ [0]"
    by (simp add: sun_address_file)
  then have addr: "addr = str_bytes p @ 0 # drop (Suc (length p)) addr"
    by (metis append.assoc append_Cons append_Nil append_take_drop_id)
  from False assms(4) have "p \<noteq> []" by simp
  then have ne: "str_bytes p \<noteq> []" by (simp add: str_bytes_def)
  then have "hd (str_bytes p) \<in> set (str_bytes p)" by simp
  then have "hd (str_bytes p) \<noteq> 0" by (rule str_bytes_nonzero [OF assms(3)])
  with ne have hd: "hd addr \<noteq> 0" by (subst addr) (simp add: hd_append)
  have "takeWhile (\<lambda>b. b \<noteq> 0) addr = str_bytes p"
    by (subst addr) (simp add: takeWhile_str_bytes [OF assms(3)])
  with hd False show ?thesis by (simp add: kernel_name_def)
qed

text \<open>What \<open>openUnixStream\<close> does on an object that holds no descriptor.\<close>

lemma run_openUnixStream:
  assumes "sock_fd so = - 1" and "os_open os (history w) NewSocket = Inr fd"
  shows "openUnixStream os (w, so) =
    (Ret (), (log_call (GotFd fd) None (log_call NewSocket None w), so\<lparr>sock_fd := fd\<rparr>))"
  using assms by (simp add: openUnixStream_def Socket_close_def run_simps log_open_def)

text \<open>
  The peer's name: connecting a fresh Socket to a path that fits asks the kernel for
  exactly the abstract name, or the file, that was given, whatever the uninitialised rest of
  the address held.
\<close>

theorem connectUnix_name:
  assumes "sock_fd so = - 1" and "os_open os (history w) NewSocket = Inr fd"
    and "length junk = sun_path_size" and "NUL \<notin> set p" and "abstract \<or> p \<noteq> []"
    and "length p + (if abstract then 1 else 0) < sun_path_size"
  shows "\<exists>addr. kernel_name addr = (abstract, str_bytes p) \<and>
    history (fst (snd (connectUnix os junk abstract p (w, so)))) =
      history w @ [(NewSocket, None), (GotFd fd, None), (Connect fd addr,
        os_call os (history w @ [(NewSocket, None), (GotFd fd, None)]) (Connect fd addr))]"
proof -
  obtain addr where addr: "sun_address junk abstract p = Some addr"
    using assms(6) sun_address_None [of junk abstract p] by (cases "sun_address junk abstract p") (auto split: if_splits)
  have short: "\<not> length p \<ge> sun_path_size" using assms(6) by simp
  show ?thesis
    by (intro exI conjI, rule sun_address_name [OF addr assms(3-5)])
      (use assms(6) in \<open>simp add: connectUnix_def run_simps run_openUnixStream [OF assms(1,2)] addr
         run_throw_errno split: option.split\<close>)
qed

theorem connectUnix_name_witness:
  "\<exists>addr. kernel_name addr = (True, str_bytes ''ne'') \<and>
    history (fst (snd (connectUnix
      quiet_os
      (replicate 108 7) True ''ne'' (\<lparr>history = []\<rparr>, Socket_new)))) =
      [(NewSocket, None), (GotFd 3, None), (Connect 3 addr, None)]"
  using connectUnix_name [of Socket_new
      quiet_os "\<lparr>history = []\<rparr>" 3
      "replicate 108 7" "''ne''" True]
  by (simp add: Socket_new_def sun_path_size_def quiet_os_def)

text \<open>
  C39. The length check does not account for the zero byte in front of an abstract name: an
  abstract path of 107 characters passes it, and the terminating zero is then written one
  byte behind sun_path, by bindUnix and by connectUnix.
\<close>

theorem abstract_name_overflow:
  assumes "sock_fd so = - 1" and "os_open os (history w) NewSocket = Inr fd"
    and "length p = sun_path_size - 1"
  shows "fst (bindUnix os junk True p (w, so)) = Undef \<and>
    fst (connectUnix os junk True p (w, so)) = Undef"
proof -
  have "sun_address junk True p = None"
    using assms(3) by (simp add: sun_address_None sun_path_size_def)
  then show ?thesis
    using assms(3)
    by (simp add: bindUnix_def connectUnix_def run_simps run_openUnixStream [OF assms(1,2)]
        sun_path_size_def)
qed

theorem abstract_name_overflow_witness:
  "fst (bindUnix
      quiet_os
      [] True (replicate 107 CHR ''a'') (\<lparr>history = []\<rparr>, Socket_new)) = Undef"
proof -
  have "sock_fd Socket_new = - 1" "os_open quiet_os (history \<lparr>history = []\<rparr>) NewSocket = Inr 3"
    "length (replicate 107 CHR ''a'') = sun_path_size - 1"
    by (simp_all add: Socket_new_def sun_path_size_def quiet_os_def)
  from abstract_name_overflow [OF this] show ?thesis by blast
qed

end
