(* ===== verification/StdMap.thy ===== *)
theory StdMap
  imports Main "HOL-Library.Char_ord" "HOL-Library.List_Lexorder"
begin

text \<open>
  \<open>std::map\<close> as the program uses it: the entries in increasing order of their keys,
  which is the order the program iterates in. Keys are compared with \<open><\<close>; for strings
  that is the lexicographic order by (unsigned) character codes.
\<close>

type_synonym ('k, 'v) std_map = "('k \<times> 'v) list"

definition map_find :: "'k \<Rightarrow> ('k, 'v) std_map \<Rightarrow> 'v option" where
  "map_find k m = map_of m k"

text \<open>\<open>m[k] = v\<close>.\<close>

fun map_set :: "'k::linorder \<Rightarrow> 'v \<Rightarrow> ('k, 'v) std_map \<Rightarrow> ('k, 'v) std_map" where
  "map_set k v [] = [(k, v)]"
| "map_set k v ((k', v') # m) =
     (if k < k' then (k, v) # (k', v') # m
      else if k = k' then (k, v) # m
      else (k', v') # map_set k v m)"

text \<open>\<open>m.emplace (k, v)\<close>: an existing entry stays.\<close>

definition map_emplace :: "'k::linorder \<Rightarrow> 'v \<Rightarrow> ('k, 'v) std_map \<Rightarrow> ('k, 'v) std_map" where
  "map_emplace k v m = (if map_find k m = None then map_set k v m else m)"

definition map_erase :: "'k \<Rightarrow> ('k, 'v) std_map \<Rightarrow> ('k, 'v) std_map" where
  "map_erase k m = filter (\<lambda>(k', v). k' \<noteq> k) m"

definition map_ok :: "('k::linorder, 'v) std_map \<Rightarrow> bool" where
  "map_ok m \<longleftrightarrow> sorted_wrt (<) (map fst m)"

text \<open>The contract of an ordered dictionary, which is all the components use.\<close>

locale dictionary =
  fixes find :: "'k::linorder \<Rightarrow> 'm \<Rightarrow> 'v option"
    and put :: "'k \<Rightarrow> 'v \<Rightarrow> 'm \<Rightarrow> 'm"
    and erase :: "'k \<Rightarrow> 'm \<Rightarrow> 'm"
    and entries :: "'m \<Rightarrow> ('k \<times> 'v) list"
    and ok :: "'m \<Rightarrow> bool"
  assumes find_put: "ok m \<Longrightarrow> find k (put k' v m) = (if k = k' then Some v else find k m)"
    and find_erase: "ok m \<Longrightarrow> find k (erase k' m) = (if k = k' then None else find k m)"
    and ok_put: "ok m \<Longrightarrow> ok (put k' v m)"
    and ok_erase: "ok m \<Longrightarrow> ok (erase k' m)"
    and entries_find: "ok m \<Longrightarrow> (k, v) \<in> set (entries m) \<longleftrightarrow> find k m = Some v"
    and ordered: "ok m \<Longrightarrow> sorted_wrt (<) (map fst (entries m))"
begin

lemma find_put_same: "ok m \<Longrightarrow> find k (put k v m) = Some v"
  by (simp add: find_put)

lemma put_put: "ok m \<Longrightarrow> find k (put k' v (put k' v' m)) = find k (put k' v m)"
  by (simp add: find_put ok_put)

lemma erase_put: "ok m \<Longrightarrow> find k (erase k' (put k' v m)) = find k (erase k' m)"
  by (simp add: find_put find_erase ok_put)

lemma distinct_keys: "ok m \<Longrightarrow> distinct (map fst (entries m))"
  using ordered by (metis strict_sorted_iff)

lemma keys_find: "ok m \<Longrightarrow> k \<in> fst ` set (entries m) \<longleftrightarrow> find k m \<noteq> None"
proof -
  assume ok: "ok m"
  have "k \<in> fst ` set (entries m) \<longleftrightarrow> (\<exists>v. (k, v) \<in> set (entries m))" by force
  with ok show "k \<in> fst ` set (entries m) \<longleftrightarrow> find k m \<noteq> None" by (simp add: entries_find)
qed

end

lemma set_map_set: "set (map fst (map_set k v m)) = insert k (set (map fst m))"
  by (induction k v m rule: map_set.induct) auto

lemma sorted_map_set: "map_ok m \<Longrightarrow> map_ok (map_set k v m)"
proof (induction k v m rule: map_set.induct)
  case (2 k v k' v' m)
  have "set (map fst (map_set k v m)) = insert k (set (map fst m))" by (rule set_map_set)
  with 2 show ?case by (fastforce simp: map_ok_def)
qed (simp add: map_ok_def)

lemma map_find_set: "map_ok m \<Longrightarrow> map_find k (map_set k' v m) = (if k = k' then Some v else map_find k m)"
proof (induction k' v m rule: map_set.induct)
  case (2 k' v k'' v'' m)
  then show ?case by (auto simp: map_find_def map_ok_def)
qed (simp add: map_find_def)

lemma map_find_erase: "map_find k (map_erase k' m) = (if k = k' then None else map_find k m)"
  by (induction m) (auto simp: map_find_def map_erase_def)

lemma map_ok_erase: "map_ok m \<Longrightarrow> map_ok (map_erase k m)"
  unfolding map_ok_def map_erase_def
  by (induction m) auto

interpretation std: dictionary map_find map_set map_erase "\<lambda>m. m" map_ok
proof unfold_locales
  fix m :: "('a \<times> 'b) list" and k v
  assume ok: "map_ok m"
  then have "distinct (map fst m)" by (auto simp: map_ok_def strict_sorted_iff)
  then show "(k, v) \<in> set m \<longleftrightarrow> map_find k m = Some v" by (simp add: map_find_def)
qed (rule map_find_set map_find_erase sorted_map_set map_ok_erase, assumption |
    simp add: map_find_erase map_ok_def)+

lemma map_ok_emplace: "map_ok m \<Longrightarrow> map_ok (map_emplace k v m)"
  by (simp add: map_emplace_def std.ok_put)

lemma map_ok_Nil [simp]: "map_ok []"
  by (simp add: map_ok_def)

lemma map_find_Nil [simp]: "map_find k [] = None"
  by (simp add: map_find_def)

lemma map_set_find_same: "map_ok m \<Longrightarrow> map_find k m = Some v \<Longrightarrow> map_set k v m = m"
proof (induction k v m rule: map_set.induct)
  case (2 k v k' v' m)
  then show ?case by (auto simp: map_find_def map_ok_def dest: map_of_SomeD) (fastforce dest: map_of_SomeD)
qed (simp add: map_find_def)

end
