(* ===== verification/Usage.thy ===== *)
theory Usage
  imports World CString
begin

text \<open>
  The help texts of \<^verbatim>\<open>main.cpp\<close> and \<^verbatim>\<open>daemon.cpp\<close> and how a subcommand ends: by
  the status it returns to \<open>main\<close>, or by \<open>exit\<close> after a help text, which goes to standard
  output if it was asked for and to standard error if it is a complaint. \<open>Blocked\<close> is a
  process that waits for something that never comes. The version is a constant of the build.
\<close>

definition EXIT_SUCCESS :: int where "EXIT_SUCCESS = 0"
definition EXIT_FAILURE :: int where "EXIT_FAILURE = 1"

datatype status = Status int | Exited int | Blocked

definition quoted :: "string \<Rightarrow> string" where
  "quoted s = [CHR 0x27] @ s @ [CHR 0x27]"

definition text_of :: "string list \<Rightarrow> string" where
  "text_of ls = concat (map (\<lambda>l. l @ [NL]) ls)"

definition usage_exit :: "os \<Rightarrow> string list \<Rightarrow> int \<Rightarrow> ('a world_scheme, status) prog" where
  "usage_exit os ls n =
     thenP (do_ignore os (if n = EXIT_SUCCESS then Output (text_of ls) else Stderr (text_of ls)))
       (ret (Exited n))"

definition usage :: "os \<Rightarrow> int \<Rightarrow> ('a world_scheme, status) prog" where
  "usage os n = usage_exit os
     [''usage: netevent <command>'',
      ''commands:'',
      ''  show DEVICE [COUNT]     show up to COUNT input events of DEVICE'',
      ''  cat [OPTIONS] DEVICE    dump device in netevent 1 or 2 comaptible way'',
      ''  create [OPTIONS]        create a device'',
      ''  daemon [OPTIONS] SOCK   run a device daemon'',
      ''  command SOCK <command>  send a runtime command to a daemon''] n"

definition show_version :: "os \<Rightarrow> string \<Rightarrow> int \<Rightarrow> ('a world_scheme, status) prog" where
  "show_version os NETEVENT_VERSION n = usage_exit os [''netevent version '' @ NETEVENT_VERSION] n"

definition usage_show :: "os \<Rightarrow> int \<Rightarrow> ('a world_scheme, status) prog" where
  "usage_show os n = usage_exit os
     [''usage: netevent show [options] DEVICE [COUNT]'',
      ''options:'',
      ''  -h, --help             show this help message'',
      ''  -g, --grab             grab the device'',
      ''  -G, --no-grab          do not grab the device (default)''] n"

definition usage_cat :: "os \<Rightarrow> int \<Rightarrow> ('a world_scheme, status) prog" where
  "usage_cat os n = usage_exit os
     [''usage: netevent cat [options] DEVICE'',
      ''options:'',
      ''  -h, --help             show this help message'',
      ''  -l, --legacy           run in netevent 1 compatible mode'',
      ''  --no-legacy            run in netevent 2 mode (default)'',
      ''  -g, --grab             grab the device (default)'',
      ''  -G, --no-grab          do not grab the device''] n"

definition usage_create :: "os \<Rightarrow> int \<Rightarrow> ('a world_scheme, status) prog" where
  "usage_create os n = usage_exit os
     [''usage: netevent create [options]'',
      ''options:'',
      ''  -h, --help             show this help message'',
      ''  -l, --legacy           run in netevent 1 compatible mode'',
      ''  --no-legacy            run in netevent 2 mode (default)'',
      ''  --duplicates=MODE      how to deal with duplicate devices'',
      ''  --listen=SOCKSPEC      listen on a socket instead of reading from stdin'',
      ''  --connect              try to connect before creating a new instance'',
      ''  --on-close=end|accept  whether to exit or restart on EOF'',
      ''  --daemonize            fork off into the background'',
      ''duplicate device modes:'',
      ''  reject                 treat duplicates as errors and exit (default)'',
      ''  resume                 assume the devices are equivalent and resume them'',
      ''  replace                remove the previous device and create a new one''] n"

definition usage_daemon :: "os \<Rightarrow> int \<Rightarrow> ('a world_scheme, status) prog" where
  "usage_daemon os n = usage_exit os
     [''usage: netevent daemon [options] SOCKETNAME'',
      ''options:'',
      ''  -h, --help             show this help message'',
      ''  -s, --source=FILE      run commands from FILE on startup''] n"

section \<open>Options\<close>

text \<open>
  The options are the values \<open>getopt_long\<close> returns, in order, with their arguments: a
  character's code, or the number of a long option. The loop over them ends with the options
  that were set, with a complaint on standard error followed by the help text, or with
  \<open>return\<close> for a value no case expects.
\<close>

type_synonym getopt = "(nat \<times> string) list"

datatype 'o parsed = Options 'o | Exit "string list" int | Return int

fun parse_options :: "('o \<Rightarrow> nat \<Rightarrow> string \<Rightarrow> 'o parsed) \<Rightarrow> 'o \<Rightarrow> getopt \<Rightarrow> 'o parsed" where
  "parse_options step o1 [] = Options o1"
| "parse_options step o1 ((c, arg) # os1) =
     (case step o1 c arg of
        Options o2 \<Rightarrow> parse_options step o2 os1
      | Exit msg n \<Rightarrow> Exit msg n
      | Return n \<Rightarrow> Return n)"

definition opt :: "char \<Rightarrow> nat" where
  "opt c = of_char c"

definition with_options ::
    "os \<Rightarrow> 'o parsed \<Rightarrow> (int \<Rightarrow> ('a world_scheme, status) prog) \<Rightarrow> ('o \<Rightarrow> ('a world_scheme, status) prog) \<Rightarrow>
     ('a world_scheme, status) prog" where
  "with_options os p help m = (case p of
     Options o1 \<Rightarrow> m o1
   | Exit msg n \<Rightarrow> thenP (whenP (msg \<noteq> []) (do_ignore os (Stderr (text_of msg)))) (help n)
   | Return n \<Rightarrow> thenP (do_ignore os (Stderr (''getopt error'' @ [NL]))) (ret (Status n)))"

lemma with_options_Options [simp]: "with_options os (Options o1) help m = m o1"
  by (simp add: with_options_def)

end
