(* ===== verification/Commands.thy ===== *)
theory Commands
  imports Usage Reader Sockets
begin

text \<open>
  The subcommands of \<^verbatim>\<open>main.cpp\<close> that need one device or one socket: \<open>cmd_show\<close>,
  \<open>cmd_cat\<close>, \<open>cmd_command\<close> and the copying loop \<open>cat\<close>. \<open>opts\<close> are the results of
  \<open>getopt_long\<close>, \<open>args\<close> the arguments it leaves.
\<close>

section \<open>show\<close>

text \<open>A destructor that runs when its scope is left, normally or by an exception.\<close>

definition finallyP :: "('s, 'a) prog \<Rightarrow> ('s, unit) prog \<Rightarrow> ('s, 'a) prog" where
  "finallyP m c = bindP (catchP m (\<lambda>ex. thenP c (raise ex))) (\<lambda>x. thenP c (ret x))"

text \<open>\<open>InDevice::read\<close> where the caller does not catch its exceptions.\<close>

definition in_read :: "os \<Rightarrow> 32 word \<Rightarrow> InDevice \<Rightarrow> ('a world_scheme, (bool \<times> InputEvent) \<times> InDevice) prog" where
  "in_read os pad d = bindP (InDevice_read os pad d) (\<lambda>(r, d').
     case r of
       Inr ev \<Rightarrow> ret (ev, d')
     | Inl (Some ex) \<Rightarrow> raise ex
     | Inl None \<Rightarrow> undef)"

definition show_step :: "bool \<Rightarrow> nat \<Rightarrow> string \<Rightarrow> bool parsed" where
  "show_step g c arg =
     (if c = opt CHR ''h'' then Exit [] EXIT_SUCCESS
      else if c = opt CHR ''g'' then Options True
      else if c = opt CHR ''G'' then Options False
      else if c = opt CHR ''?'' then Options g
      else Return (- 1))"

text \<open>The line printed for an event.\<close>

definition show_event :: "InputEvent \<Rightarrow> string" where
  "show_event ev = EV2String (unat (ev_type ev)) @ '':'' @ show_nat (unat (ev_code ev)) @ '':'' @
     show_int (sint (ev_value ev)) @ [NL]"

fun show_loop :: "os \<Rightarrow> 32 word \<Rightarrow> nat \<Rightarrow> InDevice \<Rightarrow> ('a world_scheme, unit) prog" where
  "show_loop os pad 0 d = ret ()"
| "show_loop os pad (Suc n) d =
     bindP (in_read os pad d) (\<lambda>((more, ev), d').
     if more then thenP (do_ignore os (Output (show_event ev))) (show_loop os (padding ev) n d')
     else ret ())"

definition cmd_show :: "os \<Rightarrow> endian \<Rightarrow> 32 word \<Rightarrow> getopt \<Rightarrow> string list \<Rightarrow> ('a world_scheme, status) prog" where
  "cmd_show os e pad opts args =
     with_options os (parse_options show_step False opts) (usage_show os) (\<lambda>optGrab.
       if length args \<noteq> 1 \<and> length args \<noteq> 2 then usage_show os EXIT_FAILURE
       else
         (case (if length args = 2 then parseULong (args ! 1) SIZE_MAX else Parsed 10) of
            Overflow \<Rightarrow> undef
          | Rejected \<Rightarrow> thenP (do_ignore os (Stderr (''bad count: '' @ args ! 1 @ [NL]))) (ret (Status 2))
          | Parsed maxcount \<Rightarrow>
              bindP (InDevice_new os e (args ! 0)) (\<lambda>dev.
              finallyP
                (bindP (if optGrab then InDevice_grab os True dev else ret dev) (\<lambda>dev.
                 thenP (show_loop os pad (unat maxcount) dev) (ret (Status 0))))
                (InDevice_delete os dev))))"

section \<open>cat\<close>

definition cat_step :: "bool \<times> bool \<Rightarrow> nat \<Rightarrow> string \<Rightarrow> (bool \<times> bool) parsed" where
  "cat_step o1 c arg =
     (if c = opt CHR ''h'' then Exit [] EXIT_SUCCESS
      else if c = opt CHR ''l'' then Options (True, snd o1)
      else if c = 0x1000 then Options (False, snd o1)
      else if c = opt CHR ''g'' then Options (fst o1, True)
      else if c = opt CHR ''G'' then Options (fst o1, False)
      else if c = opt CHR ''?'' then Options o1
      else Return (- 1))"

definition write_failed :: "os \<Rightarrow> errno \<Rightarrow> ('a world_scheme, status) prog" where
  "write_failed os err =
     thenP (do_ignore os (Stderr (''write failed: '' @ os_strerror os err @ [NL]))) (ret (Status 2))"

text \<open>
  The two loops: they end when the device is lost (an exception) or a write fails, so they
  take fuel. \<open>pad\<close> is the padding of the event object, which nothing in the loops changes.
\<close>

fun cat_legacy :: "os \<Rightarrow> endian \<Rightarrow> 32 word \<Rightarrow> nat \<Rightarrow> InDevice \<Rightarrow> ('a world_scheme, status) prog" where
  "cat_legacy os e pad 0 d = nofuel"
| "cat_legacy os e pad (Suc n) d =
     bindP (in_read os pad d) (\<lambda>((more, ev), d').
     if \<not> more then ret (Status 0)
     else bindP (mustWrite os 1 (event_mem e ev)) (\<lambda>r. case r of
            Some err \<Rightarrow> write_failed os err
          | None \<Rightarrow> cat_legacy os e (padding ev) n d'))"

fun cat_events :: "os \<Rightarrow> endian \<Rightarrow> 32 word \<Rightarrow> nat \<Rightarrow> InDevice \<Rightarrow> ('a world_scheme, status) prog" where
  "cat_events os e pad 0 d = nofuel"
| "cat_events os e pad (Suc n) d =
     bindP (in_read os pad d) (\<lambda>((more, ev), d').
     if \<not> more then ret (Status 0)
     else bindP (mustWrite os 1 (event_packet e 0 ev)) (\<lambda>r. case r of
            Some err \<Rightarrow> write_failed os err
          | None \<Rightarrow> cat_events os e (padding ev) n d'))"

definition cmd_cat ::
    "os \<Rightarrow> uapi \<Rightarrow> endian \<Rightarrow> 32 word \<Rightarrow> nat \<Rightarrow> getopt \<Rightarrow> string list \<Rightarrow> ('a world_scheme, status) prog" where
  "cmd_cat os u e pad fuel opts args =
     with_options os (parse_options cat_step (False, True) opts) (usage_cat os) (\<lambda>(optLegacyMode, optGrab).
       if args = [] then
         thenP (do_ignore os (Stderr (''missing device name'' @ [NL]))) (usage_cat os EXIT_FAILURE)
       else if length args \<noteq> 1 then
         thenP (do_ignore os (Stderr (''too many parameters'' @ [NL]))) (usage_cat os EXIT_FAILURE)
       else
         bindP (InDevice_new os e (args ! 0)) (\<lambda>dev.
         finallyP
           (bindP (if optGrab then InDevice_grab os True dev else ret dev) (\<lambda>dev.
            if optLegacyMode
            then thenP (writeNeteventHeader os u e dev 1) (cat_legacy os e pad fuel dev)
            else thenP (writeHello os e 1)
                 (thenP (writeNE2AddDevice os u e dev 1 0) (cat_events os e 0 fuel dev))))
           (InDevice_delete os dev)))"

section \<open>Copying a stream\<close>

text \<open>
  \<open>cat (from, to)\<close>: the results of the successive reads of at most 1024 bytes are a list,
  as in \<open>mustRead_loop\<close>.
\<close>

fun cat :: "os \<Rightarrow> int \<Rightarrow> read_result list \<Rightarrow> ('a world_scheme, int) prog" where
  "cat os dst [] = ret 0"
| "cat os dst (RErr err # rs) = throw_errno (os_strerror os) ''read error'' err"
| "cat os dst (RData bs # rs) =
     (if bs = [] then ret 0
      else bindP (mustWrite os dst bs) (\<lambda>r. case r of
             Some err \<Rightarrow> throw_errno (os_strerror os) ''write error'' err
           | None \<Rightarrow> cat os dst rs))"

section \<open>command\<close>

text \<open>The copying loop of \<open>cmd_command\<close>, which reports instead of throwing.\<close>

fun print_response :: "os \<Rightarrow> read_result list \<Rightarrow> ('a world_scheme, int) prog" where
  "print_response os [] = ret 0"
| "print_response os (RErr err # rs) =
     thenP (do_ignore os (Stderr (''failed to read response: '' @ os_strerror os err @ [NL]))) (ret 2)"
| "print_response os (RData bs # rs) =
     (if bs = [] then ret 0
      else bindP (mustWrite os 1 bs) (\<lambda>r. case r of
             Some err \<Rightarrow> ret (- 1)
           | None \<Rightarrow> print_response os rs))"

definition connect_to :: "os \<Rightarrow> byte list \<Rightarrow> string \<Rightarrow> ('a, unit) sock_prog" where
  "connect_to os junk name =
     (if deref name = CHR ''@'' then connectUnix os junk True (tl name)
      else connectUnix os junk False name)"

text \<open>\<open>args\<close> is \<open>argv\<close> from the subcommand on; \<open>rs\<close> what the connection answers.\<close>

definition cmd_command ::
    "os \<Rightarrow> byte list \<Rightarrow> string list \<Rightarrow> read_result list \<Rightarrow> ('a world_scheme, int) prog" where
  "cmd_command os junk args rs =
     (if length args < 3 then
        thenP (do_ignore os (Stderr (''usage: netevent command SOCKETNAME COMMAND'' @ [NL]))) (ret 2)
      else if cstr (args ! 1) = [] then
        thenP (do_ignore os (Stderr (''bad socket name'' @ [NL]))) (ret 3)
      else
        let command = join CHR '' '' (drop 2 args) in
        if command = [] then ret 0
        else with_obj (\<lambda>_. Socket_new) (\<lambda>_ s. s)
          (finallyP
            (thenP (connect_to os junk (args ! 1))
            (bindP (obj sock_fd) (\<lambda>fd.
             bindP (lift_world (mustWrite os fd (str_bytes command))) (\<lambda>r.
             thenP (case r of
                      None \<Rightarrow> ret ()
                    | Some err \<Rightarrow> lift_world (do_ignore os
                        (Stderr (''failed to send command: '' @ os_strerror os err @ [NL]))))
             (thenP (Socket_shutdown os False)
               (lift_world (print_response os rs)))))))
            (Socket_close os)))"

lemma run_finally [run_simps]:
  "finallyP m c s = (case m s of
     (Ret x, s') \<Rightarrow> thenP c (ret x) s'
   | (Throw e, s') \<Rightarrow> thenP c (raise e) s'
   | (Undef, s') \<Rightarrow> (Undef, s')
   | (NoFuel, s') \<Rightarrow> (NoFuel, s'))"
  by (auto simp: finallyP_def run_simps split: prod.split outcome.split)

section \<open>What cat sends\<close>

text \<open>
  A device that reports the events \<open>evs\<close> and then the end of the file: the answer to a read
  depends on how often the device has been read.
\<close>

definition reads_of :: "int \<Rightarrow> effect list \<Rightarrow> nat" where
  "reads_of fd h = length (filter (\<lambda>x. fst x = ReadEvent fd) h)"

definition event_script :: "os \<Rightarrow> int \<Rightarrow> kernel_event list \<Rightarrow> bool" where
  "event_script os fd evs \<longleftrightarrow> (\<forall>h. os_event os h (ReadEvent fd) =
     (if reads_of fd h < length evs then Inr (evs ! reads_of fd h) else Inl 0))"

definition event_of :: "32 word \<Rightarrow> kernel_event \<Rightarrow> InputEvent" where
  "event_of pad ke = \<lparr>tv_sec = ke_sec ke, tv_usec = ke_usec ke, ev_type = ke_type ke,
     ev_code = ke_code ke, ev_value = ke_value ke, padding = pad\<rparr>"

lemma reads_of_append [simp]: "reads_of fd (h @ h') = reads_of fd h + reads_of fd h'"
  by (simp add: reads_of_def)

lemma reads_of_list [simp]:
  "reads_of fd [] = 0"
  "reads_of fd ((c, r) # h) = (if c = ReadEvent fd then Suc (reads_of fd h) else reads_of fd h)"
  by (simp_all add: reads_of_def)

lemma in_read_script:
  assumes "event_script os (in_fd d) evs" and "\<not> eof d" and "reads_of (in_fd d) (history s) < length evs"
  shows "in_read os pad d s =
    (Ret ((True, event_of pad (evs ! reads_of (in_fd d) (history s))), d),
     log_call (ReadEvent (in_fd d)) None s)"
  using assms by (simp add: in_read_def InDevice_read_def run_simps event_script_def event_of_def err_of_def)

lemma in_read_end:
  assumes "event_script os (in_fd d) evs" and "\<not> reads_of (in_fd d) (history s) < length evs"
  shows "in_read os pad d s =
    (Throw (Exception ''unexpected EOF''), log_call (ReadEvent (in_fd d)) (Some 0) s)"
  using assms by (simp add: in_read_def InDevice_read_def run_simps event_script_def err_of_def)

text \<open>
  What \<open>cat\<close>'s two loops have in common: they read an event and write its encoding to
  standard output, over and over.
\<close>

locale event_sender =
  fixes os :: os
    and enc :: "InputEvent \<Rightarrow> byte list"
    and loop :: "32 word \<Rightarrow> nat \<Rightarrow> InDevice \<Rightarrow> ('a world_scheme, status) prog"
  assumes loop_step: "loop pad (Suc n) d = bindP (in_read os pad d) (\<lambda>((more, ev), d').
     if \<not> more then ret (Status 0)
     else bindP (mustWrite os 1 (enc ev)) (\<lambda>r. case r of
            Some err \<Rightarrow> write_failed os err
          | None \<Rightarrow> loop (padding ev) n d'))"
begin

lemma sends:
  assumes "event_script os (in_fd d) evs" and "writes_ok os 1" and "\<not> eof d"
    and "length evs - reads_of (in_fd d) (history s) < n"
  shows "fst (loop pad n d s) = Throw (Exception ''unexpected EOF'') \<and>
    wrote 1 (history (snd (loop pad n d s))) = wrote 1 (history s) @
      concat (map (\<lambda>ke. enc (event_of pad ke)) (drop (reads_of (in_fd d) (history s)) evs))"
  using assms(4)
proof (induction n arbitrary: s)
  case 0
  then show ?case by simp
next
  case (Suc n)
  let ?k = "reads_of (in_fd d) (history s)"
  show ?case
  proof (cases "?k < length evs")
    case False
    then show ?thesis by (simp add: loop_step run_simps in_read_end [OF assms(1)])
  next
    case True
    let ?p = "enc (event_of pad (evs ! ?k))"
    let ?s = "log_call (Write 1 ?p) None (log_call (ReadEvent (in_fd d)) None s)"
    have pad: "padding (event_of pad ke) = pad" for ke by (simp add: event_of_def)
    have run: "loop pad (Suc n) d s = loop pad n d ?s"
      using assms(2) by (simp add: loop_step run_simps in_read_script [OF assms(1,3) True] mustWrite_def
        writes_ok_def pad)
    have k: "reads_of (in_fd d) (history ?s) = Suc ?k" by (simp add: reads_of_def)
    have "length evs - reads_of (in_fd d) (history ?s) < n" using Suc.prems True k by simp
    from Suc.IH [OF this] show ?thesis
      unfolding run k by (simp add: Cons_nth_drop_Suc [OF True, symmetric])
  qed
qed

end

interpretation packets: event_sender os "event_packet e 0" "cat_events os e" for os e
  by unfold_locales simp

interpretation raw: event_sender os "event_mem e" "cat_legacy os e" for os e
  by unfold_locales simp

lemma InDevice_new_ok:
  "InDevice_new os e path s = (Ret d, s') \<Longrightarrow> InDevice_ok d \<and> eof d = False"
  by (auto simp: InDevice_new_def in_ctl_def run_simps run_throw_errno Let_def InDevice_ok_def
      resize_new bits_of_def byte_size_def name_size_def split: sum.splits outcome.splits)

text \<open>Nothing before the loop reads an event.\<close>

lemma keeps_reads_call:
  assumes "c \<noteq> ReadEvent fd"
  shows "keeps (\<lambda>s. reads_of fd (history s) = k) (do_call os c)"
    "keeps (\<lambda>s. reads_of fd (history s) = k) (do_query os c)"
  using assms by (auto intro!: keeps_logged)

lemma keeps_reads_ctl: "keeps (\<lambda>s. reads_of fd (history s) = k) (in_ctl os dfd q msg)"
  unfolding in_ctl_def by (auto intro!: keeps_intro keeps_reads_call)

lemma keeps_reads:
  "keeps (\<lambda>s. reads_of fd (history s) = k) (InDevice_new os e path)"
  "keeps (\<lambda>s. reads_of fd (history s) = k) (InDevice_grab os on d)"
  "keeps (\<lambda>s. reads_of fd (history s) = k) (writeHello os e out)"
  unfolding InDevice_new_def InDevice_grab_def writeHello_def mustWrite_def Let_def
  by (auto intro!: keeps_intro keeps_reads_call keeps_reads_ctl keeps_logged_open
      simp: log_open_def split: sum.split)

lemma keeps_reads_entries:
  "keeps (\<lambda>s. reads_of fd (history s) = k) (write_entries os u e dfd out evs entry absbits)"
  by (induction evs arbitrary: entry absbits)
    (auto intro!: keeps_intro keeps_reads_ctl keeps_reads_call simp: mustWrite_def Let_def)

lemma keeps_reads_announce:
  "keeps (\<lambda>s. reads_of fd (history s) = k) (writeNE2AddDevice os u e d out dev)"
  unfolding writeNE2AddDevice_def write_axis_def mustWrite_def
  by (auto intro!: keeps_intro keeps_reads_ctl keeps_reads_entries keeps_reads_call)

text \<open>The device of a run of \<open>cat\<close>: it can be grabbed, its answers do not change.\<close>

definition cat_device :: "os \<Rightarrow> endian \<Rightarrow> uapi \<Rightarrow> InDevice \<Rightarrow> (nat \<Rightarrow> byte list) \<Rightarrow> (nat \<Rightarrow> absinfo) \<Rightarrow> kernel_event list \<Rightarrow> bool" where
  "cat_device os e u d entries axis evs \<longleftrightarrow>
     steady os e (in_fd d) u entries axis \<and> event_script os (in_fd d) evs \<and>
     (\<forall>h. os_call os h (Ioctl (in_fd d) (EVIOCGRAB True)) = None)"

text \<open>All that \<open>cat\<close> puts on standard output.\<close>

definition cat_stream :: "uapi \<Rightarrow> endian \<Rightarrow> InDevice \<Rightarrow> (nat \<Rightarrow> byte list) \<Rightarrow> (nat \<Rightarrow> absinfo) \<Rightarrow> kernel_event list \<Rightarrow> byte list" where
  "cat_stream u e d entries axis evs =
     hello_packet e @ add_packet u e 0 @
     (dev_name d @ id_net e (dev_id d) @ put_be e 2 (word_of_nat EV_MAX :: 16 word) @
      data (evbits d) @ ne2_add_body u e d entries axis) @
     concat (map (\<lambda>ke. event_packet e 0 (event_of 0 ke)) evs)"

lemma emits_hello: "writes_ok os fd \<Longrightarrow> emits fd (writeHello os e fd) () (hello_packet e)"
  unfolding writeHello_def
  by (rule emits_eq, rule emits_write_bind, assumption, simp, rule emits_ret) simp

lemma wrote_log [simp]:
  "wrote fd (history (log_call c r s)) = wrote fd (history s) @ wrote fd [(c, r)]"
  by simp

text \<open>The run of \<open>cat\<close>, for the claims about it and about its receiver.\<close>

lemma run_cmd_cat:
  fixes s :: "'a world_scheme"
  assumes dev: "InDevice_new os e path s = (Ret d, s1)" and ok: "uapi_ok u"
    and w: "writes_ok os 1" and script: "cat_device os e u d entries axis evs"
    and first: "reads_of (in_fd d) (history s) = 0" and fuel: "length evs < fuel"
  shows "fst (cmd_cat os u e pad fuel [] [path] s) = Throw (Exception ''unexpected EOF'') \<and>
    wrote 1 (history (snd (cmd_cat os u e pad fuel [] [path] s))) =
      wrote 1 (history s1) @ cat_stream u e d entries axis evs"
proof -
  let ?d = "d\<lparr>grabbing := True\<rparr>"
  let ?h = "writeHello os e 1 :: ('a world_scheme, unit) prog"
  let ?a = "writeNE2AddDevice os u e ?d 1 0 :: ('a world_scheme, unit) prog"
  have dok: "InDevice_ok ?d" and eof: "\<not> eof ?d"
    using InDevice_new_ok [OF dev] by (simp_all add: InDevice_ok_def)
  have st: "steady os e (in_fd ?d) u entries axis" and sc: "event_script os (in_fd ?d) evs"
    and gr: "os_call os h (Ioctl (in_fd d) (EVIOCGRAB True)) = None" for h
    using script by (simp_all add: cat_device_def)
  define s2 where "s2 = log_call (Ioctl (in_fd d) (EVIOCGRAB True)) None s1"
  define s3 where "s3 = snd (?h s2)"
  define s4 where "s4 = snd (?a s3)"
  have h: "?h s2 = (Ret (), s3)" "wrote 1 (history s3) = wrote 1 (history s1) @ hello_packet e"
    using emits_wrote [OF emits_hello [OF w], of e s2] by (auto simp: s3_def s2_def prod_eq_iff)
  have a: "?a s3 = (Ret (), s4)" "wrote 1 (history s4) = wrote 1 (history s3) @
      ne2_add_header u e ?d 0 @ ne2_add_body u e ?d entries axis"
    using emits_wrote [OF emits_announce [OF dok st ok w, of 0], of s3]
    by (auto simp: s4_def prod_eq_iff)
  have r1: "reads_of (in_fd d) (history s1) = 0"
    using keepsD [OF keeps_reads(1) first dev] .
  then have r2: "reads_of (in_fd d) (history s2) = 0" by (simp add: s2_def)
  have r3: "reads_of (in_fd d) (history s3) = 0"
    using keepsD [OF keeps_reads(3) r2 h(1)] .
  have r4: "reads_of (in_fd ?d) (history s4) = 0"
    using keepsD [OF keeps_reads_announce r3 a(1)] by simp
  have "length evs - reads_of (in_fd ?d) (history s4) < fuel" using fuel by simp
  note c = packets.sends [OF sc w eof this, of e 0]
  have stream: "ne2_add_header u e ?d 0 @ ne2_add_body u e ?d entries axis =
      add_packet u e 0 @ dev_name d @ id_net e (dev_id d) @ put_be e 2 (word_of_nat EV_MAX :: 16 word) @
      data (evbits d) @ ne2_add_body u e d entries axis"
    using dok by (simp add: ne2_add_header_def InDevice_ok_def ne2_add_body_def)
  from c obtain s5 where s5: "cat_events os e 0 fuel ?d s4 = (Throw (Exception ''unexpected EOF''), s5)"
    "wrote 1 (history s5) = wrote 1 (history s4) @ concat (map (\<lambda>ke. event_packet e 0 (event_of 0 ke)) evs)"
    by (cases "cat_events os e 0 fuel ?d s4") (simp add: r4 [simplified])
  have "InDevice_grab os True d s1 = (Ret ?d, s2)"
    using gr by (simp add: InDevice_grab_def run_simps s2_def)
  then have "cmd_cat os u e pad fuel [] [path] s =
      (thenP (InDevice_delete os d) (raise (Exception ''unexpected EOF''))) s5"
    using dev h(1) a(1) s5(1) by (simp add: cmd_cat_def run_simps)
  moreover have "wrote 1 (history s5) = wrote 1 (history s1) @ cat_stream u e d entries axis evs"
    using s5(2) a(2) h(2) stream by (simp add: cat_stream_def)
  ultimately show ?thesis by (simp add: InDevice_delete_def run_simps)
qed

text \<open>
  C25. netevent cat on a device that opens, can be grabbed and reports the events evs puts on
  standard output exactly the hello packet, the announcement of the device as device 0 and
  one packet per event, in order, and ends with the exception for the lost device.
\<close>

theorem cmd_cat_output:
  fixes s :: "'a world_scheme"
  assumes dev: "InDevice_new os e path s = (Ret d, s1)" and ok: "uapi_ok u"
    and w: "writes_ok os 1" and script: "cat_device os e u d entries axis evs"
    and first: "reads_of (in_fd d) (history s) = 0" and fuel: "length evs < fuel"
  shows "fst (cmd_cat os u e pad fuel [] [path] s) = Throw (Exception ''unexpected EOF'') \<and>
    wrote 1 (history (snd (cmd_cat os u e pad fuel [] [path] s))) =
      wrote 1 (history s1) @ cat_stream u e d entries axis evs"
  by (rule run_cmd_cat [OF assms])

definition sample_event :: kernel_event where
  "sample_event = \<lparr>ke_sec = 1, ke_usec = 2, ke_type = 1, ke_code = 30, ke_value = 1\<rparr>"

definition cat_os :: "endian \<Rightarrow> os" where
  "cat_os e = (sample_os e)\<lparr>os_open := (\<lambda>_ _. Inr 4),
     os_event := (\<lambda>h c. if reads_of 4 h < length [sample_event]
       then Inr ([sample_event] ! reads_of 4 h) else Inl 0)\<rparr>"

lemma sample_opens:
  assumes answers: "\<And>h c. os_open os h c = Inr 4"
    "\<And>h. os_query os h (Query 4 EVIOCGNAME) = Inr (str_bytes ''pad'')"
    "\<And>h. os_query os h (Query 4 EVIOCGID) = Inr (id_mem e (dev_id sample_device))"
    "\<And>h. os_query os h (Query 4 (EVIOCGBIT EV_SYN 4)) = Inr [15, 0, 0, 0]"
  shows "InDevice_new os e ''/dev/input/event4'' s =
    (Ret sample_device, s\<lparr>history := history s @ [(Open ''/dev/input/event4'', None), (GotFd 4, None),
      (Query 4 EVIOCGNAME, None), (Query 4 EVIOCGID, None), (Query 4 (EVIOCGBIT 0 4), None)]\<rparr>)"
proof -
  have name: "overlay (replicate name_size 0) (str_bytes ''pad'') = str_bytes ''pad'' @ replicate 77 0"
    by (simp add: overlay_def name_size_def)
  have real: "bytes_str (takeWhile (\<lambda>b. b \<noteq> 0) (str_bytes ''pad'' @ replicate 77 0)) = ''pad''"
    by (simp add: takeWhile_str_bytes)
  have idd: "overlay (replicate 8 0) (id_mem e i) = id_mem e i" for i
    using host_id.length_enc [of e i] by (simp add: overlay_def)
  have evb: "(snd (resize (Some (\<lambda>_. 0)) EV_MAX Bits_empty))
      \<lparr>data := overlay (data (snd (resize (Some (\<lambda>_. 0)) EV_MAX Bits_empty))) [15, 0, 0, 0]\<rparr> =
      \<lparr>bitcount = EV_MAX, data = [15, 0, 0, 0]\<rparr>"
    by (simp add: resize_new bits_of_def overlay_def byte_size_def)
  have path: "cstr ''/dev/input/event4'' = ''/dev/input/event4''" by (simp add: cstr_def)
  have size: "byte_size EV_MAX = 4" by (simp add: byte_size_def)
  show ?thesis
    unfolding InDevice_new_def in_ctl_def Let_def path
    by (simp only: run_simps answers size log_open_def sum.case prod.case outcome.case err_of_def
        name real idd evb host_id.dec_enc) (simp add: sample_device_def log_call_def)
qed

lemma cat_os_device:
  "InDevice_new (cat_os e) e ''/dev/input/event4'' \<lparr>history = []\<rparr> =
    (Ret sample_device, \<lparr>history = [(Open ''/dev/input/event4'', None), (GotFd 4, None),
      (Query 4 EVIOCGNAME, None), (Query 4 EVIOCGID, None), (Query 4 (EVIOCGBIT 0 4), None)]\<rparr>)"
  by (subst sample_opens) (simp_all add: cat_os_def sample_os_def)

lemma cat_os_script: "cat_device (cat_os e) e linux_uapi sample_device sample_entries sample_axis [sample_event]"
  using sample_ok(2) [of e]
  by (simp add: cat_device_def cat_os_def event_script_def steady_def sample_device_def
      sample_os_def quiet_os_def)

theorem cmd_cat_output_witness:
  "fst (cmd_cat (cat_os Little) linux_uapi Little 0 2 [] [''/dev/input/event4''] \<lparr>history = []\<rparr>) =
     Throw (Exception ''unexpected EOF'') \<and>
   wrote 1 (history (snd (cmd_cat (cat_os Little) linux_uapi Little 0 2 [] [''/dev/input/event4'']
     \<lparr>history = []\<rparr>))) =
     cat_stream linux_uapi Little sample_device sample_entries sample_axis [sample_event]"
proof -
  have w: "writes_ok (cat_os Little) 1" by (simp add: writes_ok_def cat_os_def sample_os_def quiet_os_def)
  from cmd_cat_output [OF cat_os_device linux_uapi_ok w cat_os_script, of 2 0] show ?thesis by simp
qed

end
