(* ===== verification/Create.thy ===== *)
theory Create
  imports Announce Commands StdMap
begin

text \<open>
  \<open>cmd_create\<close> of \<^verbatim>\<open>main.cpp\<close>: the receiving end. It reads packets from standard
  input, or from the clients of a socket one after the other, and keeps a map from the
  sender's device ids to the uinput devices it made for them.

  The state extends that of \<^verbatim>\<open>writer.cpp\<close> by the map \<open>devices\<close>, the listening
  socket, the handle \<open>inhandle\<close> the current stream came from, and the streams still to
  come: \<open>clients\<close> are those of the connections \<open>accept\<close> will return, each with the errno at
  its end. When there is none left, \<open>accept\<close> blocks and the program stays where it is.
\<close>

record cstate = wstate +
  devices :: "(16 word, OutDevice) std_map"
  serversock :: Socket
  inhandle :: int
  clients :: "(byte list \<times> errno) list"

section \<open>Options\<close>

datatype DuplicateMode = Reject | Resume | Replace
datatype CloseAction = CloseEnd | CloseAccept

record create_opts =
  no_legacy :: bool
  optLegacyMode :: bool
  optDaemonize :: bool
  optConnect :: bool
  optDuplicates :: DuplicateMode
  optOnClose :: CloseAction
  optListen :: "string option"

definition create_defaults :: create_opts where
  "create_defaults = \<lparr>no_legacy = False, optLegacyMode = False, optDaemonize = False,
     optConnect = False, optDuplicates = Reject, optOnClose = CloseAccept, optListen = None\<rparr>"

definition create_step :: "create_opts \<Rightarrow> nat \<Rightarrow> string \<Rightarrow> create_opts parsed" where
  "create_step o1 c arg =
     (if c = opt CHR ''h'' then Exit [] EXIT_SUCCESS
      else if c = opt CHR ''l'' then Options (o1\<lparr>optLegacyMode := True\<rparr>)
      else if c = 0x1000 then Options (o1\<lparr>optLegacyMode := False\<rparr>)
      else if c = 0x1003 then Options (o1\<lparr>optDaemonize := True\<rparr>)
      else if c = 0xf003 then Options (o1\<lparr>optDaemonize := False\<rparr>)
      else if c = 0x1004 then Options (o1\<lparr>optConnect := True\<rparr>)
      else if c = 0xf004 then Options (o1\<lparr>optConnect := False\<rparr>)
      else if c = opt CHR ''d'' then
        (let o2 = o1\<lparr>no_legacy := True\<rparr> in
         if strcaseeq arg ''reject'' then Options (o2\<lparr>optDuplicates := Reject\<rparr>)
         else if strcaseeq arg ''resume'' then Options (o2\<lparr>optDuplicates := Resume\<rparr>)
         else if strcaseeq arg ''replace'' then Options (o2\<lparr>optDuplicates := Replace\<rparr>)
         else Exit [''invalid mode for duplicate devices'',
                ''should be '' @ quoted ''reject'' @ '', '' @ quoted ''resume'' @ '' or '' @ quoted ''replace'']
                EXIT_FAILURE)
      else if c = 0x1001 then Options (o1\<lparr>no_legacy := True, optListen := Some arg\<rparr>)
      else if c = 0x1002 then
        (let o2 = o1\<lparr>no_legacy := True\<rparr> in
         if strcaseeq arg ''end'' then Options (o2\<lparr>optOnClose := CloseEnd\<rparr>)
         else if strcaseeq arg ''accept'' then Options (o2\<lparr>optOnClose := CloseAccept\<rparr>)
         else Exit [''invalid on-close action'', ''should be '' @ quoted ''end'' @ '' or '' @ quoted ''accept'']
                EXIT_FAILURE)
      else if c = opt CHR ''?'' then Options o1
      else Return (- 1))"

section \<open>Packets\<close>

text \<open>\<open>devices[id] = std::move (dev)\<close>: the new device is in place before the old one dies.\<close>

definition store_device :: "os \<Rightarrow> 16 word \<Rightarrow> OutDevice \<Rightarrow> ('a cstate_scheme, unit) prog" where
  "store_device os i d =
     bindP (getP (\<lambda>s. map_find i (devices s))) (\<lambda>old.
     thenP (modifyP (\<lambda>s. s\<lparr>devices := map_set i d (devices s)\<rparr>))
       (case old of None \<Rightarrow> ret () | Some d' \<Rightarrow> OutDevice_delete os d'))"

definition add_new :: "os \<Rightarrow> uapi \<Rightarrow> endian \<Rightarrow> byte list \<Rightarrow> ('a cstate_scheme, unit) prog" where
  "add_new os u e pkt =
     bindP (newFromNE2AddCommand os u e pkt False) (\<lambda>r. case r of
       None \<Rightarrow> undef
     | Some d \<Rightarrow> store_device os (pkt_id e pkt) d)"

definition handle_AddDevice :: "os \<Rightarrow> uapi \<Rightarrow> endian \<Rightarrow> DuplicateMode \<Rightarrow> byte list \<Rightarrow> ('a cstate_scheme, unit) prog" where
  "handle_AddDevice os u e dm pkt0 =
     (let pkt = add_to_host e pkt0 in
      if dm = Replace then add_new os u e pkt
      else bindP (getP (\<lambda>s. map_find (pkt_id e pkt) (devices s))) (\<lambda>old.
        if old = None then add_new os u e pkt
        else if dm = Reject
        then throw_msg (''protocol error: duplicate device '' @ show_nat (unat (pkt_id e pkt)))
        else bindP (newFromNE2AddCommand os u e pkt True) (\<lambda>_. ret ())))"

definition missing_device :: "16 word \<Rightarrow> ('s, 'a) prog" where
  "missing_device i = throw_msg (''protocol error: missing device '' @ show_nat (unat i))"

definition handle_RemoveDevice :: "os \<Rightarrow> endian \<Rightarrow> byte list \<Rightarrow> ('a cstate_scheme, unit) prog" where
  "handle_RemoveDevice os e pkt =
     (let i = hton e 2 (pkt_id e pkt) in
      bindP (getP (\<lambda>s. map_find i (devices s))) (\<lambda>r. case r of
        None \<Rightarrow> missing_device i
      | Some d \<Rightarrow> thenP (modifyP (\<lambda>s. s\<lparr>devices := map_erase i (devices s)\<rparr>))
          (OutDevice_delete os d)))"

definition handle_DeviceEvent :: "os \<Rightarrow> endian \<Rightarrow> byte list \<Rightarrow> ('a cstate_scheme, unit) prog" where
  "handle_DeviceEvent os e pkt =
     (let i = hton e 2 (pkt_id e pkt) in
      bindP (getP (\<lambda>s. map_find i (devices s))) (\<lambda>r. case r of
        None \<Rightarrow> missing_device i
      | Some d \<Rightarrow> OutDevice_write os d (toHost e (pkt_event e pkt))))"

text \<open>The body of the loop, on a packet as it was read.\<close>

definition handle_packet :: "os \<Rightarrow> uapi \<Rightarrow> endian \<Rightarrow> DuplicateMode \<Rightarrow> byte list \<Rightarrow> ('a cstate_scheme, unit) prog" where
  "handle_packet os u e dm pkt0 =
     (let pkt = cmd_to_host e pkt0; cmd = pkt_cmd e pkt in
      if cmd = cmd_Hello then (case checkHello e pkt of None \<Rightarrow> ret () | Some ex \<Rightarrow> raise ex)
      else if cmd = cmd_KeepAlive then ret ()
      else if cmd = cmd_AddDevice then handle_AddDevice os u e dm pkt
      else if cmd = cmd_RemoveDevice then handle_RemoveDevice os e pkt
      else if cmd = cmd_DeviceEvent then handle_DeviceEvent os e pkt
      else throw_msg (''protocol error: unknown packet type '' @ show_nat (unat cmd)))"

section \<open>The loop\<close>

definition on_server :: "('a cstate_scheme \<times> Socket, 'b) prog \<Rightarrow> ('a cstate_scheme, 'b) prog" where
  "on_server m = with_obj serversock (\<lambda>so s. s\<lparr>serversock := so\<rparr>) m"

text \<open>\<open>inhandle.close()\<close>.\<close>

definition close_inhandle :: "os \<Rightarrow> ('a cstate_scheme, unit) prog" where
  "close_inhandle os = bindP (getP inhandle) (\<lambda>fd.
     whenP (fd \<noteq> - 1)
       (thenP (do_ignore os (Close fd)) (modifyP (\<lambda>s. s\<lparr>inhandle := - 1\<rparr>))))"

text \<open>
  \<open>inhandle = serversock.accept(); infd = inhandle.fd()\<close>: from here on the packets come from
  the new client. \<open>False\<close>: no client comes any more and the call blocks.
\<close>

definition accept_client :: "os \<Rightarrow> ('a cstate_scheme, bool) prog" where
  "accept_client os =
     bindP (getP clients) (\<lambda>cs. case cs of
       [] \<Rightarrow> ret False
     | (bs, err) # cs' \<Rightarrow>
         bindP (on_server (Socket_accept os)) (\<lambda>fd.
         thenP (close_inhandle os)
         (thenP (modifyP (\<lambda>s. s\<lparr>inhandle := fd, rdata := bs, rend := err, clients := cs'\<rparr>))
           (ret True))))"

text \<open>
  \<open>Some n\<close>: the program returned \<open>n\<close>; \<open>None\<close>: it blocks in \<open>accept\<close>. The fuel bounds the
  number of packets and clients.
\<close>

fun create_loop :: "os \<Rightarrow> uapi \<Rightarrow> endian \<Rightarrow> DuplicateMode \<Rightarrow> nat \<Rightarrow> ('a cstate_scheme, int option) prog" where
  "create_loop os u e dm 0 = nofuel"
| "create_loop os u e dm (Suc n) =
     bindP (mustRead NE2Packet_size) (\<lambda>r. case r of
       Inr pkt \<Rightarrow> thenP (handle_packet os u e dm pkt) (create_loop os u e dm n)
     | Inl err \<Rightarrow>
         if err \<noteq> 0 then throw_errno (os_strerror os) ''read error'' err
         else bindP (getP (\<lambda>s. sock_fd (serversock s) \<noteq> - 1)) (\<lambda>listening.
           if listening then
             thenP (close_inhandle os)
             (bindP (accept_client os) (\<lambda>more.
              if more then create_loop os u e dm n else ret None))
           else ret (Some 0)))"

fun legacy_loop :: "os \<Rightarrow> endian \<Rightarrow> OutDevice \<Rightarrow> nat \<Rightarrow> ('a rworld_scheme, int option) prog" where
  "legacy_loop os e d 0 = nofuel"
| "legacy_loop os e d (Suc n) =
     bindP (mustRead 24) (\<lambda>r. case r of
       Inl err \<Rightarrow> if err = 0 then ret (Some 0) else throw_errno (os_strerror os) ''read error'' err
     | Inr ev \<Rightarrow> thenP (OutDevice_write os d (event_of_mem e ev)) (legacy_loop os e d n))"

definition cmd_create_legacy :: "os \<Rightarrow> uapi \<Rightarrow> endian \<Rightarrow> nat \<Rightarrow> ('a wstate_scheme, int option) prog" where
  "cmd_create_legacy os u e fuel =
     bindP (newFromNeteventStream os u e) (\<lambda>d.
     finallyP (legacy_loop os e d fuel) (OutDevice_delete os d))"

section \<open>Set-up\<close>

definition doDaemonize :: "os \<Rightarrow> bool \<Rightarrow> ('a world_scheme, unit) prog" where
  "doDaemonize os can_close =
     bindP (do_call os (Daemonize can_close)) (\<lambda>r. case r of
       None \<Rightarrow> ret ()
     | Some err \<Rightarrow> throw_errno (os_strerror os) ''daemon() failed'' err)"

definition connect_server :: "os \<Rightarrow> byte list \<Rightarrow> string \<Rightarrow> ('a cstate_scheme, unit) prog" where
  "connect_server os junk name = on_server (connect_to os junk name)"

definition listen_server :: "os \<Rightarrow> byte list \<Rightarrow> string \<Rightarrow> ('a cstate_scheme, unit) prog" where
  "listen_server os junk name = on_server
     (if deref name = CHR ''@'' then listenUnix os junk True (tl name)
      else listenUnix os junk False name)"

text \<open>
  The \<open>--connect\<close> part. A connection that is refused is not an error for a process that is
  to become a daemon. \<open>Some n\<close>: this process copied its input and is done; \<open>None\<close>: it is
  the child, whose first client is the pipe, with the stream \<open>piped\<close>. \<open>reads\<close> are the
  results of the parent's reads of standard input.
\<close>

definition create_connect ::
    "os \<Rightarrow> byte list \<Rightarrow> bool \<Rightarrow> string \<Rightarrow> read_result list \<Rightarrow> byte list \<times> errno \<Rightarrow>
     ('a cstate_scheme, int option) prog" where
  "create_connect os junk daemonize name reads piped =
     bindP (catchP
        (thenP (connect_server os junk name) (on_server Socket_release))
        (\<lambda>ex. case exn_error ex of
           None \<Rightarrow> raise ex
         | Some err \<Rightarrow> if \<not> daemonize \<or> err \<noteq> ECONNREFUSED then raise ex else ret (- 1))) (\<lambda>outfd.
     if outfd \<noteq> - 1
     then finallyP (bindP (cat os outfd reads) (\<lambda>r. ret (Some r))) (do_ignore os (Close outfd))
     else
     bindP (do_pipe os) (\<lambda>r. case r of
       Inl err \<Rightarrow> throw_errno (os_strerror os) ''pipe() failed'' err
     | Inr (p0, p1) \<Rightarrow>
     thenP (modifyP (\<lambda>s. s\<lparr>inhandle := p0\<rparr>))
     (bindP (do_fork os) (\<lambda>r. case r of
       Inl err \<Rightarrow> thenP (do_ignore os (Close p1)) (throw_errno (os_strerror os) ''fork() failed'' err)
     | Inr dmn \<Rightarrow>
         if dmn \<noteq> 0 then
           thenP (close_inhandle os)
           (thenP (do_ignore os (WaitPid dmn))
             (finallyP (bindP (cat os p1 reads) (\<lambda>r. ret (Some r))) (do_ignore os (Close p1))))
         else
           thenP (do_ignore os (Close p1))
           (thenP (modifyP (\<lambda>s. s\<lparr>rdata := fst piped, rend := snd piped\<rparr>)) (ret None))))))"

definition create_listen :: "os \<Rightarrow> CloseAction \<Rightarrow> ('a cstate_scheme, bool) prog" where
  "create_listen os onclose =
     bindP (getP inhandle) (\<lambda>fd.
     bindP (if fd = - 1 then accept_client os else ret True) (\<lambda>more.
     thenP (whenP (more \<and> onclose = CloseEnd) (on_server (Socket_close os))) (ret more)))"

text \<open>The destructors that run when \<open>cmd_create\<close> is left: handle, socket, devices.\<close>

definition create_cleanup :: "os \<Rightarrow> ('a cstate_scheme, unit) prog" where
  "create_cleanup os =
     thenP (close_inhandle os)
     (thenP (on_server (Socket_close os))
     (bindP (getP devices) (\<lambda>ds.
      thenP (modifyP (\<lambda>s. s\<lparr>devices := []\<rparr>))
        (forP (\<lambda>(i, d). OutDevice_delete os d) ds))))"

definition create_run ::
    "os \<Rightarrow> uapi \<Rightarrow> endian \<Rightarrow> byte list \<Rightarrow> create_opts \<Rightarrow> read_result list \<Rightarrow> byte list \<times> errno \<Rightarrow> nat \<Rightarrow>
     ('a cstate_scheme, int option) prog" where
  "create_run os u e junk o1 reads piped fuel =
     bindP (case optListen o1 of
              None \<Rightarrow> ret None
            | Some name \<Rightarrow>
                if optConnect o1
                then create_connect os junk (optDaemonize o1) name reads piped
                else ret None) (\<lambda>r. case r of
       Some n \<Rightarrow> ret (Some n)
     | None \<Rightarrow>
         thenP (case optListen o1 of None \<Rightarrow> ret () | Some name \<Rightarrow> listen_server os junk name)
         (thenP (whenP (optDaemonize o1) (doDaemonize os (optListen o1 \<noteq> None)))
         (bindP (if optListen o1 = None then ret True else create_listen os (optOnClose o1)) (\<lambda>more.
          if \<not> more then ret None
          else thenP (readHello os e) (create_loop os u e (optDuplicates o1) fuel)))))"

definition cmd_create ::
    "os \<Rightarrow> uapi \<Rightarrow> endian \<Rightarrow> byte list \<Rightarrow> getopt \<Rightarrow> string list \<Rightarrow> read_result list \<Rightarrow> byte list \<times> errno \<Rightarrow> nat \<Rightarrow>
     ('a cstate_scheme, status) prog" where
  "cmd_create os u e junk opts args reads piped fuel =
     with_options os (parse_options create_step create_defaults opts) (usage_create os) (\<lambda>o1.
       if optLegacyMode o1 \<and> no_legacy o1 then
         thenP (do_ignore os (Stderr (''legacy mode does not support the provided parameters'' @ [NL])))
           (ret (Status 2))
       else if optConnect o1 \<and> optListen o1 = None then
         thenP (do_ignore os (Stderr (''--connect requires --listen'' @ [NL]))) (ret (Status 2))
       else if args \<noteq> [] then
         thenP (do_ignore os (Stderr (''too many arguments'' @ [NL]))) (usage_create os EXIT_FAILURE)
       else if optLegacyMode o1 then
         thenP (whenP (optDaemonize o1) (doDaemonize os (optListen o1 \<noteq> None)))
           (bindP (cmd_create_legacy os u e fuel) (\<lambda>r. ret (case r of None \<Rightarrow> Blocked | Some n \<Rightarrow> Status n)))
       else bindP (catchP (create_run os u e junk o1 reads piped fuel)
                     (\<lambda>ex. thenP (create_cleanup os) (raise ex))) (\<lambda>r. case r of
              None \<Rightarrow> ret Blocked
            | Some n \<Rightarrow> thenP (create_cleanup os) (ret (Status n))))"

section \<open>The invariant of the devices\<close>

text \<open>The map is ordered, and every device in it has been created.\<close>

definition devices_ok :: "'a cstate_scheme \<Rightarrow> bool" where
  "devices_ok s \<longleftrightarrow> map_ok (devices s) \<and> (\<forall>i d. map_find i (devices s) = Some d \<longrightarrow> created d)"

definition todo :: "'a cstate_scheme \<Rightarrow> nat" where
  "todo s = length (rdata s) + sum_list (map (\<lambda>c. Suc (length (fst c))) (clients s))"

definition todo_le :: "nat \<Rightarrow> 'a cstate_scheme \<Rightarrow> bool" where
  "todo_le k s \<longleftrightarrow> todo s \<le> k"

definition devices_are :: "(16 word, OutDevice) std_map \<Rightarrow> 'a cstate_scheme \<Rightarrow> bool" where
  "devices_are m s \<longleftrightarrow> devices s = m"

interpretation devs: stream_invariant devices_ok
  by unfold_locales (simp add: leaves_def devices_ok_def log_call_def)

interpretation same_devs: stream_invariant "devices_are m" for m
  by unfold_locales (simp add: leaves_def devices_are_def log_call_def)

interpretation shrinks: stream_invariant "todo_le k" for k
  by unfold_locales (auto simp: leaves_def todo_le_def todo_def log_call_def)

lemma devices_ok_set: "devices_ok s \<Longrightarrow> created d \<Longrightarrow> devices_ok (s\<lparr>devices := map_set i d (devices s)\<rparr>)"
  by (auto simp: devices_ok_def std.ok_put std.find_put)

lemma devices_ok_erase: "devices_ok s \<Longrightarrow> devices_ok (s\<lparr>devices := map_erase i (devices s)\<rparr>)"
  by (auto simp: devices_ok_def std.ok_erase std.find_erase split: if_splits)

lemma keeps_store_device: "created d \<Longrightarrow> keeps devices_ok (store_device os i d)"
  unfolding store_device_def
  by (intro keeps_intro keeps_modify devices_ok_set devs.keeps_W_delete)

lemma keeps_bind_from:
  "keeps I m \<Longrightarrow> returns P m \<Longrightarrow> (\<And>x. P x \<Longrightarrow> keeps I (f x)) \<Longrightarrow> keeps I (bindP m f)"
  unfolding keeps_def returns_def run_bind by (fastforce split: prod.split outcome.split)

lemma keeps_add_new: "keeps devices_ok (add_new os u e pkt)"
  unfolding add_new_def
  by (rule keeps_bind_from [OF devs.keeps_newFromNE2AddCommand returns_newFromNE2AddCommand])
    (auto intro!: keeps_intro keeps_store_device split: option.split)

lemma keeps_handle_packet: "keeps devices_ok (handle_packet os u e dm pkt)"
  unfolding handle_packet_def handle_AddDevice_def handle_RemoveDevice_def handle_DeviceEvent_def
    missing_device_def Let_def
  by (intro keeps_intro keeps_add_new devs.keeps_newFromNE2AddCommand devs.keeps_W_delete
      devs.keeps_W_write keeps_modify devices_ok_erase)

lemma log_cstate [simp]:
  "devices (log_call c r s) = devices s" "serversock (log_call c r s) = serversock s"
  "inhandle (log_call c r s) = inhandle s" "clients (log_call c r s) = clients s"
  "rdata (log_call c r s) = rdata s" "rend (log_call c r s) = rend s"
  "use_setup (log_call c r s) = use_setup s"
  by (simp_all add: log_call_def)

lemma same_server [simp]:
  "s\<lparr>serversock := serversock s\<rparr> = (s :: 'a cstate_scheme)"
  "(log_call c r s)\<lparr>serversock := serversock s\<rparr> = log_call c r s"
  "(log_call c r (log_call c' r' s))\<lparr>serversock := serversock s\<rparr> = log_call c r (log_call c' r' s)"
  by (cases s, simp_all add: log_call_def)+

lemma run_close_inhandle:
  "close_inhandle os s = (Ret (), if inhandle s = - 1 then s
     else (log_call (Close (inhandle s)) (os_call os (history s) (Close (inhandle s))) s)\<lparr>inhandle := - 1\<rparr>)"
  by (simp add: close_inhandle_def run_simps)

text \<open>A run of \<open>accept_client\<close>: no client, a failing call, or the next client's stream.\<close>

lemma accept_client_cases:
  obtains (blocked) "clients s = []" "accept_client os s = (Ret False, s)"
  | (failed) bs err cs e where "clients s = (bs, err) # cs"
      "accept_client os s = (thrown (os_strerror os) ''failed to accept client'' e,
        log_call (Accept (sock_fd (serversock s))) (Some e) s)"
  | (accepted) bs err cs h fd where "clients s = (bs, err) # cs"
      "accept_client os s = (Ret True,
        s\<lparr>history := h, inhandle := fd, rdata := bs, rend := err, clients := cs\<rparr>)"
proof (cases "clients s")
  case Nil
  then show ?thesis by (intro blocked) (simp_all add: accept_client_def run_simps)
next
  case (Cons c cs)
  obtain bs err where c: "c = (bs, err)" by (cases c)
  let ?a = "Accept (sock_fd (serversock s))"
  show ?thesis
  proof (cases "os_open os (history s) ?a")
    case (Inl e)
    then show ?thesis
      using Cons c
      by (intro failed [of bs err cs e]) (simp_all add: accept_client_def on_server_def
          Socket_accept_def run_simps run_throw_errno log_open_def thrown_def split: option.split)
  next
    case (Inr fd)
    let ?s = "snd (close_inhandle os (log_open ?a (Inr fd) s))"
    have "accept_client os s = (Ret True,
        s\<lparr>history := history ?s, inhandle := fd, rdata := bs, rend := err, clients := cs\<rparr>)"
      using Inr Cons c
      by (cases s) (simp add: accept_client_def on_server_def Socket_accept_def run_simps
          run_close_inhandle log_open_def log_call_def)
    then show ?thesis using Cons c by (intro accepted) simp_all
  qed
qed

lemma keeps_stream:
  "keeps devices_ok (mustRead k)" "keeps devices_ok (close_inhandle os)"
  by (rule keepsI, simp add: run_simps run_close_inhandle devices_ok_def)+

lemma keeps_accept_client: "keeps devices_ok (accept_client os)"
proof (rule keepsI)
  fix s :: "'a cstate_scheme"
  assume "devices_ok s"
  then show "devices_ok (snd (accept_client os s))"
    by (cases rule: accept_client_cases [of s os]) (simp_all add: devices_ok_def)
qed

lemma keeps_create_loop: "keeps devices_ok (create_loop os u e dm n)"
  by (induction n) (auto intro!: keeps_intro keeps_stream keeps_accept_client keeps_handle_packet)

text \<open>Connecting, listening and turning into a daemon leave the devices alone.\<close>

lemma ignores_devices_ok: "ignores_history devices_ok"
  by (simp add: ignores_history_def devices_ok_def)

lemma keeps_on_server:
  "keeps (\<lambda>x. devices_ok (fst x)) m \<Longrightarrow> keeps devices_ok (on_server m)"
  unfolding on_server_def by (rule keeps_with_obj) (simp_all add: devices_ok_def)

lemma keeps_sockets:
  "keeps (\<lambda>x. devices_ok (fst x)) (connect_to os junk name)"
  "keeps (\<lambda>x. devices_ok (fst x)) (listenUnix os junk abstract name)"
  "keeps (\<lambda>x. devices_ok (fst x)) (Socket_close os)"
  "keeps (\<lambda>x. devices_ok (fst x)) Socket_release"
  unfolding connect_to_def connectUnix_def listenUnix_def bindUnix_def openUnixStream_def Socket_listen_def
    Socket_close_def Socket_release_def
  by (intro keeps_intro keeps_fst_obj keeps_fst_lift ignores_devices_ok)+

lemma keeps_cat: "keeps devices_ok (cat os dst rs)"
  by (induction rs rule: cat.induct) (auto intro!: keeps_intro ignores_devices_ok simp: mustWrite_def)

lemma keeps_create_connect: "keeps devices_ok (create_connect os junk daemonize name reads piped)"
  unfolding create_connect_def connect_server_def finallyP_def split_beta
  by (intro keeps_intro keeps_modify keeps_on_server keeps_sockets keeps_cat keeps_stream ignores_devices_ok)
    (auto simp: devices_ok_def)

lemma keeps_create_run: "keeps devices_ok (create_run os u e junk o1 reads piped n)"
  unfolding create_run_def create_listen_def listen_server_def doDaemonize_def readHello_def
  by (intro keeps_intro keeps_on_server keeps_sockets keeps_create_connect keeps_accept_client
      keeps_create_loop keeps_stream ignores_devices_ok)

section \<open>What a packet does\<close>

lemma event_packet_host:
  "pkt_cmd e (cmd_to_host e (event_packet e' i ev)) = cmd_DeviceEvent"
  "hton e 2 (pkt_id e (cmd_to_host e (event_packet e' i ev))) = i"
  "toHost e (pkt_event e (cmd_to_host e (event_packet e' i ev))) =
     ev\<lparr>padding := of_mem e (mem_of e' 4 (padding ev))\<rparr>"
  by (simp_all add: host_fields event_packet_fields get_be_be_bytes hton_of_mem_be pkt_event_def
      event_net_host)

text \<open>The write an event leads to; force feedback events are dropped.\<close>

definition event_write :: "int \<Rightarrow> InputEvent \<Rightarrow> call list" where
  "event_write fd ev = (if unat (ev_type ev) = EV_FF then []
     else [WriteEvent fd \<lparr>ke_sec = tv_sec ev, ke_usec = tv_usec ev, ke_type = ev_type ev,
             ke_code = ev_code ev, ke_value = ev_value ev\<rparr>])"

lemma cmd_codes:
  "cmd_KeepAlive = 0" "cmd_AddDevice = 1" "cmd_RemoveDevice = 2" "cmd_DeviceEvent = 3" "cmd_Hello = 4"
  by (simp_all add: cmd_KeepAlive_def cmd_AddDevice_def cmd_RemoveDevice_def cmd_DeviceEvent_def
      cmd_Hello_def)

lemma handle_event_packet:
  "handle_packet os u e dm (event_packet e' i ev) s =
     (case map_find i (devices s) of
        None \<Rightarrow> (Throw (MsgException_new (''protocol error: missing device '' @ show_nat (unat i))), s)
      | Some d \<Rightarrow> OutDevice_write os d (ev\<lparr>padding := of_mem e (mem_of e' 4 (padding ev))\<rparr>) s)"
  by (simp add: handle_packet_def Let_def event_packet_host cmd_codes handle_DeviceEvent_def run_simps
      missing_device_def throw_msg_def split: option.split)

text \<open>
  An event packet, sent by a host of either byte order, leads to exactly one write of
  exactly that event (time, type, code and value) to the device of its id, and to none if it
  is a force feedback event; if there is no device of that id the packet is a protocol
  error and nothing is written.
\<close>

theorem handle_event_forwards:
  assumes "\<forall>h c. os_call os h c = None"
  shows "handle_packet os u e dm (event_packet e' i ev) s =
    (case map_find i (devices s) of
       None \<Rightarrow> (Throw (MsgException_new (''protocol error: missing device '' @ show_nat (unat i))), s)
     | Some d \<Rightarrow> (Ret (),
         s\<lparr>history := history s @ map (\<lambda>c. (c, None)) (event_write (out_fd d) ev)\<rparr>))"
  using assms
  by (simp add: handle_event_packet OutDevice_write_def event_write_def run_simps log_call_def
      split: option.split)

definition sample_cstate :: "(16 word, OutDevice) std_map \<Rightarrow> cstate" where
  "sample_cstate ds = \<lparr>history = [], rdata = [], rend = 0, use_setup = True, devices = ds,
     serversock = Socket_new, inhandle = - 1, clients = []\<rparr>"

definition sample_out :: OutDevice where
  "sample_out = \<lparr>out_fd = 3, user_dev = new_user_dev [] (dev_id sample_device), created = True\<rparr>"

theorem handle_event_forwards_witness:
  "history (snd (handle_packet quiet_os linux_uapi Big Reject
      (event_packet Little 5 (event_of 0 sample_event)) (sample_cstate [(5, sample_out)]))) =
    [(WriteEvent 3 sample_event, None)]"
proof -
  have q: "\<forall>h c. os_call quiet_os h c = None" by (simp add: quiet_os_def)
  show ?thesis
    using handle_event_forwards [OF q, of linux_uapi Big Reject Little 5 "event_of 0 sample_event"
        "sample_cstate [(5, sample_out)]"]
    by (simp add: sample_cstate_def map_find_def sample_out_def event_write_def event_of_def
        sample_event_def)
qed

section \<open>Announcements of an id that is in use\<close>

lemma newFrom_devices: "devices (snd (newFromNE2AddCommand os u e p k s)) = devices s"
proof -
  obtain r s' where run: "newFromNE2AddCommand os u e p k s = (r, s')" by fastforce
  from keepsD [OF same_devs.keeps_newFromNE2AddCommand _ run, of "devices s"] show ?thesis
    by (simp add: devices_are_def run)
qed

lemma handle_AddDevice_packet:
  assumes "length pkt = 28" and "field 0 2 pkt = be_bytes 2 cmd_AddDevice"
  shows "handle_packet os u e dm pkt = handle_AddDevice os u e dm (cmd_to_host e pkt)"
  using assms by (simp add: handle_packet_def Let_def host_fields get_be_be_bytes cmd_codes)

text \<open>
  What netevent create does with an announcement of an id that it already has a device
  for: with --duplicates=reject it is an error that changes nothing; with resume
  every device stays as it is; with replace, if the new device can
  be made, it takes the place of the old one under that id and only that id, and the old one
  is destroyed after that. If the new device cannot be made the old one stays.
\<close>

theorem duplicate_announcements:
  assumes "length pkt = 28" and "field 0 2 pkt = be_bytes 2 cmd_AddDevice"
    and "i = get_be e 2 (field 2 2 pkt)" and "map_find i (devices s) = Some old" and "map_ok (devices s)"
    and run: "newFromNE2AddCommand os u e (add_to_host e (cmd_to_host e pkt)) False s = (r, s1)"
  shows "handle_packet os u e Reject pkt s =
      (Throw (MsgException_new (''protocol error: duplicate device '' @ show_nat (unat i))), s) \<and>
    devices (snd (handle_packet os u e Resume pkt s)) = devices s \<and>
    (case r of
       Ret (Some d) \<Rightarrow>
         (\<forall>j. map_find j (devices (snd (handle_packet os u e Replace pkt s))) =
            (if j = i then Some d else map_find j (devices s))) \<and>
         (\<exists>r1 r2. history (snd (handle_packet os u e Replace pkt s)) =
            history s1 @ [(Ioctl (out_fd old) UI_DEV_DESTROY, r1), (Close (out_fd old), r2)])
     | _ \<Rightarrow> devices (snd (handle_packet os u e Replace pkt s)) = devices s)"
proof (intro conjI)
  note add = handle_AddDevice_packet [OF assms(1,2)]
  have i: "pkt_id e (add_to_host e (cmd_to_host e pkt)) = i"
    using assms(1,3) by (simp add: host_fields)
  show "handle_packet os u e Reject pkt s =
      (Throw (MsgException_new (''protocol error: duplicate device '' @ show_nat (unat i))), s)"
    using assms(4) by (simp add: add handle_AddDevice_def Let_def i run_simps throw_msg_def)
  note skip = newFrom_devices [of os u e _ _ s]
  show "devices (snd (handle_packet os u e Resume pkt s)) = devices s"
    using skip [of "add_to_host e (cmd_to_host e pkt)" True] assms(4)
    by (auto simp: add handle_AddDevice_def Let_def i run_simps split: prod.split outcome.split)
  have s1: "devices s1 = devices s"
    using skip [of "add_to_host e (cmd_to_host e pkt)" False] run by simp
  have rep: "handle_packet os u e Replace pkt s =
      (case r of Ret (Some d) \<Rightarrow> store_device os i d s1 | Ret None \<Rightarrow> (Undef, s1)
       | Throw ex \<Rightarrow> (Throw ex, s1) | Undef \<Rightarrow> (Undef, s1) | NoFuel \<Rightarrow> (NoFuel, s1))"
    by (simp add: add handle_AddDevice_def Let_def i add_new_def run_simps run
        split: outcome.split option.split)
  have find: "map_find j (map_set i d (devices s)) = (if j = i then Some d else map_find j (devices s))" for j d
    by (rule std.find_put [OF assms(5)])
  show "case r of
       Ret (Some d) \<Rightarrow>
         (\<forall>j. map_find j (devices (snd (handle_packet os u e Replace pkt s))) =
            (if j = i then Some d else map_find j (devices s))) \<and>
         (\<exists>r1 r2. history (snd (handle_packet os u e Replace pkt s)) =
            history s1 @ [(Ioctl (out_fd old) UI_DEV_DESTROY, r1), (Close (out_fd old), r2)])
     | _ \<Rightarrow> devices (snd (handle_packet os u e Replace pkt s)) = devices s"
    by (simp add: rep store_device_def run_simps s1 assms(4) find OutDevice_delete_def
        split: outcome.split option.split)
qed

theorem duplicate_announcements_witness:
  "fst (handle_packet quiet_os linux_uapi Big Reject (add_packet linux_uapi Little 5)
      (sample_cstate [(5, sample_out)])) =
    Throw (MsgException_new (''protocol error: duplicate device '' @ show_nat (unat (5 :: 16 word))))"
proof -
  let ?p = "add_packet linux_uapi Little 5"
  let ?s = "sample_cstate [(5, sample_out)]"
  obtain r s1 where run: "newFromNE2AddCommand quiet_os linux_uapi Big
      (add_to_host Big (cmd_to_host Big ?p)) False ?s = (r, s1)"
    by fastforce
  have "(5 :: 16 word) = get_be Big 2 (field 2 2 ?p)" "map_find 5 (devices ?s) = Some sample_out" "map_ok (devices ?s)"
    by (simp_all add: add_packet_fields get_be_be_bytes sample_cstate_def map_find_def map_ok_def)
  from duplicate_announcements [OF add_packet_fields(1,2) this run, THEN conjunct1]
  show ?thesis by (simp only: fst_conv)
qed

section \<open>The loop ends\<close>

lemma settles_handle_packet: "settles (handle_packet os u e dm pkt)"
  unfolding handle_packet_def handle_AddDevice_def handle_RemoveDevice_def handle_DeviceEvent_def
    missing_device_def add_new_def store_device_def Let_def
  by (intro settles_intro)

lemma keeps_todo_packet: "keeps (todo_le k) (handle_packet os u e dm pkt)"
  unfolding handle_packet_def handle_AddDevice_def handle_RemoveDevice_def handle_DeviceEvent_def
    missing_device_def add_new_def store_device_def Let_def
  by (intro keeps_intro shrinks.keeps_newFromNE2AddCommand shrinks.keeps_W_delete
      shrinks.keeps_W_write keeps_modify) (simp_all add: todo_le_def todo_def)

text \<open>
  C28. The loop of netevent create does not run on its own: with more fuel than there are
  bytes and clients to come, it returns, throws, blocks in accept, or hits undefined
  behaviour, but never runs out of fuel. Every packet and every client uses up part of the
  input.
\<close>

theorem create_loop_terminates:
  assumes "todo s < n"
  shows "fst (create_loop os u e dm n s) \<noteq> NoFuel"
  using assms
proof (induction n arbitrary: s)
  case 0
  then show ?case by simp
next
  case (Suc n)
  show ?case
  proof (cases "NE2Packet_size \<le> length (rdata s)")
    case True
    let ?pkt = "take NE2Packet_size (rdata s)"
    let ?s = "s\<lparr>rdata := drop NE2Packet_size (rdata s)\<rparr>"
    obtain r s1 where run: "handle_packet os u e dm ?pkt ?s = (r, s1)" by fastforce
    have less: "todo ?s < n"
      using Suc.prems True by (simp add: todo_def NE2Packet_size_def)
    have "todo_le (todo ?s) s1"
      by (rule keepsD [OF keeps_todo_packet _ run]) (simp add: todo_le_def)
    with less have "todo s1 < n" by (simp add: todo_le_def)
    moreover have "r \<noteq> NoFuel" using settles_handle_packet run by (metis fst_conv settles_def)
    ultimately show ?thesis
      using True run Suc.IH by (simp add: run_simps split: outcome.split)
  next
    case False
    let ?s = "s\<lparr>rdata := []\<rparr>"
    obtain c where close: "close_inhandle os ?s = (Ret (), c)" by (simp add: run_close_inhandle)
    then have c: "clients c = clients s" by (auto simp: run_close_inhandle)
    show ?thesis
    proof (cases rule: accept_client_cases [of c os])
      case blocked
      then show ?thesis using False close by (simp add: run_simps run_throw_errno)
    next
      case (failed bs err cs e')
      then show ?thesis using False close
        by (simp add: run_simps run_throw_errno split: outcome.split)
    next
      case (accepted bs err cs h fd)
      let ?a = "c\<lparr>history := h, inhandle := fd, rdata := bs, rend := err, clients := cs\<rparr>"
      have "todo ?a < n" using Suc.prems accepted(1) c by (simp add: todo_def)
      then have "fst (create_loop os u e dm n ?a) \<noteq> NoFuel" by (rule Suc.IH)
      then show ?thesis using False accepted(2) close
        by (simp add: run_simps run_throw_errno)
    qed
  qed
qed

theorem create_loop_terminates_witness:
  "fst (create_loop quiet_os linux_uapi Big Reject 1 (sample_cstate [])) \<noteq> NoFuel"
  by (rule create_loop_terminates) (simp add: todo_def sample_cstate_def)

end
