(* ===== verification/Pipeline.thy ===== *)
theory Pipeline
  imports Create
begin

text \<open>
  The two ends together: \<open>netevent cat\<close> on one host, \<open>netevent create\<close> on another; and the
  invariant of the devices of \<open>create\<close>.
\<close>

lemma run_readHello:
  "rdata s = hello_packet e @ r \<Longrightarrow> readHello os e' s = (Ret (), s\<lparr>rdata := r\<rparr>)"
proof -
  assume r: "rdata s = hello_packet e @ r"
  have "checkHello e' (cmd_to_host e' (hello_packet e)) = None"
    by (simp add: checkHello_swapped hello_packet_fields hello_packet_bytes)
  with r show ?thesis
    by (simp add: readHello_def run_simps NE2Packet_size_def hello_packet_fields)
qed

text \<open>Event packets up to the end of the stream, for any devices that are there.\<close>

lemma run_create_events:
  assumes acc: "\<forall>h c. os_call os h c = None"
  shows "rdata s = concat (map (\<lambda>(i, ev). event_packet e i ev) evs) \<Longrightarrow> rend s = 0 \<Longrightarrow>
    sock_fd (serversock s) = - 1 \<Longrightarrow> \<forall>(i, ev)\<in>set evs. map_find i (devices s) = Some (dv i) \<Longrightarrow> length evs < n \<Longrightarrow>
    create_loop os u e' dm n s = (Ret (Some 0), s\<lparr>rdata := [], history := history s @
      map (\<lambda>c. (c, None)) (concat (map (\<lambda>(i, ev). event_write (out_fd (dv i)) ev) evs))\<rparr>)"
proof (induction evs arbitrary: n s)
  case Nil
  from Nil.prems(5) obtain m where n: "n = Suc m" by (cases n) auto
  show ?case
    using Nil.prems by (cases s) (simp add: n run_simps NE2Packet_size_def)
next
  case (Cons x evs)
  obtain i ev where x: "x = (i, ev)" by (cases x)
  from Cons.prems(5) obtain m where n: "n = Suc m" by (cases n) auto
  let ?s = "s\<lparr>rdata := concat (map (\<lambda>(i, ev). event_packet e i ev) evs)\<rparr>"
  let ?t = "?s\<lparr>history := history s @ map (\<lambda>c. (c, None)) (event_write (out_fd (dv i)) ev)\<rparr>"
  have hp: "handle_packet os u e' dm (event_packet e i ev) ?s = (Ret (), ?t)"
    using Cons.prems(4) acc
    by (cases s) (simp add: x handle_event_packet OutDevice_write_def event_write_def run_simps log_call_def)
  have run: "create_loop os u e' dm n s = create_loop os u e' dm m ?t"
    using Cons.prems(1) hp by (simp add: x n run_simps NE2Packet_size_def event_packet_fields)
  have "create_loop os u e' dm m ?t = (Ret (Some 0), ?t\<lparr>rdata := [], history := history ?t @
      map (\<lambda>c. (c, None)) (concat (map (\<lambda>(i, ev). event_write (out_fd (dv i)) ev) evs))\<rparr>)"
    by (rule Cons.IH) (use Cons.prems n in simp_all)
  then show ?case by (simp add: run x)
qed

text \<open>The announcement as a packet of the loop: the device is made and stored under its id.\<close>

lemma run_announcement:
  assumes acc: "accepting os fd" and ann: "announceable d n u entries" and lay: "same_layout u u'"
    and ax: "us \<or> (\<forall>i\<in>set (abs_axes u (evbits d) entries). i < ABS_CNT u)"
    and s: "rdata s = ne2_add_rest u e d entries axis @ r" "use_setup s = us" "map_find i (devices s) = None"
  shows "handle_packet os u' e' dm (add_packet u e i) s =
    (Ret (), s\<lparr>rdata := r, history := history s @
        map (\<lambda>c. (c, None)) (received_calls us fd u d entries axis),
      devices := map_set i (received_device us fd u d entries axis\<lparr>created := True\<rparr>) (devices s)\<rparr>)"
proof -
  let ?p = "add_to_host e' (cmd_to_host e' (add_packet u e i))"
  let ?x = "received_device us fd u d entries axis\<lparr>created := True\<rparr>"
  let ?s = "s\<lparr>rdata := r, history := history s @ map (\<lambda>c. (c, None)) (received_calls us fd u d entries axis)\<rparr>"
  have new: "newFromNE2AddCommand os u' e' ?p False s = (Ret (Some ?x), ?s)"
    using newFromNE2AddCommand_consumes(1) [OF acc ann lay ax] s(1,2) unfolding consumes_def by blast
  have i: "pkt_id e' ?p = i"
    by (simp add: host_fields add_packet_fields get_be_be_bytes)
  have "handle_packet os u' e' dm (add_packet u e i) s = add_new os u' e' ?p s"
    using s(3) by (simp add: handle_AddDevice_packet add_packet_fields handle_AddDevice_def Let_def i run_simps)
  also have "\<dots> = (Ret (), ?s\<lparr>devices := map_set i ?x (devices s)\<rparr>)"
    using s(3) by (simp add: add_new_def run_simps new i store_device_def)
  finally show ?thesis by simp
qed

text \<open>
  netevent create with --duplicates=resume and an announcement of a device it has: the
  whole announcement is read, so that the next packet is found behind it, no call is made, and
  nothing else changes: the device that was there goes on.
\<close>

lemma resumed_announcement:
  assumes acc: "accepting os fd" and ann: "announceable d n u entries" and lay: "same_layout u u'"
    and ax: "use_setup s \<or> (\<forall>i\<in>set (abs_axes u (evbits d) entries). i < ABS_CNT u)"
    and s: "rdata s = ne2_add_rest u e d entries axis @ r" "map_find i (devices s) = Some old"
  shows "handle_packet os u' e' Resume (add_packet u e i) s = (Ret (), s\<lparr>rdata := r\<rparr>)"
proof -
  let ?p = "add_to_host e' (cmd_to_host e' (add_packet u e i))"
  have "newFromNE2AddCommand os u' e' ?p True s =
      (Ret None, s\<lparr>rdata := r, history := history s @ map (\<lambda>c. (c, None)) []\<rparr>)"
    by (rule newFromNE2AddCommand_consumes(2) [OF acc ann lay ax, unfolded consumes_def, rule_format])
      (simp add: s(1))
  moreover have "s\<lparr>rdata := r, history := history s @ map (\<lambda>c. (c, None)) []\<rparr> = s\<lparr>rdata := r\<rparr>"
    by (cases s) simp
  ultimately have skip: "newFromNE2AddCommand os u' e' ?p True s = (Ret None, s\<lparr>rdata := r\<rparr>)" by (simp only:)
  have "pkt_id e' ?p = i"
    by (simp add: host_fields add_packet_fields get_be_be_bytes)
  with s(2) show ?thesis
    by (simp add: handle_AddDevice_packet add_packet_fields handle_AddDevice_def Let_def run_simps skip)
qed

lemma resumed_announcement_witness:
  "handle_packet quiet_os linux_uapi Big Resume (add_packet linux_uapi Little 5)
      ((sample_cstate [(5, sample_out)])\<lparr>rdata :=
        ne2_add_rest linux_uapi Little sample_device sample_entries sample_axis @ [1, 2]\<rparr>) =
    (Ret (), (sample_cstate [(5, sample_out)])\<lparr>rdata := [1, 2]\<rparr>)"
proof -
  let ?s = "(sample_cstate [(5, sample_out)])\<lparr>rdata :=
      ne2_add_rest linux_uapi Little sample_device sample_entries sample_axis @ [1, 2]\<rparr>"
  have a: "accepting quiet_os 3" by (simp add: accepting_def quiet_os_def)
  have l: "same_layout linux_uapi linux_uapi" by (simp add: same_layout_def)
  have "use_setup ?s" "map_find 5 (devices ?s) = Some sample_out"
    by (simp_all add: sample_cstate_def map_find_def)
  then show ?thesis
    using resumed_announcement [OF a sample_announceable l, of ?s Little sample_axis "[1, 2]" 5 sample_out Big]
    by simp
qed

text \<open>A run of create on the stream of one announced device and its events.\<close>

lemma create_run_on_stream:
  assumes acc: "accepting os fd" and ann: "announceable d n u entries" and lay: "same_layout u u'"
    and ax: "us \<or> (\<forall>i\<in>set (abs_axes u (evbits d) entries). i < ABS_CNT u)"
    and s: "rdata s = cat_stream u e d entries axis evs" "rend s = 0" "use_setup s = us"
      "devices s = []" "serversock s = Socket_new" "inhandle s = - 1"
    and fuel: "Suc (length evs) < fuel"
  shows "create_run os u' e' junk create_defaults reads piped fuel s = (Ret (Some 0), s\<lparr>rdata := [],
    history := history s @ map (\<lambda>c. (c, None)) (received_calls us fd u d entries axis @
      concat (map (\<lambda>ke. event_write fd (event_of 0 ke)) evs)),
    devices := [(0, received_device us fd u d entries axis\<lparr>created := True\<rparr>)]\<rparr>)"
proof -
  let ?x = "received_device us fd u d entries axis\<lparr>created := True\<rparr>"
  let ?evs = "concat (map (\<lambda>ke. event_packet e 0 (event_of 0 ke)) evs)"
  let ?s1 = "s\<lparr>rdata := add_packet u e 0 @ ne2_add_rest u e d entries axis @ ?evs\<rparr>"
  let ?s2 = "s\<lparr>rdata := ne2_add_rest u e d entries axis @ ?evs\<rparr>"
  let ?s3 = "s\<lparr>rdata := ?evs, history := history s @
      map (\<lambda>c. (c, None)) (received_calls us fd u d entries axis), devices := [(0, ?x)]\<rparr>"
  let ?s4 = "?s3\<lparr>rdata := [], history := history ?s3 @
      map (\<lambda>c. (c, None)) (concat (map (\<lambda>ke. event_write (out_fd ?x) (event_of 0 ke)) evs))\<rparr>"
  have okc: "\<forall>h c. os_call os h c = None" using acc by (simp add: accepting_def)
  have fd: "out_fd ?x = fd" by (simp add: received_device_def)
  from fuel obtain m where m: "fuel = Suc m" "length evs < m" by (cases fuel) auto
  have hello: "readHello os e' s = (Ret (), ?s1)"
    by (rule run_readHello) (simp add: s(1) cat_stream_def ne2_add_rest_def)
  have add: "handle_packet os u' e' Reject (add_packet u e 0) ?s2 = (Ret (), ?s3)"
    using run_announcement [OF acc ann lay ax, of ?s2 e axis ?evs 0 e' Reject] s by simp
  have events: "create_loop os u' e' Reject m ?s3 = (Ret (Some 0), ?s4)"
    using run_create_events [OF okc, of ?s3 e "map (\<lambda>ke. (0, event_of 0 ke)) evs" "\<lambda>_. ?x" m u' e' Reject] s m
    by (simp add: comp_def map_find_def Socket_new_def)
  have loop: "create_loop os u' e' Reject fuel ?s1 = (Ret (Some 0), ?s4)"
    by (simp add: m(1) run_simps NE2Packet_size_def add_packet_fields add events)
  have "create_run os u' e' junk create_defaults reads piped fuel s = (Ret (Some 0), ?s4)"
    by (simp add: create_run_def create_defaults_def run_simps hello loop)
  then show ?thesis by (simp add: fd)
qed

lemma create_on_stream:
  assumes acc: "accepting os fd" and ann: "announceable d n u entries" and lay: "same_layout u u'"
    and ax: "us \<or> (\<forall>i\<in>set (abs_axes u (evbits d) entries). i < ABS_CNT u)"
    and s: "rdata s = cat_stream u e d entries axis evs" "rend s = 0" "use_setup s = us"
      "devices s = []" "serversock s = Socket_new" "inhandle s = - 1"
    and fuel: "Suc (length evs) < fuel"
  shows "fst (cmd_create os u' e' junk [] [] reads piped fuel s) = Ret (Status 0) \<and>
    history (snd (cmd_create os u' e' junk [] [] reads piped fuel s)) =
      history s @ map (\<lambda>c. (c, None))
        (received_calls us fd u d entries axis @
         concat (map (\<lambda>ke. event_write fd (event_of 0 ke)) evs) @
         [Ioctl fd UI_DEV_DESTROY, Close fd])"
proof -
  let ?x = "received_device us fd u d entries axis\<lparr>created := True\<rparr>"
  have okc: "\<forall>h c. os_call os h c = None" using acc by (simp add: accepting_def)
  have fd: "out_fd ?x = fd" by (simp add: received_device_def)
  note run = create_run_on_stream [OF assms, of e' junk reads piped]
  let ?s4 = "snd (create_run os u' e' junk create_defaults reads piped fuel s)"
  have "create_cleanup os ?s4 = (Ret (), ?s4\<lparr>devices := [], history := history ?s4 @
      [(Ioctl fd UI_DEV_DESTROY, None), (Close fd, None)]\<rparr>)"
    using s okc by (simp add: run create_cleanup_def run_simps run_close_inhandle on_server_def
        Socket_close_def Socket_new_def OutDevice_delete_def fd log_call_def)
  moreover have "optLegacyMode create_defaults = False" "optConnect create_defaults = False"
    by (simp_all add: create_defaults_def)
  ultimately show ?thesis
    by (simp add: cmd_create_def run run_simps fd)
qed

text \<open>
  C1. netevent cat, on a device that opens, can be grabbed and reports the events evs, piped into
  netevent create, on hosts of any byte orders: on a kernel that grants every request, create
  reads what cat put on standard output to its end and returns 0; it has then made exactly one
  device, by exactly the calls that give it the name, identifier, event types, codes and axes
  of the original, has written exactly the events of the original to it, in order (force
  feedback excepted), and has destroyed it at the end. (The answers of the first kernel fit the
  tables of its headers, the headers of the two hosts agree on ABS_CNT, and through the old
  interface without UI_DEV_SETUP the axes must have numbers below ABS_CNT.)
\<close>

theorem cat_into_create:
  assumes dev: "InDevice_new os e path s = (Ret d, s1)" and w: "writes_ok os 1"
    and script: "cat_device os e u d entries axis evs"
    and first: "reads_of (in_fd d) (history s) = 0" and fuel: "length evs < fuel"
    and acc: "accepting os' fd" and ann: "announceable d n u entries" and lay: "same_layout u u'"
    and ax: "use_setup t \<or> (\<forall>i\<in>set (abs_axes u (evbits d) entries). i < ABS_CNT u)"
    and t: "wrote 1 (history (snd (cmd_cat os u e pad fuel [] [path] s))) = wrote 1 (history s1) @ rdata t"
      "rend t = 0" "devices t = []" "serversock t = Socket_new" "inhandle t = - 1"
    and fuel': "Suc (length evs) < fuel'"
  shows "fst (cmd_cat os u e pad fuel [] [path] s) = Throw (Exception ''unexpected EOF'') \<and>
    fst (cmd_create os' u' e' junk [] [] reads piped fuel' t) = Ret (Status 0) \<and>
    history (snd (cmd_create os' u' e' junk [] [] reads piped fuel' t)) =
      history t @ map (\<lambda>c. (c, None))
        (received_calls (use_setup t) fd u d entries axis @
         concat (map (\<lambda>ke. event_write fd (event_of 0 ke)) evs) @
         [Ioctl fd UI_DEV_DESTROY, Close fd])"
proof -
  have ok: "uapi_ok u" using ann by (simp add: announceable_def)
  note cat = run_cmd_cat [OF dev ok w script first fuel, of pad]
  have "rdata t = cat_stream u e d entries axis evs" using cat t(1) by simp
  from create_on_stream [OF acc ann lay ax this t(2) refl t(3-5) fuel', of e' junk reads piped] cat
  show ?thesis by blast
qed

theorem cat_into_create_witness:
  "fst (cmd_create quiet_os linux_uapi Big [] [] [] [] ([], 0) 3
      ((sample_cstate [])\<lparr>rdata := cat_stream linux_uapi Little sample_device sample_entries
        sample_axis [sample_event]\<rparr>)) = Ret (Status 0) \<and>
   history (snd (cmd_create quiet_os linux_uapi Big [] [] [] [] ([], 0) 3
      ((sample_cstate [])\<lparr>rdata := cat_stream linux_uapi Little sample_device sample_entries
        sample_axis [sample_event]\<rparr>))) =
     map (\<lambda>c. (c, None)) (received_calls True 3 linux_uapi sample_device sample_entries sample_axis @
       event_write 3 (event_of 0 sample_event) @ [Ioctl 3 UI_DEV_DESTROY, Close 3])"
proof -
  let ?t = "(sample_cstate [])\<lparr>rdata := cat_stream linux_uapi Little sample_device sample_entries
        sample_axis [sample_event]\<rparr>"
  have w: "writes_ok (cat_os Little) 1" by (simp add: writes_ok_def cat_os_def sample_os_def quiet_os_def)
  have a: "accepting quiet_os 3" by (simp add: accepting_def quiet_os_def)
  have l: "same_layout linux_uapi linux_uapi" by (simp add: same_layout_def)
  have t: "rend ?t = 0" "use_setup ?t" "devices ?t = []" "serversock ?t = Socket_new" "inhandle ?t = - 1"
    by (simp_all add: sample_cstate_def)
  have out: "wrote 1 (history (snd (cmd_cat (cat_os Little) linux_uapi Little 0 2 [] [''/dev/input/event4'']
      \<lparr>history = []\<rparr>))) = wrote 1 (history \<lparr>history = [(Open ''/dev/input/event4'', None), (GotFd 4, None),
      (Query 4 EVIOCGNAME, None), (Query 4 EVIOCGID, None), (Query 4 (EVIOCGBIT 0 4), None)]\<rparr>) @ rdata ?t"
    using run_cmd_cat [OF cat_os_device linux_uapi_ok w cat_os_script, of 2 0] by simp
  have "history ?t = []" by (simp add: sample_cstate_def)
  with cat_into_create [OF cat_os_device w cat_os_script _ _ a sample_announceable l _ out t(1,3-5), of 3 Big]
  show ?thesis using t(2) by simp
qed

section \<open>The devices of create\<close>

text \<open>
  C21. Whatever packets arrive, from however many clients, with whatever answers of the
  kernel and whatever options, the devices netevent create holds are at every moment an ordered
  map from ids, and every one of them has been created: none is held, and no event is written to
  it, while it is still being set up. (The fuel stops the run after any number of packets.)
\<close>

theorem create_devices_invariant:
  assumes "map_ok (devices s)" and "\<forall>i d. map_find i (devices s) = Some d \<longrightarrow> created d"
    and "m \<in> {create_run os u e junk opts reads piped n, create_loop os u e dm n}" and "m s = (r, s')"
  shows "map_ok (devices s') \<and> (\<forall>i d. map_find i (devices s') = Some d \<longrightarrow> created d)"
proof -
  have ok: "devices_ok s" using assms(1,2) by (simp add: devices_ok_def)
  have "keeps devices_ok m" using assms(3) by (auto intro: keeps_create_run keeps_create_loop)
  from keepsD [OF this ok assms(4)] show ?thesis by (simp add: devices_ok_def)
qed

theorem create_devices_invariant_witness:
  "\<exists>s'. create_run quiet_os linux_uapi Big [] create_defaults [] ([], 0) 3
      ((sample_cstate [])\<lparr>rdata := cat_stream linux_uapi Little sample_device sample_entries
        sample_axis [sample_event]\<rparr>) = (Ret (Some 0), s') \<and>
     map fst (devices s') = [0] \<and> map_ok (devices s') \<and>
     (\<exists>d. map_find 0 (devices s') = Some d \<and> created d)"
proof -
  let ?s = "(sample_cstate [])\<lparr>rdata := cat_stream linux_uapi Little sample_device sample_entries
        sample_axis [sample_event]\<rparr>"
  have a: "accepting quiet_os 3" by (simp add: accepting_def quiet_os_def)
  have l: "same_layout linux_uapi linux_uapi" by (simp add: same_layout_def)
  have s: "rdata ?s = cat_stream linux_uapi Little sample_device sample_entries sample_axis [sample_event]"
    "rend ?s = 0" "use_setup ?s = True" "devices ?s = []" "serversock ?s = Socket_new" "inhandle ?s = - 1"
    by (simp_all add: sample_cstate_def)
  have run: "\<exists>s' x. create_run quiet_os linux_uapi Big [] create_defaults [] ([], 0) 3 ?s = (Ret (Some 0), s') \<and>
      devices s' = [(0, x)]"
    by (subst create_run_on_stream [OF a sample_announceable l _ s]) simp_all
  then obtain s' x where run: "create_run quiet_os linux_uapi Big [] create_defaults [] ([], 0) 3 ?s = (Ret (Some 0), s')"
    and x: "devices s' = [(0, x)]"
    by blast
  have "map_ok (devices s') \<and> (\<forall>i d. map_find i (devices s') = Some d \<longrightarrow> created d)"
    by (rule create_devices_invariant [OF _ _ insertI1 run]) (simp_all add: s(4))
  then show ?thesis
    using run x by (simp add: map_find_def)
qed

end
