(* ===== verification/Granting.thy ===== *)
theory Granting
  imports Pipeline
begin

text \<open>
  A kernel that grants every request, and gives each new descriptor as it likes. What
  \<open>newFromNE2AddCommand\<close> does on it is what it does on a kernel that always gives the
  descriptor of this call, for there is only one call of \<open>open\<close>.
\<close>

definition granting :: "os \<Rightarrow> bool" where
  "granting os \<longleftrightarrow> (\<forall>h c. os_call os h c = None) \<and> (\<forall>h c. \<exists>fd. os_open os h c = Inr fd)"

definition given_fd :: "os \<Rightarrow> effect list \<Rightarrow> int" where
  "given_fd os h = (case os_open os h (Open ''/dev/uinput'') of Inr fd \<Rightarrow> fd | Inl err \<Rightarrow> - 1)"

abbreviation reopened :: "os \<Rightarrow> int \<Rightarrow> os" where
  "reopened os fd \<equiv> os\<lparr>os_open := \<lambda>_ _. Inr fd\<rparr>"

lemma reopen_accepts: "granting os \<Longrightarrow> accepting (reopened os fd) fd"
  by (simp add: granting_def accepting_def)

lemma granting_given_fd: "granting os \<Longrightarrow> os_open os h (Open ''/dev/uinput'') = Inr (given_fd os h)"
  unfolding granting_def given_fd_def by (metis sum.simps(6))

lemma reopen_same [simp]:
  "do_call (os\<lparr>os_open := f\<rparr>) = do_call os" "do_ignore (os\<lparr>os_open := f\<rparr>) = do_ignore os"
  by (simp_all add: fun_eq_iff do_call_def do_ignore_def)

lemma reopen_reads [simp]: "read_or (os\<lparr>os_open := f\<rparr>) = read_or os"
  by (simp add: fun_eq_iff read_or_def cong: sum.case_cong)

lemma reopen_bits [simp]: "out_ctl (os\<lparr>os_open := f\<rparr>) = out_ctl os"
  "setEventBit (os\<lparr>os_open := f\<rparr>) = setEventBit os" "setGenericBit (os\<lparr>os_open := f\<rparr>) = setGenericBit os"
  "setupAbsoluteAxis (os\<lparr>os_open := f\<rparr>) = setupAbsoluteAxis os" "create (os\<lparr>os_open := f\<rparr>) = create os"
  "OutDevice_delete (os\<lparr>os_open := f\<rparr>) = OutDevice_delete os" "with_device (os\<lparr>os_open := f\<rparr>) = with_device os"
  by (simp_all add: fun_eq_iff out_ctl_def setEventBit_def setGenericBit_def setupAbsoluteAxis_def create_def
      OutDevice_delete_def with_device_def throw_format_def cong: option.case_cong if_cong)

lemma reopen_entries [simp]: "read_entries (os\<lparr>os_open := f\<rparr>) = read_entries os"
proof (intro ext)
  fix e dev evs a b and s :: "'a wstate_scheme"
  have "read_entries (os\<lparr>os_open := f\<rparr>) e dev evs a b = (read_entries os e dev evs a b :: ('a wstate_scheme, Bits) prog)"
    by (induction evs arbitrary: a b) (simp_all add: Let_def cong: option.case_cong if_cong)
  then show "read_entries (os\<lparr>os_open := f\<rparr>) e dev evs a b s = read_entries os e dev evs a b s"
    by simp
qed

lemma reopen_axes [simp]: "read_axes (os\<lparr>os_open := f\<rparr>) = read_axes os"
proof (intro ext)
  fix u e dev evs and s :: "'a wstate_scheme"
  have "read_axes (os\<lparr>os_open := f\<rparr>) u e dev evs = (read_axes os u e dev evs :: ('a wstate_scheme, OutDevice option) prog)"
    by (induction evs arbitrary: dev) (simp_all cong: option.case_cong)
  then show "read_axes (os\<lparr>os_open := f\<rparr>) u e dev evs s = read_axes os u e dev evs s"
    by simp
qed

lemma run_open_uinput:
  "os_open os (history s) (Open ''/dev/uinput'') = Inr fd \<Longrightarrow>
   open_uinput os gDevicePaths s = open_uinput (reopened os fd) gDevicePaths s"
  by (simp add: gDevicePaths_def run_simps)

lemma if_at: "f s = f' s \<Longrightarrow> g s = g' s \<Longrightarrow> (if b then f else g) s = (if b then f' else g') s"
  by simp

lemma bind_same: "m s = m' s \<Longrightarrow> bindP m f s = bindP m' f s"
  by (simp add: run_bind)

lemma run_OutDevice_new:
  assumes "os_open os (history s) (Open ''/dev/uinput'') = Inr fd"
  shows "OutDevice_new os name i s = OutDevice_new (reopened os fd) name i s"
proof -
  have err: "os_strerror (reopened os fd) = os_strerror os" by simp
  show ?thesis
    unfolding OutDevice_new_def reopen_same err
    by (rule if_at [OF refl], rule bind_same, rule run_open_uinput, rule assms)
qed

lemma run_read_or: "read_or os n msg s = (r, s') \<Longrightarrow> history s' = history s"
  by (auto simp: read_or_def run_simps throw_errno_def split: if_splits option.splits)

lemma bind_cong_at:
  "(\<And>x s'. m s = (Ret x, s') \<Longrightarrow> f x s' = g x s') \<Longrightarrow> bindP m f s = bindP m g s"
  by (auto simp: run_bind split: prod.split outcome.split)

lemma run_newFromNE2AddCommand:
  assumes open_ok: "os_open os (history s) (Open ''/dev/uinput'') = Inr fd"
  shows "newFromNE2AddCommand os u e pkt skip s = newFromNE2AddCommand (reopened os fd) u e pkt skip s"
proof -
  have new: "bindP (if skip then ret None else bindP (OutDevice_new os n i) (\<lambda>d. ret (Some d))) f t =
      bindP (if skip then ret None else bindP (OutDevice_new (reopened os fd) n i) (\<lambda>d. ret (Some d))) f t"
    if "history t = history s" for n i f and t :: "'a wstate_scheme"
  proof -
    have "os_open os (history t) (Open ''/dev/uinput'') = Inr fd"
      using open_ok that by simp
    from run_OutDevice_new [OF this] show ?thesis
      by (intro bind_same if_at refl)
  qed
  have two: "bindP (read_or os n msg) (\<lambda>name. bindP (read_or os n' msg') (\<lambda>idb.
      bindP (if skip then ret None else bindP (OutDevice_new os (k name) (i idb)) (\<lambda>d. ret (Some d))) (f name idb))) s =
    bindP (read_or os n msg) (\<lambda>name. bindP (read_or os n' msg') (\<lambda>idb.
      bindP (if skip then ret None else bindP (OutDevice_new (reopened os fd) (k name) (i idb)) (\<lambda>d. ret (Some d))) (f name idb))) s"
    for n n' msg msg' k i f
    by (intro bind_cong_at new) (metis run_read_or)
  show ?thesis
    unfolding newFromNE2AddCommand_def reopen_same reopen_reads reopen_bits reopen_entries reopen_axes
    by (rule if_at [OF refl], rule if_at [OF refl], rule if_at [OF refl], rule two)
qed

end
