(* ===== verification/Legacy.thy ===== *)
theory Legacy
  imports Pipeline
begin

text \<open>
  netevent 1 from end to end: \<open>netevent cat --legacy\<close> (\<open>InDevice::writeNeteventHeader\<close> and
  raw events) into \<open>netevent create --legacy\<close> (\<open>OutDevice::newFromNeteventStream\<close> and
  \<open>cmd_create_legacy\<close>). The protocol has no byte order of its own: it is for hosts that agree
  on theirs, and on the kernel headers.
\<close>

section \<open>The stream\<close>

text \<open>The bit fields of the types the device has, in the order of a table.\<close>

definition ne1_block :: "Bits \<Rightarrow> (nat \<Rightarrow> byte list) \<Rightarrow> (nat \<times> nat \<times> string) list \<Rightarrow> byte list" where
  "ne1_block b f types = concat (map (\<lambda>(code, mx, kind). if get_ok b code then f code else []) types)"

definition legacy_header ::
    "uapi \<Rightarrow> endian \<Rightarrow> InDevice \<Rightarrow> (nat \<Rightarrow> byte list) \<Rightarrow> (nat \<Rightarrow> byte list) \<Rightarrow> (nat \<Rightarrow> absinfo) \<Rightarrow> byte list" where
  "legacy_header u e d entries states axis =
     mem_of e 2 (word_of_nat (user_dev_size u) :: 16 word) @ dev_name d @ id_mem e (dev_id d) @
     data (evbits d) @ ne1_block (evbits d) entries (ne1_entry_types u) @
     ne1_block (evbits d) states (ne1_state_types u) @
     (if get_ok (evbits d) EV_ABS
      then concat (map (\<lambda>i. absinfo_mem e (axis i)) [0..<ABS_CNT u - 1]) else [])"

definition legacy_stream ::
    "uapi \<Rightarrow> endian \<Rightarrow> 32 word \<Rightarrow> InDevice \<Rightarrow> (nat \<Rightarrow> byte list) \<Rightarrow> (nat \<Rightarrow> byte list) \<Rightarrow> (nat \<Rightarrow> absinfo) \<Rightarrow>
     kernel_event list \<Rightarrow> byte list" where
  "legacy_stream u e pad d entries states axis evs =
     legacy_header u e d entries states axis @ concat (map (\<lambda>ke. event_mem e (event_of pad ke)) evs)"

section \<open>The sender\<close>

text \<open>Answers of netevent 1's sizes that do not change.\<close>

definition answers_ne1 ::
    "os \<Rightarrow> int \<Rightarrow> (nat \<Rightarrow> nat \<Rightarrow> query) \<Rightarrow> (nat \<Rightarrow> byte list) \<Rightarrow> (nat \<times> nat \<times> string) list \<Rightarrow> bool" where
  "answers_ne1 os dfd q f types \<longleftrightarrow>
     (\<forall>(code, mx, kind)\<in>set types. length (f code) = ne1_bytes mx \<and>
        (\<forall>h. os_query os h (Query dfd (q code (ne1_bytes mx))) = Inr (f code)))"

definition legacy_device ::
    "os \<Rightarrow> endian \<Rightarrow> uapi \<Rightarrow> InDevice \<Rightarrow> (nat \<Rightarrow> byte list) \<Rightarrow> (nat \<Rightarrow> byte list) \<Rightarrow> (nat \<Rightarrow> absinfo) \<Rightarrow>
     kernel_event list \<Rightarrow> bool" where
  "legacy_device os e u d entries states axis evs \<longleftrightarrow>
     answers_ne1 os (in_fd d) EVIOCGBIT entries (ne1_entry_types u) \<and>
     answers_ne1 os (in_fd d) EVIOCGSTATE states (ne1_state_types u) \<and>
     (\<forall>h i. os_query os h (Query (in_fd d) (EVIOCGABS i)) = Inr (absinfo_mem e (axis i))) \<and>
     event_script os (in_fd d) evs \<and>
     (\<forall>h. os_call os h (Ioctl (in_fd d) (EVIOCGRAB True)) = None)"

lemma ne1_types_small:
  "(code, mx, kind) \<in> set (ne1_entry_types u) \<union> set (ne1_state_types u) \<Longrightarrow> code < EV_MAX \<and> code \<noteq> EV_FF"
  by (auto simp: ne1_entry_types_def ne1_state_types_def)

lemma resize_ne1:
  "snd (resizeNE1Compat (Some (\<lambda>_. 0)) mx Bits_empty) = bits_of (8 * (1 + mx div 8)) (replicate (ne1_bytes mx) 0)"
  by (simp add: resizeNE1Compat_def resize_new ne1_bytes_def del: mult_Suc_right)

lemma get_bit_ok: "valid b \<Longrightarrow> i < bitcount b \<Longrightarrow> get_bit b i = Some (get_ok b i)"
  using valid_in_range [of b i] by (simp add: get_ok_def get_bit_eq)

lemma overlay_all: "length got = length buf \<Longrightarrow> overlay buf got = got"
  by (simp add: overlay_def)

lemma emits_ne1_bits:
  assumes w: "writes_ok os fd" and v: "valid b" "code < bitcount b"
    and q: "\<And>h. os_query os h (Query dfd (q code (ne1_bytes mx))) = Inr got" and len: "length got = ne1_bytes mx"
  shows "emits fd (write_ne1_bits os dfd fd b q kq kw (code, mx, kind)) () (if get_ok b code then got else [])"
proof (cases "get_ok b code")
  case False
  then show ?thesis
    by (simp add: write_ne1_bits_def get_bit_ok [OF v] emits_ret)
next
  case True
  have size: "byte_size (bitcount (bits_of (8 * (1 + mx div 8)) bs)) = ne1_bytes mx" for bs
    by (simp add: bits_of_def ne1_bytes_def)
  have got: "overlay (replicate (ne1_bytes mx) 0) got = got"
    using len by (simp add: overlay_all)
  show ?thesis
    unfolding write_ne1_bits_def prod.case get_bit_ok [OF v] if_P [OF True] Let_def resize_ne1 size
    using True
    by (simp only: option.case bool.case, intro emits_ctl_bind [OF q])
      (rule emits_eq, rule emits_write_bind [OF w], simp_all add: emits_ret got)
qed

lemma emits_block:
  assumes w: "writes_ok os fd" and v: "valid b" and a: "answers_ne1 os dfd q f types"
    and small: "\<And>code mx kind. (code, mx, kind) \<in> set types \<Longrightarrow> code < bitcount b"
  shows "emits fd (forP (write_ne1_bits os dfd fd b q kq kw) types) () (ne1_block b f types)"
  unfolding ne1_block_def
proof (rule emits_for)
  fix type
  assume t: "type \<in> set types"
  obtain code mx kind where type: "type = (code, mx, kind)"
    by (cases type)
  show "emits fd (write_ne1_bits os dfd fd b q kq kw type) ()
      (case type of (code, mx, kind) \<Rightarrow> if get_ok b code then f code else [])"
    unfolding type prod.case
    by (rule emits_ne1_bits [OF w v]) (use t type small a in \<open>auto simp: answers_ne1_def\<close>)
qed

lemma emits_legacy_header:
  assumes ok: "InDevice_ok d" and dev: "legacy_device os e u d entries states axis evs" and w: "writes_ok os fd"
  shows "emits fd (writeNeteventHeader os u e d fd) () (legacy_header u e d entries states axis)"
proof -
  note [simp] = ok [unfolded InDevice_ok_def]
  have v: "valid (evbits d)"
    by (rule InDevice_ok_valid [OF ok])
  have abs: "get_bit (evbits d) EV_ABS = Some (get_ok (evbits d) EV_ABS)"
    by (rule get_bit_ok [OF v]) simp
  have axis: "emits fd (write_ne1_axis os e (in_fd d) fd i) () (absinfo_mem e (axis i))" for i
    unfolding write_ne1_axis_def
    by (rule emits_ctl_bind, use dev in \<open>simp add: legacy_device_def\<close>)
      (rule emits_eq, rule emits_write_bind [OF w], simp_all add: emits_ret host_absinfo.dec_enc)
  have a: "answers_ne1 os (in_fd d) EVIOCGBIT entries (ne1_entry_types u)"
    "answers_ne1 os (in_fd d) EVIOCGSTATE states (ne1_state_types u)"
    using dev by (simp_all add: legacy_device_def)
  have axes: "emits fd (case Some (get_ok (evbits d) EV_ABS) of None \<Rightarrow> undef | Some False \<Rightarrow> ret ()
        | Some True \<Rightarrow> forP (write_ne1_axis os e (in_fd d) fd) [0..<ABS_CNT u - 1]) ()
      (if get_ok (evbits d) EV_ABS
      then concat (map (\<lambda>i. absinfo_mem e (axis i)) [0..<ABS_CNT u - 1]) else [])"
    by (simp add: emits_ret emits_for [where f = "write_ne1_axis os e (in_fd d) fd", OF axis] del: One_nat_def)
  show ?thesis
    unfolding writeNeteventHeader_def abs
    by (rule emits_eq, rule emits_write_bind [OF w], unfold option.case(1),
        rule emits_then [OF emits_block [OF w v a(1)]], use ne1_types_small [of _ _ _ u] in force,
        rule emits_then [OF emits_block [OF w v a(2)]], use ne1_types_small [of _ _ _ u] in force,
        rule axes)
      (simp add: legacy_header_def)
qed

section \<open>The receiver\<close>

text \<open>The codes of a type that are enabled: the last one, \<open>mx\<close>, is not looked at.\<close>

definition ne1_codes :: "(nat \<Rightarrow> byte list) \<Rightarrow> nat \<Rightarrow> nat \<Rightarrow> nat list" where
  "ne1_codes f code mx = filter (get_ok (bits_of mx (f code))) [0..<mx]"

definition ne1_code_calls :: "int \<Rightarrow> Bits \<Rightarrow> (nat \<Rightarrow> byte list) \<Rightarrow> (nat \<times> nat \<times> string) list \<Rightarrow> call list" where
  "ne1_code_calls fd b f types = concat (map (\<lambda>(code, mx, kind).
     if get_ok b code then map (\<lambda>i. Ioctl fd (UI_SET_BIT code i)) (ne1_codes f code mx) else []) types)"

primrec ne1_abs :: "Bits \<Rightarrow> (nat \<Rightarrow> byte list) \<Rightarrow> (nat \<times> nat \<times> string) list \<Rightarrow> Bits \<Rightarrow> Bits" where
  "ne1_abs b f [] ab = ab"
| "ne1_abs b f (type # types) ab = ne1_abs b f types
     (case type of (code, mx, kind) \<Rightarrow> if get_ok b code \<and> code = EV_ABS then bits_of mx (f code) else ab)"

lemma load_shrunk:
  "length bs = ne1_bytes mx \<Longrightarrow> shrinkTo mx (load_bits (8 * (1 + mx div 8)) bs eb) = bits_of mx bs"
proof -
  assume len: "length bs = ne1_bytes mx"
  have "mx < 8 * (1 + mx div 8)"
    using dividend_less_times_div [of 8 mx] by simp
  with len show ?thesis
    by (simp only: ne1_bytes_def load_bits_eq) (simp add: shrinkTo_def bits_of_def)
qed

lemma set_indices_ne1:
  assumes "length (f code) = ne1_bytes mx"
  shows "set_indices (bits_of mx (f code)) = Some (ne1_codes f code mx)"
proof -
  have "valid (bits_of mx (f code))"
    using assms byte_size_mono [of mx "8 * (1 + mx div 8)"]
    by (simp add: valid_def bits_of_def ne1_bytes_def)
  then show ?thesis
    by (simp add: set_indices_valid ne1_codes_def bits_of_def)
qed

lemma consumes_ne1_entries:
  assumes acc: "accepting os fd" and nc: "\<not> created x"
  shows "\<forall>(code, mx, kind)\<in>set types. length (f code) = ne1_bytes mx \<and> get_bit bits code = Some (get_ok b code) \<Longrightarrow>
    consumes us (read_ne1_entries os x bits types eb ab :: ('a wstate_scheme, Bits) prog) (ne1_block b f types) (ne1_abs b f types ab)
      (ne1_code_calls (out_fd x) b f types)"
proof (induction types arbitrary: eb ab)
  case Nil
  then show ?case by (simp add: ne1_block_def ne1_code_calls_def consumes_ret)
next
  case (Cons type types)
  obtain code mx kind where type: "type = (code, mx, kind)"
    by (cases type)
  have len: "length (f code) = ne1_bytes mx" and bit: "get_bit bits code = Some (get_ok b code)"
    using Cons.prems by (auto simp: type)
  note IH = Cons.IH
  have IH: "consumes us (read_ne1_entries os x bits types eb ab :: ('a wstate_scheme, Bits) prog) (ne1_block b f types) (ne1_abs b f types ab)
      (ne1_code_calls (out_fd x) b f types)" for eb ab
    using Cons.prems by (intro Cons.IH) simp
  show ?case
  proof (cases "get_ok b code")
    case False
    then show ?thesis
      using IH by (simp add: type bit ne1_block_def ne1_code_calls_def)
  next
    case True
    let ?m = "bits_of mx (f code)"
    have set: "consumes us (forP (\<lambda>i. setGenericBit os x code i ''failed to set %s bit'') (ne1_codes f code mx) :: ('a wstate_scheme, unit) prog) []
        () (concat (map (\<lambda>i. [Ioctl (out_fd x) (UI_SET_BIT code i)]) (ne1_codes f code mx)))"
      by (rule consumes_for) (rule consumes_setGenericBit [OF acc nc])
    have rest: "consumes us (if code = EV_ABS then read_ne1_entries os x bits types Bits_empty ?m
          else read_ne1_entries os x bits types ?m ab :: ('a wstate_scheme, Bits) prog) (ne1_block b f types)
        (ne1_abs b f (type # types) ab) (ne1_code_calls (out_fd x) b f types)"
      using IH [of Bits_empty ?m] IH [of ?m ab] True by (cases "code = EV_ABS") (simp_all add: type)
    have "consumes us (read_ne1_entries os x bits ((code, mx, kind) # types) eb ab :: ('a wstate_scheme, Bits) prog) (f code @ ne1_block b f types)
        (ne1_abs b f (type # types) ab)
        (concat (map (\<lambda>i. [Ioctl (out_fd x) (UI_SET_BIT code i)]) (ne1_codes f code mx)) @
         ne1_code_calls (out_fd x) b f types)"
      unfolding read_ne1_entries.simps(2) bit option.case if_P [OF True] bool.case Let_def
      using True
      by (simp only: bool.case, intro consumes_read_bind [OF len])
        (unfold load_shrunk [OF len] set_indices_ne1 [of f code mx, OF len] option.case, rule consumes_calls_then [OF set rest])
    then show ?thesis
      using True by (simp add: type ne1_block_def ne1_code_calls_def concat_map_singleton
          del: read_ne1_entries.simps ne1_abs.simps)
  qed
qed

lemma consumes_ne1_states:
  assumes "\<forall>(code, mx, kind)\<in>set types. length (f code) = ne1_bytes mx \<and> get_bit bits code = Some (get_ok b code)"
  shows "consumes us (forP (skip_ne1_state os bits) types :: ('a wstate_scheme, unit) prog) (ne1_block b f types) () []"
  using assms
proof (induction types)
  case Nil
  then show ?case by (simp add: ne1_block_def consumes_ret)
next
  case (Cons type types)
  obtain code mx kind where type: "type = (code, mx, kind)"
    by (cases type)
  have len: "length (f code) = ne1_bytes mx" and bit: "get_bit bits code = Some (get_ok b code)"
    using Cons.prems by (auto simp: type)
  have one: "consumes us (skip_ne1_state os bits type :: ('a wstate_scheme, unit) prog) (if get_ok b code then f code else []) () []"
  proof (cases "get_ok b code")
    case True
    have "consumes us (bindP (read_or os (ne1_bytes mx) (''error reading '' @ kind @ '' state'')) (\<lambda>_. ret ()) :: ('a wstate_scheme, unit) prog)
        (f code @ []) () []"
      by (rule consumes_read_bind [OF len consumes_ret])
    with True show ?thesis
      by (simp add: skip_ne1_state_def type bit)
  qed (simp add: skip_ne1_state_def type bit consumes_ret)
  have "consumes us (forP (skip_ne1_state os bits) types :: ('a wstate_scheme, unit) prog) (ne1_block b f types) () []"
    using Cons by simp
  from consumes_then [OF one this] show ?case
    by (simp add: type ne1_block_def)
qed

lemma consumes_ne1_axes:
  assumes acc: "accepting os fd" and v: "\<And>i. i \<in> set is \<Longrightarrow> get_bit ab i = Some (get_ok ab i)"
    and ax: "\<And>i. i \<in> set is \<Longrightarrow> i < ABS_CNT u"
  shows "\<not> created x \<Longrightarrow> consumes us (read_ne1_axes os u e ab x is :: ('a wstate_scheme, OutDevice) prog)
      (concat (map (\<lambda>i. absinfo_mem e (axis i)) is))
      (axis_store us axis (filter (get_ok ab) is) x)
      (concat (map (axis_call us (out_fd x) axis) (filter (get_ok ab) is)))"
  using v ax
proof (induction "is" arbitrary: x)
  case Nil
  then show ?case by (simp add: axis_store_def consumes_ret)
next
  case (Cons i "is")
  have len: "length (absinfo_mem e (axis i)) = absinfo_size"
    by (simp add: host_absinfo.length_enc absinfo_size_def)
  have dec: "absinfo_of_mem e (absinfo_mem e (axis i)) = axis i"
    by (rule host_absinfo.dec_enc)
  have bit: "get_bit ab i = Some (get_ok ab i)"
    using Cons.prems by simp
  show ?case
  proof (cases "get_ok ab i")
    case False
    have "consumes us (read_ne1_axes os u e ab x is :: ('a wstate_scheme, OutDevice) prog) (concat (map (\<lambda>i. absinfo_mem e (axis i)) is))
      (axis_store us axis (filter (get_ok ab) is) x)
      (concat (map (axis_call us (out_fd x) axis) (filter (get_ok ab) is)))"
      using Cons by simp
    then show ?thesis
      using False unfolding read_ne1_axes.simps list.map concat.simps
      by (simp add: bit consumes_read_bind [OF len] del: read_ne1_axes.simps)
  next
    case True
    let ?x = "if us then x else store_axis i (axis i) x"
    have nc: "\<not> created ?x" and out: "out_fd ?x = out_fd x"
      using Cons.prems(1) by simp_all
    have rest: "consumes us (read_ne1_axes os u e ab ?x is :: ('a wstate_scheme, OutDevice) prog) (concat (map (\<lambda>i. absinfo_mem e (axis i)) is))
      (axis_store us axis (filter (get_ok ab) is) ?x)
      (concat (map (axis_call us (out_fd ?x) axis) (filter (get_ok ab) is)))"
      using Cons nc by simp
    have store: "axis_store us axis (filter (get_ok ab) is) ?x = axis_store us axis (filter (get_ok ab) (i # is)) x"
      using True by (simp add: axis_store_def)
    have call: "(if us then [Ioctl (out_fd x) (UI_ABS_SETUP i (axis i))] else []) = axis_call us (out_fd x) axis i"
      by (simp add: axis_call_def)
    have "us \<or> i < ABS_CNT u"
      using Cons.prems by simp
    note step = consumes_setupAbsoluteAxis [OF acc Cons.prems(1) this, of "axis i", unfolded call]
    have "consumes us (read_ne1_axes os u e ab x (i # is) :: ('a wstate_scheme, OutDevice) prog)
      (absinfo_mem e (axis i) @ concat (map (\<lambda>i. absinfo_mem e (axis i)) is))
      (axis_store us axis (filter (get_ok ab) (i # is)) x)
      (axis_call us (out_fd x) axis i @ concat (map (axis_call us (out_fd ?x) axis) (filter (get_ok ab) is)))"
      unfolding read_ne1_axes.simps store [symmetric]
      by (rule consumes_read_bind [OF len], simp only: bit True option.case bool.case dec,
          rule consumes_calls_bind, rule step, rule rest)
    then show ?thesis
      using True out by (simp del: read_ne1_axes.simps)
  qed
qed

section \<open>The device\<close>

definition legacy_axes :: "uapi \<Rightarrow> Bits \<Rightarrow> (nat \<Rightarrow> byte list) \<Rightarrow> nat list" where
  "legacy_axes u b f = (if get_ok b EV_ABS then ne1_codes f EV_ABS (ABS_CNT u - 1) else [])"

definition legacy_received ::
    "bool \<Rightarrow> int \<Rightarrow> uapi \<Rightarrow> InDevice \<Rightarrow> (nat \<Rightarrow> byte list) \<Rightarrow> (nat \<Rightarrow> absinfo) \<Rightarrow> OutDevice" where
  "legacy_received us fd u d entries axis =
     axis_store us axis (legacy_axes u (evbits d) entries)
       \<lparr>out_fd = fd, user_dev = new_user_dev (dev_name d) (dev_id d), created = False\<rparr>"

definition legacy_calls ::
    "bool \<Rightarrow> int \<Rightarrow> uapi \<Rightarrow> InDevice \<Rightarrow> (nat \<Rightarrow> byte list) \<Rightarrow> (nat \<Rightarrow> absinfo) \<Rightarrow> call list" where
  "legacy_calls us fd u d entries axis =
     [Open ''/dev/uinput'', GotFd fd] @
     (if us then [Ioctl fd (UI_DEV_SETUP (dev_name d) (dev_id d))] else []) @
     map (\<lambda>ev. Ioctl fd (UI_SET_EVBIT ev)) (enabled_events (evbits d)) @
     ne1_code_calls fd (evbits d) entries (ne1_entries u) @
     concat (map (axis_call us fd axis) (legacy_axes u (evbits d) entries)) @
     (if us then [] else [WriteUserDev fd (user_dev (legacy_received us fd u d entries axis))]) @
     [Ioctl fd UI_DEV_CREATE]"

text \<open>What the receiver takes for granted: the name is a C string, the fields have their sizes.\<close>

definition legacy_ok :: "uapi \<Rightarrow> InDevice \<Rightarrow> string \<Rightarrow> (nat \<Rightarrow> byte list) \<Rightarrow> (nat \<Rightarrow> byte list) \<Rightarrow> bool" where
  "legacy_ok u d n entries states \<longleftrightarrow> InDevice_ok d \<and> padded_name (dev_name d) n \<and> uapi_ok u \<and>
     (\<forall>(code, mx, kind)\<in>set (ne1_entries u). length (entries code) = ne1_bytes mx) \<and>
     (\<forall>(code, mx, kind)\<in>set (ne1_states u). length (states code) = ne1_bytes mx)"

lemma ne1_tables: "ne1_entry_types u = ne1_entries u" "ne1_state_types u = ne1_states u"
  by (simp_all add: ne1_entry_types_def ne1_entries_def ne1_state_types_def ne1_states_def)

lemma ne1_abs_entries:
  "ne1_abs b f (ne1_entries u) ab = (if get_ok b EV_ABS then bits_of (ABS_CNT u - 1) (f EV_ABS) else ab)"
  by (simp add: ne1_entries_def)

text \<open>Force feedback is taken out of the event types.\<close>

lemma without_FF:
  assumes ok: "InDevice_ok d"
  obtains b where "set_bit_to (evbits d) EV_FF False = Some b" and "bitcount b = EV_MAX" and "valid b"
    and "\<And>j. j < EV_MAX \<Longrightarrow> j \<noteq> EV_FF \<Longrightarrow> get_bit b j = Some (get_ok (evbits d) j)"
    and "set_indices b = Some (enabled_events (evbits d))"
proof -
  note [simp] = ok [unfolded InDevice_ok_def]
  have v: "valid (evbits d)"
    by (rule InDevice_ok_valid [OF ok])
  have FF: "EV_FF < bitcount (evbits d)"
    by simp
  from set_bit_to_Some [OF v FF] obtain b where b: "set_bit_to (evbits d) EV_FF False = Some b"
    by blast
  note g = get_bit_set_bit [OF b]
  have vb: "valid b"
    using v g(2,3) by (simp add: valid_def)
  have bits: "get_bit b j = Some (get_ok (evbits d) j)" if "j < EV_MAX" "j \<noteq> EV_FF" for j
    using that g(1) [of j] get_bit_ok [OF v, of j] by simp
  have "get_ok b = (\<lambda>j. get_ok (evbits d) j \<and> j \<noteq> EV_FF)"
    by (rule ext) (simp add: get_ok_def g(1) conj_commute)
  then have "set_indices b = Some (enabled_events (evbits d))"
    using g(2) by (simp add: set_indices_valid [OF vb] enabled_events_def)
  with b g(2) vb bits show thesis
    by (intro that) simp_all
qed

lemma newFromNeteventStream_consumes:
  assumes acc: "accepting os fd" and ok: "legacy_ok u d n entries states"
  shows "consumes us (newFromNeteventStream os u e :: ('a wstate_scheme, OutDevice) prog)
    (legacy_header u e d entries states axis)
    (legacy_received us fd u d entries axis\<lparr>created := True\<rparr>) (legacy_calls us fd u d entries axis)"
proof -
  let ?x = "\<lparr>out_fd = fd, user_dev = new_user_dev (dev_name d) (dev_id d), created = False\<rparr>"
  let ?ab = "ne1_abs (evbits d) entries (ne1_entries u) Bits_empty"
  let ?is = "[0..<ABS_CNT u - 1]"
  let ?y = "legacy_received us fd u d entries axis"
  have dok: "InDevice_ok d" and name: "padded_name (dev_name d) n" and uok: "uapi_ok u"
    using ok by (simp_all add: legacy_ok_def)
  from without_FF [OF dok] obtain b where b: "set_bit_to (evbits d) EV_FF False = Some b"
    "bitcount b = EV_MAX" "valid b"
    "\<And>j. j < EV_MAX \<Longrightarrow> j \<noteq> EV_FF \<Longrightarrow> get_bit b j = Some (get_ok (evbits d) j)"
    "set_indices b = Some (enabled_events (evbits d))"
    by blast
  have lens: "\<forall>(code, mx, kind)\<in>set (ne1_entries u). length (entries code) = ne1_bytes mx \<and>
      get_bit b code = Some (get_ok (evbits d) code)"
    "\<forall>(code, mx, kind)\<in>set (ne1_states u). length (states code) = ne1_bytes mx \<and>
      get_bit b code = Some (get_ok (evbits d) code)"
    using ok b(4) ne1_types_small [of _ _ _ u] by (fastforce simp: legacy_ok_def ne1_tables)+
  have lenn: "length (dev_name d) = name_size" and lenb: "length (data (evbits d)) = ne1_bytes EV_MAX"
    and cnt: "bitcount (evbits d) = EV_MAX"
    using dok by (simp_all add: InDevice_ok_def ne1_bytes_def byte_size_def)
  have size: "unat (of_mem e (mem_of e 2 (word_of_nat (user_dev_size u) :: 16 word)) :: 16 word) = user_dev_size u"
    using user_dev_size_16 [OF uok] by (simp add: of_mem_mem_of unat_of_nat take_bit_eq_mod)
  have bits1: "shrinkTo EV_MAX (load_bits (8 * (1 + EV_MAX div 8)) (data (evbits d)) Bits_empty) = evbits d"
    unfolding load_shrunk [OF lenb] by (rule bits_of_data [OF cnt])
  have name': "bytes_str (takeWhile (\<lambda>b. b \<noteq> 0) (dev_name d)) = n"
    by (rule padded_name_read [OF name])
  have idd: "id_of_mem e (id_mem e (dev_id d)) = dev_id d" and lenid: "length (id_mem e (dev_id d)) = 8"
    by (rule host_id.dec_enc, rule host_id.length_enc)
  have evs: "consumes us (forP (setEventBit os ?x) (enabled_events (evbits d)) :: ('a wstate_scheme, unit) prog) []
      () (concat (map (\<lambda>ev. [Ioctl (out_fd ?x) (UI_SET_EVBIT ev)]) (enabled_events (evbits d))))"
    by (rule consumes_for) (rule consumes_setEventBit [OF acc], simp)
  have abs: "get_bit b EV_ABS = Some (get_ok (evbits d) EV_ABS)"
    by (rule b(4)) simp_all
  have axes: "consumes us ((if get_ok (evbits d) EV_ABS then read_ne1_axes os u e ?ab ?x ?is else ret ?x)
        :: ('a wstate_scheme, OutDevice) prog)
      (if get_ok (evbits d) EV_ABS then concat (map (\<lambda>i. absinfo_mem e (axis i)) ?is) else [])
      ?y (concat (map (axis_call us fd axis) (legacy_axes u (evbits d) entries)))"
  proof (cases "get_ok (evbits d) EV_ABS")
    case False
    then show ?thesis
      by (simp add: legacy_received_def legacy_axes_def axis_store_def consumes_ret)
  next
    case True
    then have ab: "?ab = bits_of (ABS_CNT u - 1) (entries EV_ABS)"
      by (simp add: ne1_abs_entries)
    have len: "length (entries EV_ABS) = ne1_bytes (ABS_CNT u - 1)"
      using ok by (simp add: legacy_ok_def ne1_entries_def)
    have v: "valid ?ab"
      unfolding ab using len byte_size_mono [of "ABS_CNT u - 1" "8 * (1 + (ABS_CNT u - 1) div 8)"]
        dividend_less_times_div [of 8 "ABS_CNT u - 1"]
      by (simp add: valid_def bits_of_def ne1_bytes_def)
    have "consumes us (read_ne1_axes os u e ?ab ?x ?is :: ('a wstate_scheme, OutDevice) prog)
        (concat (map (\<lambda>i. absinfo_mem e (axis i)) ?is))
        (axis_store us axis (filter (get_ok ?ab) ?is) ?x)
        (concat (map (axis_call us (out_fd ?x) axis) (filter (get_ok ?ab) ?is)))"
    proof (rule consumes_ne1_axes [OF acc])
      fix i
      assume i: "i \<in> set ?is"
      show "get_bit ?ab i = Some (get_ok ?ab i)"
        by (rule get_bit_ok [OF v]) (use i in \<open>simp add: ab bits_of_def\<close>)
      show "i < ABS_CNT u"
        using i by simp
    qed simp
    then show ?thesis
      using True by (simp add: ab legacy_received_def legacy_axes_def ne1_codes_def)
  qed
  have fin: "consumes us (create os ?y) [] (?y\<lparr>created := True\<rparr>)
      ((if us then [] else [WriteUserDev (out_fd ?y) (user_dev ?y)]) @ [Ioctl (out_fd ?y) UI_DEV_CREATE])"
    by (rule consumes_create [OF acc])
  have out: "out_fd (legacy_received us' fd u d entries axis) = fd" for us'
    by (simp add: legacy_received_def)
  have new: "consumes us (OutDevice_new os n (dev_id d) :: ('a wstate_scheme, OutDevice) prog) [] ?x
      (Open ''/dev/uinput'' # GotFd fd # (if us then [Ioctl fd (UI_DEV_SETUP (dev_name d) (dev_id d))] else []))"
    by (rule consumes_OutDevice_new [OF acc name])
  have FF: "EV_FF < EV_MAX"
    by simp
  have lensz: "length (mem_of e 2 (word_of_nat (user_dev_size u) :: 16 word)) = 2"
    by simp
  show ?thesis
    unfolding newFromNeteventStream_def legacy_header_def ne1_tables
    by (rule consumes_eq, rule consumes_read_bind [OF lensz], unfold size simp_thms if_False,
        rule consumes_read_bind [OF lenn], unfold name', rule consumes_read_bind [OF lenid],
        unfold idd, rule consumes_calls_bind [OF new], rule consumes_with_device,
        rule consumes_read_bind [OF lenb], unfold bits1 Let_def cnt if_P [OF FF] b(1,5) option.case,
        rule consumes_calls_then [OF evs],
        rule consumes_bind [OF consumes_ne1_entries [OF acc _ lens(1)]], simp,
        rule consumes_then [OF consumes_ne1_states [OF lens(2)]],
        unfold abs option.case, rule consumes_bind, rule axes, rule fin)
      (simp_all add: legacy_calls_def out)
qed

section \<open>The events\<close>

lemma run_legacy_loop:
  assumes acc: "accepting os fd"
  shows "rdata s = concat (map (\<lambda>ke. event_mem e (event_of pad ke)) evs) \<Longrightarrow> rend s = 0 \<Longrightarrow> length evs < n \<Longrightarrow>
    legacy_loop os e x n s = (Ret (Some 0), s\<lparr>rdata := [], history := history s @
      map (\<lambda>c. (c, None)) (concat (map (\<lambda>ke. event_write (out_fd x) (event_of pad ke)) evs))\<rparr>)"
proof (induction evs arbitrary: n s)
  case Nil
  from Nil.prems(3) obtain m where n: "n = Suc m" by (cases n) auto
  show ?case
    using Nil.prems by (cases s) (simp add: n run_simps)
next
  case (Cons ke evs)
  from Cons.prems(3) obtain m where n: "n = Suc m" by (cases n) auto
  let ?s = "s\<lparr>rdata := concat (map (\<lambda>ke. event_mem e (event_of pad ke)) evs)\<rparr>"
  let ?t = "?s\<lparr>history := history s @ map (\<lambda>c. (c, None)) (event_write (out_fd x) (event_of pad ke))\<rparr>"
  have "\<forall>h c. os_call os h c = None" using acc by (simp add: accepting_def)
  then have w: "OutDevice_write os x (event_of pad ke) ?s = (Ret (), ?t)"
    by (cases s) (simp add: OutDevice_write_def event_write_def run_simps log_call_def)
  have run: "legacy_loop os e x n s = legacy_loop os e x m ?t"
    using Cons.prems(1) w by (simp add: n run_simps event_of_mem_mem)
  have "legacy_loop os e x m ?t = (Ret (Some 0), ?t\<lparr>rdata := [], history := history ?t @
      map (\<lambda>c. (c, None)) (concat (map (\<lambda>ke. event_write (out_fd x) (event_of pad ke)) evs))\<rparr>)"
    by (rule Cons.IH) (use Cons.prems n in simp_all)
  then show ?case by (simp add: run)
qed

section \<open>Both ends\<close>

lemma keeps_reads_legacy:
  "keeps (\<lambda>s. reads_of fd (history s) = k) (writeNeteventHeader os u e d out)"
  unfolding writeNeteventHeader_def write_ne1_bits_def write_ne1_axis_def mustWrite_def Let_def
  by (auto intro!: keeps_intro keeps_reads_ctl keeps_reads_call split: prod.split bool.split)

lemma cat_legacy_output:
  assumes dev: "InDevice_new os e path s = (Ret d, s1)" and w: "writes_ok os 1"
    and ld: "legacy_device os e u d entries states axis evs"
    and first: "reads_of (in_fd d) (history s) = 0" and fuel: "length evs < fuel"
  shows "fst (cmd_cat os u e pad fuel [(opt CHR ''l'', [])] [path] s) = Throw (Exception ''unexpected EOF'') \<and>
    wrote 1 (history (snd (cmd_cat os u e pad fuel [(opt CHR ''l'', [])] [path] s))) =
      wrote 1 (history s1) @ legacy_stream u e pad d entries states axis evs"
proof -
  let ?d = "d\<lparr>grabbing := True\<rparr>"
  let ?a = "writeNeteventHeader os u e ?d 1 :: ('a world_scheme, unit) prog"
  have dok: "InDevice_ok ?d" and eof: "\<not> eof ?d"
    using InDevice_new_ok [OF dev] by (simp_all add: InDevice_ok_def)
  have ld': "legacy_device os e u ?d entries states axis evs" and sc: "event_script os (in_fd ?d) evs"
    and gr: "os_call os h (Ioctl (in_fd d) (EVIOCGRAB True)) = None" for h
    using ld by (simp_all add: legacy_device_def)
  have opts: "parse_options cat_step (False, True) [(opt CHR ''l'', [])] = Options (True, True)"
    by (simp add: cat_step_def opt_def)
  define s2 where "s2 = log_call (Ioctl (in_fd d) (EVIOCGRAB True)) None s1"
  define s4 where "s4 = snd (?a s2)"
  have a: "?a s2 = (Ret (), s4)" "wrote 1 (history s4) = wrote 1 (history s1) @
      legacy_header u e ?d entries states axis"
    using emits_wrote [OF emits_legacy_header [OF dok ld' w], of s2]
    by (auto simp: s4_def s2_def prod_eq_iff)
  have "reads_of (in_fd d) (history s1) = 0"
    using keepsD [OF keeps_reads(1) first dev] .
  then have "reads_of (in_fd d) (history s2) = 0" by (simp add: s2_def)
  then have r4: "reads_of (in_fd ?d) (history s4) = 0"
    using keepsD [OF keeps_reads_legacy _ a(1)] by simp
  have "length evs - reads_of (in_fd ?d) (history s4) < fuel" using fuel by simp
  note c = raw.sends [OF sc w eof this, of e pad]
  from c obtain s5 where s5: "cat_legacy os e pad fuel ?d s4 = (Throw (Exception ''unexpected EOF''), s5)"
    "wrote 1 (history s5) = wrote 1 (history s4) @ concat (map (\<lambda>ke. event_mem e (event_of pad ke)) evs)"
    by (cases "cat_legacy os e pad fuel ?d s4") (simp add: r4 [simplified])
  have "InDevice_grab os True d s1 = (Ret ?d, s2)"
    using gr by (simp add: InDevice_grab_def run_simps s2_def)
  then have "cmd_cat os u e pad fuel [(opt CHR ''l'', [])] [path] s =
      (thenP (InDevice_delete os d) (raise (Exception ''unexpected EOF''))) s5"
    using dev a(1) s5(1) by (simp add: cmd_cat_def run_simps opts del: parse_options.simps)
  moreover have "legacy_header u e ?d entries states axis = legacy_header u e d entries states axis"
    by (simp add: legacy_header_def)
  ultimately show ?thesis
    using s5(2) a(2) by (simp add: InDevice_delete_def run_simps legacy_stream_def)
qed

lemma create_legacy_run:
  assumes acc: "accepting os fd" and ok: "legacy_ok u d n entries states"
    and s: "rdata s = legacy_stream u e pad d entries states axis evs" "rend s = 0" and fuel: "length evs < fuel"
  shows "fst (cmd_create os u e junk [(opt CHR ''l'', [])] [] reads piped fuel s) = Ret (Status 0) \<and>
    history (snd (cmd_create os u e junk [(opt CHR ''l'', [])] [] reads piped fuel s)) =
      history s @ map (\<lambda>c. (c, None))
        (legacy_calls (use_setup s) fd u d entries axis @
         concat (map (\<lambda>ke. event_write fd (event_of pad ke)) evs) @
         [Ioctl fd UI_DEV_DESTROY, Close fd])"
proof -
  let ?us = "use_setup s"
  let ?x = "legacy_received ?us fd u d entries axis\<lparr>created := True\<rparr>"
  let ?evs = "concat (map (\<lambda>ke. event_mem e (event_of pad ke)) evs)"
  let ?s1 = "s\<lparr>rdata := ?evs, history := history s @ map (\<lambda>c. (c, None)) (legacy_calls ?us fd u d entries axis)\<rparr>"
  let ?s2 = "?s1\<lparr>rdata := [], history := history ?s1 @
      map (\<lambda>c. (c, None)) (concat (map (\<lambda>ke. event_write (out_fd ?x) (event_of pad ke)) evs))\<rparr>"
  have okc: "\<forall>h c. os_call os h c = None" using acc by (simp add: accepting_def)
  have out: "out_fd ?x = fd" by (simp add: legacy_received_def)
  have opts: "parse_options create_step create_defaults [(opt CHR ''l'', [])] =
      Options (create_defaults\<lparr>optLegacyMode := True\<rparr>)"
    by (simp add: create_step_def opt_def)
  have new: "newFromNeteventStream os u e s = (Ret ?x, ?s1)"
    using newFromNeteventStream_consumes [OF acc ok] s(1) unfolding consumes_def legacy_stream_def by blast
  have loop: "legacy_loop os e ?x fuel ?s1 = (Ret (Some 0), ?s2)"
    by (rule run_legacy_loop [OF acc]) (use s fuel in simp_all)
  show ?thesis
    unfolding cmd_create_def opts with_options_Options
    using okc by (simp add: create_defaults_def run_simps cmd_create_legacy_def new loop
        OutDevice_delete_def out log_call_def)
qed

text \<open>
  C31. netevent 1: netevent cat --legacy on a device that opens, can be grabbed and reports
  the events evs puts its header and its events on standard output; netevent create --legacy,
  fed that output on a host with the same byte order and kernel headers that grants every
  request, ends with 0 after it has made exactly one device, with the name, the identifier,
  the event types (force feedback excepted), the codes (the last of each type excepted) and
  the axes, has written exactly the events to it, in order, and has destroyed it.
\<close>

theorem legacy_cat_into_create:
  assumes dev: "InDevice_new os e path s = (Ret d, s1)" and w: "writes_ok os 1"
    and ld: "legacy_device os e u d entries states axis evs"
    and first: "reads_of (in_fd d) (history s) = 0" and fuel: "length evs < fuel"
    and acc: "accepting os' fd" and ok: "legacy_ok u d n entries states"
    and t: "wrote 1 (history (snd (cmd_cat os u e pad fuel [(opt CHR ''l'', [])] [path] s))) =
      wrote 1 (history s1) @ rdata t" "rend t = 0" and fuel': "length evs < fuel'"
  shows "fst (cmd_create os' u e junk [(opt CHR ''l'', [])] [] reads piped fuel' t) = Ret (Status 0) \<and>
    history (snd (cmd_create os' u e junk [(opt CHR ''l'', [])] [] reads piped fuel' t)) =
      history t @ map (\<lambda>c. (c, None))
        (legacy_calls (use_setup t) fd u d entries axis @
         concat (map (\<lambda>ke. event_write fd (event_of pad ke)) evs) @
         [Ioctl fd UI_DEV_DESTROY, Close fd])"
proof -
  have "rdata t = legacy_stream u e pad d entries states axis evs"
    using cat_legacy_output [OF dev w ld first fuel, of pad] t(1) by simp
  then show ?thesis
    by (rule create_legacy_run [OF acc ok _ t(2) fuel'])
qed

text \<open>A kernel for the sample device, with netevent 1's sizes.\<close>

definition ne1_max :: "nat \<Rightarrow> nat" where
  "ne1_max code = (if code = EV_KEY then 767 else if code = EV_ABS then 63 else if code = EV_MSC then 7
     else if code = EV_SW then 16 else 15)"

definition legacy_os :: "endian \<Rightarrow> os" where
  "legacy_os e = (cat_os e)\<lparr>os_query := (\<lambda>h c. case c of
     Query fd (EVIOCGBIT ev n) \<Rightarrow> Inr (if ev = EV_SYN then [15, 0, 0, 0] else replicate n 1)
   | Query fd (EVIOCGSTATE ev n) \<Rightarrow> Inr (replicate n 0)
   | c \<Rightarrow> os_query (cat_os e) h c)\<rparr>"

definition legacy_entries :: "nat \<Rightarrow> byte list" where
  "legacy_entries code = replicate (ne1_bytes (ne1_max code)) 1"

definition legacy_states :: "nat \<Rightarrow> byte list" where
  "legacy_states code = replicate (ne1_bytes (ne1_max code)) 0"

lemma ne1_max_types:
  "(code, mx, kind) \<in> set (ne1_entries linux_uapi) \<union> set (ne1_states linux_uapi) \<Longrightarrow> mx = ne1_max code \<and> code \<noteq> 0"
  by (auto simp: ne1_entries_def ne1_states_def linux_uapi_def ne1_max_def)

lemma legacy_os_device:
  "legacy_device (legacy_os e) e linux_uapi sample_device legacy_entries legacy_states sample_axis [sample_event]"
  using cat_os_script [of e] ne1_max_types
  by (fastforce simp: legacy_device_def cat_device_def answers_ne1_def ne1_tables legacy_os_def steady_def
      event_script_def legacy_entries_def legacy_states_def)

lemma legacy_os_ok: "legacy_ok linux_uapi sample_device ''pad'' legacy_entries legacy_states"
  using sample_announceable ne1_max_types
  by (fastforce simp: legacy_ok_def announceable_def linux_uapi_ok legacy_entries_def legacy_states_def)

theorem legacy_cat_into_create_witness:
  "fst (cmd_create quiet_os linux_uapi Big [] [(opt CHR ''l'', [])] [] [] ([], 0) 2
      ((sample_cstate [])\<lparr>rdata := legacy_stream linux_uapi Big 0 sample_device legacy_entries legacy_states
        sample_axis [sample_event]\<rparr>)) = Ret (Status 0)"
proof -
  let ?t = "(sample_cstate [])\<lparr>rdata := legacy_stream linux_uapi Big 0 sample_device legacy_entries legacy_states
        sample_axis [sample_event]\<rparr>"
  have dev: "InDevice_new (legacy_os Big) Big ''/dev/input/event4'' \<lparr>history = []\<rparr> =
    (Ret sample_device, \<lparr>history = [(Open ''/dev/input/event4'', None), (GotFd 4, None),
      (Query 4 EVIOCGNAME, None), (Query 4 EVIOCGID, None), (Query 4 (EVIOCGBIT 0 4), None)]\<rparr>)"
    by (subst sample_opens) (simp_all add: legacy_os_def cat_os_def sample_os_def)
  have w: "writes_ok (legacy_os Big) 1"
    by (simp add: writes_ok_def legacy_os_def cat_os_def sample_os_def quiet_os_def)
  have acc: "accepting quiet_os 3" by (simp add: accepting_def quiet_os_def)
  have out: "wrote 1 (history (snd (cmd_cat (legacy_os Big) linux_uapi Big 0 2 [(opt CHR ''l'', [])]
      [''/dev/input/event4''] \<lparr>history = []\<rparr>))) = wrote 1 (history \<lparr>history = [(Open ''/dev/input/event4'', None),
      (GotFd 4, None), (Query 4 EVIOCGNAME, None), (Query 4 EVIOCGID, None), (Query 4 (EVIOCGBIT 0 4), None)]\<rparr>) @
      rdata ?t" and t: "rend ?t = 0"
    using cat_legacy_output [OF dev w legacy_os_device, of 2 0] by (simp_all add: sample_cstate_def)
  show ?thesis
    by (rule legacy_cat_into_create [OF dev w legacy_os_device _ _ acc legacy_os_ok out t, THEN conjunct1])
      simp_all
qed

text \<open>
  The receiver stops before the last code of each type. Of these \<open>SW_MAX\<close> is a code in use
  (\<open>SW_MACHINE_COVER\<close>): a device that has it arrives without it.
\<close>

theorem legacy_last_code_lost:
  assumes "(code, mx, kind) \<in> set (ne1_entries u)"
  shows "Ioctl fd (UI_SET_BIT code mx) \<notin> set (legacy_calls us fd u d entries axis)"
  using assms
  by (auto simp: legacy_calls_def ne1_code_calls_def ne1_codes_def axis_call_def ne1_entries_def split: if_splits)

end
