(* ===== verification/Cmdline.thy ===== *)
theory Cmdline
  imports CString
begin

text \<open>
  The command language of the daemon (\<^verbatim>\<open>daemon.cpp\<close>): \<open>parseClientCommand\<close> splits
  a text into commands at semicolons and a command into words, with backslashes and quoted
  strings; \<open>sourceCommandFile\<close> takes the lines of a file. Executing the commands is in the
  theory of the daemon; which commands there are does not depend on it.

  A text is the content of its buffer; a NUL in it ends it early.
\<close>

definition isWhite :: "char \<Rightarrow> bool" where
  "isWhite c \<longleftrightarrow> c = CHR '' '' \<or> c = TAB \<or> c = CR \<or> c = NL"

definition skipWhite :: "string \<Rightarrow> string" where
  "skipWhite s = dropWhile isWhite s"

text \<open>The characters of an escape sequence in a quoted string.\<close>

definition unescape :: "char \<Rightarrow> string" where
  "unescape c =
     (if c = BACKSLASH then [BACKSLASH]
      else if c = CHR ''t'' then [TAB]
      else if c = CHR ''r'' then [CR]
      else if c = CHR ''n'' then [NL]
      else if c = CHR ''f'' then [CHR 0x0C]
      else if c = CHR ''v'' then [CHR 0x0B]
      else if c = CHR ''b'' then [CHR 0x08]
      else if c = CHR 0x22 then [CHR 0x22]
      else if c = CHR 0x27 then [CHR 0x27]
      else if c = CHR ''0'' then [NUL]
      else [BACKSLASH, c])"

fun string_loop :: "char \<Rightarrow> bool \<Rightarrow> string \<Rightarrow> string \<times> string" where
  "string_loop quote escape [] = ([], [])"
| "string_loop quote escape (c # s) =
     (if c = NUL then ([], c # s)
      else if c = quote then ([], s)
      else if escape then (case string_loop quote False s of (a, r) \<Rightarrow> (unescape c @ a, r))
      else if c = BACKSLASH then string_loop quote True s
      else (case string_loop quote False s of (a, r) \<Rightarrow> (c # a, r)))"

text \<open>\<open>parseString\<close> at a quote: the string and what follows it.\<close>

definition parseString :: "string \<Rightarrow> string \<times> string" where
  "parseString s = string_loop (deref s) False (tl s)"

text \<open>The \<open>do ... while\<close> loop over a word, from its test on.\<close>

fun word_loop :: "bool \<Rightarrow> string \<Rightarrow> string \<times> string" where
  "word_loop escape [] = ([], [])"
| "word_loop escape (c # s) =
     (if c = NUL \<or> isWhite c \<or> (\<not> escape \<and> c = CHR '';'') then ([], c # s)
      else if \<not> escape \<and> c = BACKSLASH then word_loop True s
      else (case word_loop False s of (a, r) \<Rightarrow> (c # a, r)))"

text \<open>The body comes first: the first character is part of the word whatever it is.\<close>

definition parseWord :: "string \<Rightarrow> string \<times> string" where
  "parseWord s =
     (if deref s = BACKSLASH then word_loop True (tl s)
      else (case word_loop False (tl s) of (a, r) \<Rightarrow> (deref s # a, r)))"

lemma length_string_loop: "length (snd (string_loop q e s)) \<le> length s"
  by (induction q e s rule: string_loop.induct)
    (auto split: prod.splits, (metis le_SucI nat_le_linear)+)

lemma length_word_loop: "length (snd (word_loop e s)) \<le> length s"
  by (induction e s rule: word_loop.induct) (auto split: prod.splits)

lemma length_skipWhite: "length (skipWhite s) \<le> length s"
  by (simp add: skipWhite_def length_dropWhile_le)

lemma skipWhite_shorter:
  assumes "cmd \<noteq> []" and "deref (skipWhite cmd) \<noteq> NUL"
  shows "length (tl (skipWhite cmd)) < length cmd" "length (skipWhite cmd) - Suc 0 < length cmd"
proof -
  from assms(2) have "skipWhite cmd \<noteq> []" by auto
  then have "0 < length (skipWhite cmd)" by simp
  with length_skipWhite [of cmd] show "length (skipWhite cmd) - Suc 0 < length cmd"
    by (simp del: length_greater_0_conv)
  then show "length (tl (skipWhite cmd)) < length cmd" by simp
qed

lemma parseString_shorter:
  assumes "cmd \<noteq> []" and "deref (skipWhite cmd) \<noteq> NUL" and "(a, r) = parseString (skipWhite cmd)"
  shows "length r < length cmd"
proof -
  have "length r \<le> length (tl (skipWhite cmd))"
    using assms(3) length_string_loop [of "deref (skipWhite cmd)" False "tl (skipWhite cmd)"]
    by (metis parseString_def snd_conv)
  with skipWhite_shorter(1) [OF assms(1,2)] show ?thesis by simp
qed

lemma parseWord_shorter:
  assumes "cmd \<noteq> []" and "deref (skipWhite cmd) \<noteq> NUL" and "(a, r) = parseWord (skipWhite cmd)"
  shows "length r < length cmd"
proof -
  have "length r \<le> length (tl (skipWhite cmd))"
    using assms(3) length_word_loop [of True "tl (skipWhite cmd)"] length_word_loop [of False "tl (skipWhite cmd)"]
    by (cases "deref (skipWhite cmd) = BACKSLASH"; cases "word_loop True (tl (skipWhite cmd))";
        cases "word_loop False (tl (skipWhite cmd))") (simp_all add: parseWord_def)
  with skipWhite_shorter(1) [OF assms(1,2)] show ?thesis by simp
qed

definition isQuote :: "char \<Rightarrow> bool" where
  "isQuote c \<longleftrightarrow> c = CHR 0x22 \<or> c = CHR 0x27"

text \<open>
  The loop of \<open>parseClientCommand\<close>: the commands in the order they are executed. The flag
  of a command says whether the text is read again after it has been executed.
\<close>

function split_loop :: "bool \<Rightarrow> string list \<Rightarrow> string \<Rightarrow> (string list \<times> bool) list" where
  "split_loop escape args cmd =
     (let s = skipWhite cmd; last = (if args \<noteq> [] then [(args, False)] else []) in
      if cmd = [] then last
      else if deref s = NUL then last
      else if \<not> escape \<and> deref s = BACKSLASH then split_loop True args (tl s)
      else if \<not> escape \<and> deref s = CHR '';'' then
        (if args \<noteq> [] then [(args, tl s \<noteq> [])] else []) @ split_loop False [] (tl s)
      else if \<not> escape \<and> isQuote (deref s) then
        (case parseString s of (a, r) \<Rightarrow> split_loop False (args @ [a]) r)
      else (case parseWord s of (a, r) \<Rightarrow> split_loop False (args @ [a]) r))"
  by pat_completeness auto
termination
  by (relation "measure (\<lambda>(escape, args, cmd). length cmd)")
    (auto intro: skipWhite_shorter parseString_shorter parseWord_shorter)

declare split_loop.simps [simp del]

definition split_commands :: "string \<Rightarrow> (string list \<times> bool) list" where
  "split_commands s =
     (if s = [] then []
      else if deref (skipWhite s) = NUL then []
      else split_loop False [] (skipWhite s))"

section \<open>Command files\<close>

definition isspace :: "char \<Rightarrow> bool" where
  "isspace c \<longleftrightarrow> isWhite c \<or> c = CHR 0x0B \<or> c = CHR 0x0C"

text \<open>
  What \<open>sourceCommandFile\<close> makes of a line: its last character is dropped, white space in
  front is skipped, and blank lines and comments are ignored.
\<close>

definition source_line :: "string \<Rightarrow> string option" where
  "source_line line =
     (if line = [] then None
      else let p = dropWhile isspace (butlast line) in
        if deref p = NUL \<or> deref p = CHR ''#'' then None else Some p)"

section \<open>Writing commands\<close>

text \<open>
  How to write a word so that it is read back: in double quotes if it has none, else in
  single quotes if it has none, else bare with backslashes (if it has no white space).
\<close>

fun quote_body :: "string \<Rightarrow> string" where
  "quote_body [] = []"
| "quote_body (c # s) = (if c = BACKSLASH then BACKSLASH # BACKSLASH # quote_body s else c # quote_body s)"

definition special :: "char \<Rightarrow> bool" where
  "special c \<longleftrightarrow> c = BACKSLASH \<or> c = CHR '';''"

fun bare_body :: "string \<Rightarrow> string" where
  "bare_body [] = []"
| "bare_body (c # s) = (if special c then BACKSLASH # c # bare_body s else c # bare_body s)"

definition bare_word :: "string \<Rightarrow> string" where
  "bare_word s = BACKSLASH #
     (if deref s = BACKSLASH then BACKSLASH # BACKSLASH # bare_body (tl s)
      else deref s # bare_body (tl s))"

definition quote_word :: "string \<Rightarrow> string" where
  "quote_word s =
     (if CHR 0x22 \<notin> set s then CHR 0x22 # quote_body s @ [CHR 0x22]
      else if CHR 0x27 \<notin> set s then CHR 0x27 # quote_body s @ [CHR 0x27]
      else bare_word s)"

definition writable :: "string \<Rightarrow> bool" where
  "writable s \<longleftrightarrow> NUL \<notin> set s \<and>
     (CHR 0x22 \<notin> set s \<or> CHR 0x27 \<notin> set s \<or> (\<forall>c\<in>set s. \<not> isWhite c))"

fun write_words :: "string list \<Rightarrow> string" where
  "write_words [] = []"
| "write_words (w # ws) = CHR '' '' # quote_word w @ write_words ws"

fun write_commands :: "string list list \<Rightarrow> string" where
  "write_commands [] = []"
| "write_commands (c # cs) = write_words c @ CHR '';'' # write_commands cs"

lemma string_loop_quote_body:
  "NUL \<notin> set s \<Longrightarrow> q \<notin> set s \<Longrightarrow> q \<noteq> NUL \<Longrightarrow> q \<noteq> BACKSLASH \<Longrightarrow>
   string_loop q False (quote_body s @ q # r) = (s, r)"
  by (induction s) (auto simp: unescape_def)

lemma word_loop_bare_body:
  assumes "\<forall>c\<in>set s. c \<noteq> NUL \<and> \<not> isWhite c" and "r = [] \<or> isWhite (hd r) \<or> hd r = CHR '';''"
  shows "word_loop False (bare_body s @ r) = (s, r)"
  using assms(1)
proof (induction s)
  case Nil
  with assms(2) show ?case by (cases r) auto
next
  case (Cons c s)
  have "\<not> isWhite BACKSLASH" "\<not> isWhite CHR '';''" by (simp_all add: isWhite_def)
  with Cons show ?case by (auto simp: special_def)
qed

lemma split_quoted:
  assumes "NUL \<notin> set w" and "q \<notin> set w" and "isQuote q"
  shows "split_loop False args (CHR '' '' # q # quote_body w @ q # r) = split_loop False (args @ [w]) r"
proof -
  from assms(3) have q: "q \<noteq> NUL" "q \<noteq> BACKSLASH" "q \<noteq> CHR '';''" "\<not> isWhite q"
    by (auto simp: isQuote_def isWhite_def)
  then have skip: "skipWhite (CHR '' '' # q # quote_body w @ q # r) = q # quote_body w @ q # r"
    by (simp add: skipWhite_def isWhite_def)
  show ?thesis
    by (subst split_loop.simps) (simp add: skip q assms parseString_def string_loop_quote_body)
qed

lemma split_escaped:
  "skipWhite s = s \<Longrightarrow> deref s \<noteq> NUL \<Longrightarrow>
   split_loop True args s = (case parseWord s of (a, r) \<Rightarrow> split_loop False (args @ [a]) r)"
  by (subst split_loop.simps) auto

lemma split_bare:
  assumes w: "w \<noteq> []" "\<forall>c\<in>set w. c \<noteq> NUL \<and> \<not> isWhite c"
    and r: "r = [] \<or> isWhite (hd r) \<or> hd r = CHR '';''"
  shows "split_loop False args (CHR '' '' # bare_word w @ r) = split_loop False (args @ [w]) r"
proof -
  obtain c v where cv: "w = c # v" using w(1) by (cases w) auto
  with w have c: "c \<noteq> NUL" "\<not> isWhite c" and v: "\<forall>c\<in>set v. c \<noteq> NUL \<and> \<not> isWhite c" by auto
  have bs: "\<not> isWhite BACKSLASH" by (simp add: isWhite_def)
  let ?t = "if c = BACKSLASH then BACKSLASH # BACKSLASH # bare_body v @ r else c # bare_body v @ r"
  have "skipWhite (CHR '' '' # bare_word w @ r) = BACKSLASH # ?t"
    by (simp add: skipWhite_def bare_word_def cv isWhite_def)
  then have "split_loop False args (CHR '' '' # bare_word w @ r) = split_loop True args ?t"
    by (subst split_loop.simps) (simp del: bare_body.simps)
  moreover have "skipWhite ?t = ?t" using c bs by (simp add: skipWhite_def)
  moreover have "parseWord ?t = (w, r)"
    using c bs word_loop_bare_body [OF v r] by (simp add: parseWord_def cv)
  moreover have "split_loop True args ?t = (case parseWord ?t of (a, x) \<Rightarrow> split_loop False (args @ [a]) x)"
    using c by (intro split_escaped [OF \<open>skipWhite ?t = ?t\<close>]) simp
  ultimately show ?thesis by simp
qed

lemma split_word:
  assumes "writable w" and "r = [] \<or> isWhite (hd r) \<or> hd r = CHR '';''"
  shows "split_loop False args (CHR '' '' # quote_word w @ r) = split_loop False (args @ [w]) r"
proof -
  have q: "isQuote CHR 0x22" "isQuote CHR 0x27" by (simp_all add: isQuote_def)
  consider "CHR 0x22 \<notin> set w" | "CHR 0x22 \<in> set w" "CHR 0x27 \<notin> set w"
    | "CHR 0x22 \<in> set w" "CHR 0x27 \<in> set w" by blast
  then show ?thesis
  proof cases
    case 1
    then show ?thesis using split_quoted [of w "CHR 0x22"] assms(1) q
      by (simp add: quote_word_def writable_def)
  next
    case 2
    then show ?thesis using split_quoted [of w "CHR 0x27"] assms(1) q
      by (simp add: quote_word_def writable_def)
  next
    case 3
    then have "w \<noteq> []" "\<forall>c\<in>set w. c \<noteq> NUL \<and> \<not> isWhite c" using assms(1) by (auto simp: writable_def)
    from split_bare [OF this assms(2)] 3 show ?thesis by (simp add: quote_word_def)
  qed
qed

lemma split_words:
  "(\<forall>w\<in>set ws. writable w) \<Longrightarrow>
   split_loop False args (write_words ws @ CHR '';'' # r) = split_loop False (args @ ws) (CHR '';'' # r)"
proof (induction ws arbitrary: args)
  case (Cons w ws)
  have "write_words ws @ CHR '';'' # r = [] \<or> isWhite (hd (write_words ws @ CHR '';'' # r)) \<or>
      hd (write_words ws @ CHR '';'' # r) = CHR '';''"
    by (cases ws) (simp_all add: isWhite_def)
  from split_word [OF _ this, of w args] Cons show ?case by simp
qed simp

lemma split_written:
  "(\<forall>c\<in>set cs. c \<noteq> [] \<and> (\<forall>w\<in>set c. writable w)) \<Longrightarrow>
   map fst (split_loop False [] (write_commands cs)) = cs"
proof (induction cs)
  case Nil
  then show ?case by (simp add: split_loop.simps)
next
  case (Cons c cs)
  have "split_loop False c (CHR '';'' # write_commands cs) =
      (c, write_commands cs \<noteq> []) # split_loop False [] (write_commands cs)"
    using Cons.prems by (subst split_loop.simps) (simp add: skipWhite_def isWhite_def)
  with split_words [of c "[]"] Cons show ?case by simp
qed

lemma split_commands_loop: "split_commands s = split_loop False [] s"
proof (cases "s = [] \<or> deref (skipWhite s) = NUL")
  case True
  then show ?thesis by (subst split_loop.simps) (auto simp: split_commands_def)
next
  case False
  then have ne: "skipWhite s \<noteq> []" by auto
  have "skipWhite (skipWhite s) = skipWhite s" by (simp add: skipWhite_def)
  then have "split_loop False [] (skipWhite s) = split_loop False [] s"
    using False ne
    by (subst split_loop.simps [of _ _ s], subst split_loop.simps [of _ _ "skipWhite s"]) simp
  with False show ?thesis by (simp add: split_commands_def)
qed

text \<open>
  C23. The command language can express every list of commands that are not empty and whose
  words have no NUL and do not contain white space together with both kinds of quotes: written
  with the quoting rules above and separated by semicolons, they are split into exactly those
  commands and words, in order.
\<close>

theorem split_commands_written:
  assumes "\<forall>c\<in>set cs. c \<noteq> [] \<and> (\<forall>w\<in>set c. writable w)"
  shows "map fst (split_commands (write_commands cs)) = cs"
  unfolding split_commands_loop by (rule split_written [OF assms])

theorem split_commands_written_witness:
  "map fst (split_commands (write_commands
      [[''hotkey'', ''add'', ''my kbd'', [CHR 0x22, CHR '';'']], [''quit'']])) =
    [[''hotkey'', ''add'', ''my kbd'', [CHR 0x22, CHR '';'']], [''quit'']]"
  by (rule split_commands_written) (simp add: writable_def isWhite_def)

text \<open>
  The example of the README: the escaped semicolon is part of the word, so a hotkey can run
  two commands.
\<close>

lemma readme_hotkey:
  "split_commands (''hotkey add mykbd key:189:1 grab-devices toggle'' @ [BACKSLASH] @
     ''; write-events toggle'') =
   [([''hotkey'', ''add'', ''mykbd'', ''key:189:1'', ''grab-devices'', ''toggle;'',
      ''write-events'', ''toggle''], False)]"
  by code_simp

text \<open>
  A quoted string cannot contain its own quote: the list of escape sequences has both
  quotes, but the loop ends at the quote before it looks at the backslash in front of it.
  What it returns is free of the quote, whatever the text.
\<close>

theorem quoted_string_without_quote:
  assumes "isQuote q"
  shows "q \<notin> set (fst (parseString (q # s)))"
proof -
  have "\<not> isQuote BACKSLASH" "\<not> isQuote TAB" "\<not> isQuote CR" "\<not> isQuote NL" "\<not> isQuote NUL"
    "\<not> isQuote CHR 0x0C" "\<not> isQuote CHR 0x0B" "\<not> isQuote CHR 0x08"
    by (simp_all add: isQuote_def)
  with assms have un: "c \<noteq> q \<Longrightarrow> q \<notin> set (unescape c)" for c
    by (auto simp: unescape_def)
  have "q \<notin> set (fst (string_loop q e s))" for e
  proof (induction s arbitrary: e)
    case (Cons c s)
    then show ?case by (auto simp: un split: prod.splits) (metis fst_conv)+
  qed simp
  then show ?thesis by (simp add: parseString_def)
qed

theorem quoted_string_without_quote_witness:
  "isQuote CHR 0x22 \<and>
   CHR 0x22 \<notin> set (fst (parseString (CHR 0x22 # ''say '' @ [BACKSLASH, CHR 0x22] @ ''hi'')))"
  using quoted_string_without_quote [of "CHR 0x22"] by (simp add: isQuote_def)

end
