(* ===== verification/Daemon.thy ===== *)
theory Daemon
  imports Commands Cmdline StdMap
begin

text \<open>
  The state of the daemon (\<^verbatim>\<open>daemon.cpp\<close>) and the operations on it below the command
  language: the file descriptors and their callbacks, the queues, the inputs and outputs,
  hotkeys and event commands, and what happens when a device can be read.

  The globals of the file are the fields of \<open>dstate\<close>, under their names. A callback is a
  constructor with what its lambda captures. A pointer to an \<open>InDevice\<close> is a number that is
  never used again; using one whose object is gone is undefined behaviour. The text of an
  event command has a stamp that changes when the string is replaced.

  An event command runs commands of the language, which can fire events. The operations
  that fire events therefore take \<open>run\<close>, which stands for \<open>parseClientCommand\<close>; its first
  argument tells whether the text it reads is still alive.
\<close>

section \<open>State\<close>

datatype HotkeyDef = HotkeyDef (hk_device: "16 word") (hk_type: "16 word") (hk_code: "16 word")
  (hk_value: "32 word")

definition hotkey_less :: "HotkeyDef \<Rightarrow> HotkeyDef \<Rightarrow> bool" where
  "hotkey_less l r \<longleftrightarrow>
     hk_device l < hk_device r \<or> (hk_device l = hk_device r \<and>
      (hk_type l < hk_type r \<or> (hk_type l = hk_type r \<and>
       (hk_code l < hk_code r \<or> (hk_code l = hk_code r \<and>
        hk_value l <s hk_value r)))))"

lemma sint_total: "sint x < sint y \<or> x = y \<or> sint y < sint x" for x y :: "32 word"
  by (meson linorder_less_linear signed_word_eqI)

instantiation HotkeyDef :: linorder
begin

definition less_HotkeyDef :: "HotkeyDef \<Rightarrow> HotkeyDef \<Rightarrow> bool" where
  "less_HotkeyDef = hotkey_less"

definition less_eq_HotkeyDef :: "HotkeyDef \<Rightarrow> HotkeyDef \<Rightarrow> bool" where
  "less_eq_HotkeyDef l r \<longleftrightarrow> l = r \<or> hotkey_less l r"

instance
proof
  fix x y z :: HotkeyDef
  have irrefl: "\<not> hotkey_less x x" by (simp add: hotkey_less_def)
  have trans: "hotkey_less x y \<Longrightarrow> hotkey_less y z \<Longrightarrow> hotkey_less x z" for x y z
    by (auto simp: hotkey_less_def word_sless_alt)
  show "x < y \<longleftrightarrow> x \<le> y \<and> \<not> y \<le> x"
    using trans [of x y x] by (auto simp: less_HotkeyDef_def less_eq_HotkeyDef_def irrefl)
  show "x \<le> x" by (simp add: less_eq_HotkeyDef_def)
  show "x \<le> y \<Longrightarrow> y \<le> z \<Longrightarrow> x \<le> z" using trans by (auto simp: less_eq_HotkeyDef_def)
  show "x \<le> y \<Longrightarrow> y \<le> x \<Longrightarrow> x = y"
    using trans [of x y x] by (auto simp: less_eq_HotkeyDef_def irrefl)
  show "x \<le> y \<or> y \<le> x"
    using sint_total [of "hk_value x" "hk_value y"]
    by (cases x; cases y) (auto simp: less_eq_HotkeyDef_def hotkey_less_def word_sless_alt)
qed

end

record Input =
  inp_id :: "16 word"
  inp_ptr :: nat
  device :: InDevice

datatype FDCallbacks = CbServer | CbClient | CbDevice nat "16 word" | CbOutput

record dstate = world +
  gQuit :: bool
  gFDRemoveQueue :: "int list"
  gFDAddQueue :: "int list"
  gFDCBs :: "(int, FDCallbacks) std_map"
  gCommandClients :: "(int, int) std_map"
  gCommandQueue :: "(int \<times> string) list"
  gInputIDFreeList :: "16 word list"
  gInputs :: "(string, Input) std_map"
  gOutputs :: "(string, int) std_map"
  gCurrentOutput_fd :: int
  gCurrentOutput_name :: string
  gWrite :: bool
  gGrab :: bool
  gHotkeys :: "(HotkeyDef, string) std_map"
  gEventCommands :: "(string, string \<times> nat) std_map"
  next_ptr :: nat
  gServer :: Socket
  pfds :: "int list"

type_synonym 'a dprog = "(dstate, 'a) prog"

type_synonym runner = "(dstate \<Rightarrow> bool) \<Rightarrow> int \<Rightarrow> string \<Rightarrow> unit dprog"

section \<open>File descriptors and clients\<close>

definition removeFD :: "int \<Rightarrow> unit dprog" where
  "removeFD fd =
     (if fd < 0 then ret ()
      else modifyP (\<lambda>s. if fd \<in> set (gFDRemoveQueue s) then s
             else s\<lparr>gFDRemoveQueue := gFDRemoveQueue s @ [fd]\<rparr>))"

definition addFD :: "int \<Rightarrow> unit dprog" where
  "addFD fd = modifyP (\<lambda>s. s\<lparr>gFDAddQueue := gFDAddQueue s @ [fd]\<rparr>)"

definition set_callbacks :: "int \<Rightarrow> FDCallbacks \<Rightarrow> unit dprog" where
  "set_callbacks fd cb = modifyP (\<lambda>s. s\<lparr>gFDCBs := map_set fd cb (gFDCBs s)\<rparr>)"

definition removeOutput :: "string \<Rightarrow> unit dprog" where
  "removeOutput name =
     bindP (getP (\<lambda>s. map_find name (gOutputs s))) (\<lambda>r. case r of
       None \<Rightarrow> throw_msg (''no such output: '' @ cstr name)
     | Some fd \<Rightarrow> removeFD fd)"

text \<open>\<open>writeToOutput\<close>, whose result no caller uses.\<close>

definition writeToOutput :: "os \<Rightarrow> int \<Rightarrow> byte list \<Rightarrow> unit dprog" where
  "writeToOutput os fd bs =
     bindP (do_call os (Write fd bs)) (\<lambda>r. case r of
       None \<Rightarrow> ret ()
     | Some err \<Rightarrow>
         thenP (do_ignore os (Stderr (''error writing to output, dropping'' @ [NL]))) (removeFD fd))"

definition disconnectClient :: "int \<Rightarrow> unit dprog" where
  "disconnectClient fd = removeFD fd"

definition finishClientRemoval :: "os \<Rightarrow> int \<Rightarrow> unit dprog" where
  "finishClientRemoval os fd =
     bindP (getP (\<lambda>s. map_find fd (gCommandClients s))) (\<lambda>r. case r of
       None \<Rightarrow> raise (Exception ''finishClientRemoval: failed to find fd'')
     | Some file \<Rightarrow>
         thenP (modifyP (\<lambda>s. s\<lparr>gCommandClients := map_erase fd (gCommandClients s)\<rparr>))
           (do_ignore os (Close file)))"

definition queueCommand :: "int \<Rightarrow> string \<Rightarrow> unit dprog" where
  "queueCommand clientfd line =
     modifyP (\<lambda>s. s\<lparr>gCommandQueue := gCommandQueue s @ [(clientfd, line)]\<rparr>)"

definition readCommand :: "os \<Rightarrow> int \<Rightarrow> unit dprog" where
  "readCommand os fd =
     bindP (do_line os (GetLine fd)) (\<lambda>r. case r of
       Inl err \<Rightarrow>
         thenP (whenP (err \<noteq> 0) (do_ignore os
             (Stderr (''error reading from command client: '' @ os_strerror os err @ [NL]))))
           (disconnectClient fd)
     | Inr line \<Rightarrow> if line = [] then disconnectClient fd else queueCommand fd (cstr line))"

text \<open>The accepted descriptor belongs to an \<open>IOHandle\<close> until the \<open>FILE\<close> owns it.\<close>

definition newCommandClient :: "os \<Rightarrow> unit dprog" where
  "newCommandClient os =
     bindP (with_obj gServer (\<lambda>so s. s\<lparr>gServer := so\<rparr>) (Socket_accept os)) (\<lambda>fd.
     bindP (do_call os (Fcntl fd ''fdopen'')) (\<lambda>r. case r of
       Some err \<Rightarrow> thenP (do_ignore os (Close fd)) (throw_errno (os_strerror os) ''fdopen() failed'' err)
     | None \<Rightarrow>
         thenP (addFD fd)
         (thenP (set_callbacks fd CbClient)
         (bindP (getP (\<lambda>s. map_find fd (gCommandClients s))) (\<lambda>r. case r of
            Some _ \<Rightarrow> do_ignore os (Close fd)
          | None \<Rightarrow> modifyP (\<lambda>s. s\<lparr>gCommandClients := map_set fd fd (gCommandClients s)\<rparr>))))))"

text \<open>
  \<open>toClient\<close>: the text is formatted into 4096 bytes, but as many bytes are written as the
  whole text has; more than the buffer has is undefined.
\<close>

definition toClient :: "os \<Rightarrow> int \<Rightarrow> string \<Rightarrow> unit dprog" where
  "toClient os fd text =
     thenP (whenP (text = [])
       (bindP (getP (\<lambda>s. last_errno (history s))) (\<lambda>err.
        thenP (do_ignore os (Stderr (''faield to format client response: '' @ os_strerror os err @ [NL])))
          (disconnectClient fd))))
     (if length text > 4096 then undef
      else
        let buf = fst (vsnprintf 4096 text) @ [NUL] in
        if fd < 0 then do_ignore os (Stderr (take (length text) buf))
        else bindP (do_call os (Write fd (str_bytes (take (length text) buf)))) (\<lambda>r. case r of
               None \<Rightarrow> ret ()
             | Some err \<Rightarrow>
                 thenP (do_ignore os (Stderr (''failed to write response to client command'' @ [NL])))
                   (disconnectClient fd)))"

section \<open>Input ids and hotkeys\<close>

definition getNextInputID :: "16 word dprog" where
  "getNextInputID =
     bindP (getP (\<lambda>s. (length (gInputs s), gInputIDFreeList s))) (\<lambda>(n, free).
     if n > 65535
     then raise (Exception ''too many input devices (... the heck are you doing?)'')
     else if free = [] then ret (word_of_nat n)
     else thenP (modifyP (\<lambda>s. s\<lparr>gInputIDFreeList := butlast free\<rparr>)) (ret (last free)))"

definition freeInputID :: "16 word \<Rightarrow> unit dprog" where
  "freeInputID i = modifyP (\<lambda>s. s\<lparr>gInputIDFreeList := gInputIDFreeList s @ [i]\<rparr>)"

definition cleanupDeviceHotkeys :: "16 word \<Rightarrow> unit dprog" where
  "cleanupDeviceHotkeys i =
     modifyP (\<lambda>s. s\<lparr>gHotkeys := filter (\<lambda>(k, cmd). hk_device k \<noteq> i) (gHotkeys s)\<rparr>)"

text \<open>\<open>EV_CNT\<close> is 32.\<close>

definition tryHotkey :: "16 word \<Rightarrow> 16 word \<Rightarrow> 16 word \<Rightarrow> 32 word \<Rightarrow> bool dprog" where
  "tryHotkey dev type code v =
     (if unat type \<ge> EV_CNT then ret False
      else bindP (getP (\<lambda>s. map_find (HotkeyDef dev type code v) (gHotkeys s))) (\<lambda>r. case r of
        None \<Rightarrow> ret False
      | Some cmd \<Rightarrow> thenP (queueCommand (- 1) cmd) (ret True)))"

definition addHotkey :: "16 word \<Rightarrow> 16 word \<Rightarrow> 16 word \<Rightarrow> 32 word \<Rightarrow> string \<Rightarrow> unit dprog" where
  "addHotkey dev type code v cmd =
     (if unat type \<ge> EV_CNT then throw_msg (''unknown event type: '' @ show_nat (unat type))
      else modifyP (\<lambda>s. s\<lparr>gHotkeys := map_set (HotkeyDef dev type code v) cmd (gHotkeys s)\<rparr>))"

definition removeHotkey :: "16 word \<Rightarrow> 16 word \<Rightarrow> 16 word \<Rightarrow> 32 word \<Rightarrow> unit dprog" where
  "removeHotkey dev type code v =
     (if unat type \<ge> EV_CNT then throw_msg (''unknown event type: '' @ show_nat (unat type))
      else modifyP (\<lambda>s. s\<lparr>gHotkeys := map_erase (HotkeyDef dev type code v) (gHotkeys s)\<rparr>))"

section \<open>Events of the daemon\<close>

text \<open>The text stays alive as long as the entry it belongs to is not replaced or erased.\<close>

definition fireEvent :: "runner \<Rightarrow> int \<Rightarrow> string \<Rightarrow> unit dprog" where
  "fireEvent run clientfd event =
     bindP (getP (\<lambda>s. map_find event (gEventCommands s))) (\<lambda>r. case r of
       None \<Rightarrow> ret ()
     | Some (cmd, stamp) \<Rightarrow>
         run (\<lambda>s. map_find event (gEventCommands s) = Some (cmd, stamp)) clientfd cmd)"

definition setEnvVar :: "os \<Rightarrow> string \<Rightarrow> string \<Rightarrow> unit dprog" where
  "setEnvVar os name v =
     bindP (do_call os (SetEnv name (cstr v))) (\<lambda>r. case r of
       None \<Rightarrow> ret ()
     | Some err \<Rightarrow> do_ignore os (Stderr (''error setting environment variable '' @ name @ '' to '' @
           cstr v @ '': '' @ os_strerror os err @ [NL])))"

definition useOutput :: "os \<Rightarrow> runner \<Rightarrow> int \<Rightarrow> string \<Rightarrow> unit dprog" where
  "useOutput os run clientfd name =
     bindP (getP (\<lambda>s. map_find name (gOutputs s))) (\<lambda>r. case r of
       None \<Rightarrow> throw_msg (''no such output: '' @ cstr name)
     | Some fd \<Rightarrow>
         thenP (modifyP (\<lambda>s. s\<lparr>gCurrentOutput_fd := fd, gCurrentOutput_name := name\<rparr>))
         (thenP (setEnvVar os ''NETEVENT_OUTPUT_NAME'' name)
           (fireEvent run clientfd ''output-changed'')))"

definition writeEvents :: "os \<Rightarrow> runner \<Rightarrow> int \<Rightarrow> bool \<Rightarrow> unit dprog" where
  "writeEvents os run clientfd on =
     thenP (modifyP (\<lambda>s. s\<lparr>gWrite := on\<rparr>))
     (thenP (setEnvVar os ''NETEVENT_WRITING'' (if on then ''1'' else ''0''))
       (fireEvent run clientfd ''write-changed''))"

text \<open>A method of the device of an entry, which stays where it is.\<close>

definition set_device :: "string \<Rightarrow> InDevice \<Rightarrow> unit dprog" where
  "set_device name d = modifyP (\<lambda>s. case map_find name (gInputs s) of
     None \<Rightarrow> s
   | Some i \<Rightarrow> s\<lparr>gInputs := map_set name (i\<lparr>device := d\<rparr>) (gInputs s)\<rparr>)"

definition grab_all :: "os \<Rightarrow> bool \<Rightarrow> unit dprog" where
  "grab_all os on =
     bindP (getP gInputs) (\<lambda>ins.
     forP (\<lambda>(name, i). bindP (InDevice_grab os on (device i)) (set_device name)) ins)"

definition grab :: "os \<Rightarrow> runner \<Rightarrow> int \<Rightarrow> bool \<Rightarrow> unit dprog" where
  "grab os run clientfd on =
     thenP (modifyP (\<lambda>s. s\<lparr>gGrab := on\<rparr>))
     (thenP (setEnvVar os ''NETEVENT_GRABBING'' (if on then ''1'' else ''0''))
     (thenP (grab_all os on)
       (fireEvent run clientfd ''grab-changed'')))"

definition lostCurrentOutput :: "os \<Rightarrow> runner \<Rightarrow> unit dprog" where
  "lostCurrentOutput os run =
     thenP (modifyP (\<lambda>s. s\<lparr>gCurrentOutput_fd := - 1, gCurrentOutput_name := ''<none>''\<rparr>))
     (thenP (bindP (getP gWrite) (\<lambda>w. whenP w (writeEvents os run (- 1) False)))
       (bindP (getP gGrab) (\<lambda>g. whenP g (grab os run (- 1) False))))"

section \<open>Reading a device\<close>

text \<open>The entry a pointer leads to.\<close>

definition input_at :: "nat \<Rightarrow> dstate \<Rightarrow> (string \<times> Input) option" where
  "input_at p s = List.find (\<lambda>(name, i). inp_ptr i = p) (gInputs s)"

definition closeDevice :: "nat \<Rightarrow> unit dprog" where
  "closeDevice p =
     bindP (getP (input_at p)) (\<lambda>r. case r of
       None \<Rightarrow> undef
     | Some (name, i) \<Rightarrow> removeFD (in_fd (device i)))"

text \<open>The read of \<open>readFromDevice\<close>; \<open>None\<close> when the method returned \<open>false\<close>.\<close>

definition read_event :: "os \<Rightarrow> nat \<Rightarrow> InputEvent option dprog" where
  "read_event os p =
     bindP (getP (input_at p)) (\<lambda>r. case r of
       None \<Rightarrow> undef
     | Some (name, i) \<Rightarrow>
         bindP (InDevice_read os 0 (device i)) (\<lambda>(r, d).
         thenP (set_device name d)
           (case r of
              Inr (got, ev) \<Rightarrow> ret (if got then Some ev else None)
            | Inl (Some ex) \<Rightarrow> raise ex
            | Inl None \<Rightarrow> undef)))"

definition forward_event :: "os \<Rightarrow> endian \<Rightarrow> runner \<Rightarrow> 16 word \<Rightarrow> InputEvent \<Rightarrow> unit dprog" where
  "forward_event os e run dev ev =
     bindP (getP (\<lambda>s. (gCurrentOutput_fd s, gWrite s, gCurrentOutput_name s))) (\<lambda>(fd, w, name).
     if fd = - 1 then ret ()
     else if \<not> w then ret ()
     else bindP (mustWrite os fd (event_packet e dev ev)) (\<lambda>r. case r of
            None \<Rightarrow> ret ()
          | Some err \<Rightarrow>
              thenP (do_ignore os (Stderr (''error writing to output '' @ cstr name @ '': '' @
                  os_strerror os err @ [NL])))
              (thenP (removeFD fd) (lostCurrentOutput os run))))"

definition readFromDevice :: "os \<Rightarrow> endian \<Rightarrow> runner \<Rightarrow> nat \<Rightarrow> 16 word \<Rightarrow> unit dprog" where
  "readFromDevice os e run p dev =
     bindP (catchP
        (bindP (read_event os p) (\<lambda>r. case r of
           Some ev \<Rightarrow> ret (Some ev)
         | None \<Rightarrow> thenP (fireEvent run (- 1) ''device-lost'') (thenP (closeDevice p) (ret None))))
        (\<lambda>ex. thenP (do_ignore os (Stderr (''error reading device: '' @ what ex @ [NL])))
                (thenP (closeDevice p) (ret None)))) (\<lambda>r. case r of
       None \<Rightarrow> ret ()
     | Some ev \<Rightarrow>
         bindP (tryHotkey dev (ev_type ev) (ev_code ev) (ev_value ev)) (\<lambda>hot.
         if hot then ret () else forward_event os e run dev ev))"

section \<open>Announcing, adding and removing devices\<close>

definition remove_packet :: "endian \<Rightarrow> 16 word \<Rightarrow> byte list" where
  "remove_packet e dev =
     set16 e 2 (hton e 2 dev) (set16 e 0 (hton e 2 cmd_RemoveDevice) zero_packet)"

definition announceDeviceRemoval :: "os \<Rightarrow> endian \<Rightarrow> Input \<Rightarrow> unit dprog" where
  "announceDeviceRemoval os e i =
     bindP (getP gOutputs) (\<lambda>outs.
     forP (\<lambda>(name, fd). writeToOutput os fd (remove_packet e (inp_id i))) outs)"

definition announceDevice :: "os \<Rightarrow> uapi \<Rightarrow> endian \<Rightarrow> Input \<Rightarrow> int \<Rightarrow> bool dprog" where
  "announceDevice os u e i fd =
     catchP (thenP (writeNE2AddDevice os u e (device i) fd (inp_id i)) (ret True))
       (\<lambda>ex. thenP (do_ignore os (Stderr (''error creating device on output, dropping: '' @ what ex @ [NL])))
               (thenP (removeFD fd) (ret False)))"

definition announceDevice_all :: "os \<Rightarrow> uapi \<Rightarrow> endian \<Rightarrow> Input \<Rightarrow> unit dprog" where
  "announceDevice_all os u e i =
     bindP (getP gOutputs) (\<lambda>outs.
     forP (\<lambda>(name, fd). bindP (announceDevice os u e i fd) (\<lambda>_. ret ())) outs)"

fun announce_until :: "os \<Rightarrow> uapi \<Rightarrow> endian \<Rightarrow> int \<Rightarrow> (string \<times> Input) list \<Rightarrow> unit dprog" where
  "announce_until os u e fd [] = ret ()"
| "announce_until os u e fd ((name, i) # ins) =
     bindP (announceDevice os u e i fd) (\<lambda>ok. if ok then announce_until os u e fd ins else ret ())"

definition announceAllDevices :: "os \<Rightarrow> uapi \<Rightarrow> endian \<Rightarrow> int \<Rightarrow> unit dprog" where
  "announceAllDevices os u e fd = bindP (getP gInputs) (announce_until os u e fd)"

definition addDevice :: "os \<Rightarrow> uapi \<Rightarrow> endian \<Rightarrow> string \<Rightarrow> string \<Rightarrow> unit dprog" where
  "addDevice os u e name path =
     bindP (getP (\<lambda>s. map_find name (gInputs s))) (\<lambda>r.
     if r \<noteq> None then throw_msg (''output already exists: '' @ cstr name)
     else
     bindP getNextInputID (\<lambda>i.
     catchP
       (bindP (InDevice_new os e (cstr path)) (\<lambda>d.
        bindP (getP next_ptr) (\<lambda>p.
        let inp = \<lparr>inp_id = i, inp_ptr = p, device = d\<rparr> in
        thenP (modifyP (\<lambda>s. s\<lparr>next_ptr := Suc p\<rparr>))
        (thenP (announceDevice_all os u e inp)
        (thenP (addFD (in_fd d))
        (thenP (set_callbacks (in_fd d) (CbDevice p i))
          (modifyP (\<lambda>s. s\<lparr>gInputs := map_emplace name inp (gInputs s)\<rparr>))))))))
       (\<lambda>ex. thenP (freeInputID i) (raise ex))))"

definition findDevice :: "string \<Rightarrow> Input dprog" where
  "findDevice name =
     bindP (getP (\<lambda>s. map_find name (gInputs s))) (\<lambda>r. case r of
       None \<Rightarrow> throw_msg (''no such device: '' @ cstr name)
     | Some i \<Rightarrow> ret i)"

definition removeDevice :: "string \<Rightarrow> unit dprog" where
  "removeDevice name = bindP (findDevice name) (\<lambda>i. removeFD (in_fd (device i)))"

definition finishDeviceRemoval :: "os \<Rightarrow> endian \<Rightarrow> nat \<Rightarrow> unit dprog" where
  "finishDeviceRemoval os e p =
     bindP (getP (input_at p)) (\<lambda>r. case r of
       None \<Rightarrow> raise (Exception ''finishDeviceRemoval: failed to find device'')
     | Some (name, i) \<Rightarrow>
         thenP (whenP (\<not> persistent (device i)) (announceDeviceRemoval os e i))
         (thenP (cleanupDeviceHotkeys (inp_id i))
         (thenP (modifyP (\<lambda>s. s\<lparr>gInputs := map_erase name (gInputs s)\<rparr>))
           (InDevice_delete os (device i)))))"

end
