(* ===== verification/DaemonCmd.thy ===== *)
theory DaemonCmd
  imports Daemon
begin

text \<open>
  The outputs of the daemon and its commands (\<^verbatim>\<open>daemon.cpp\<close>), from
  \<open>finishOutputRemoval\<close> to \<open>sourceCommandFile\<close>. \<open>parseClientCommand\<close>, \<open>clientCommand\<close>,
  \<open>fireEvent\<close> and \<open>sourceCommandFile\<close> call each other: the recursion takes fuel, one unit
  per nested text.

  A child process is one entry of the history, \<open>Exec\<close> with the shell command it runs; the
  model follows the parent.
\<close>

section \<open>Outputs\<close>

text \<open>The first output with the descriptor, in the order of the names.\<close>

definition output_with :: "int \<Rightarrow> dstate \<Rightarrow> string option" where
  "output_with fd s = map_option fst (List.find (\<lambda>(name, fd'). fd' = fd) (gOutputs s))"

definition finishOutputRemoval :: "os \<Rightarrow> runner \<Rightarrow> int \<Rightarrow> unit dprog" where
  "finishOutputRemoval os run fd =
     bindP (getP gCurrentOutput_fd) (\<lambda>cur.
     thenP (whenP (cur = fd) (lostCurrentOutput os run))
     (bindP (getP (output_with fd)) (\<lambda>r. case r of
        None \<Rightarrow> throw_msg ''finishOutputRemove: faile dot find fd''
      | Some name \<Rightarrow>
          thenP (modifyP (\<lambda>s. s\<lparr>gOutputs := map_erase name (gOutputs s)\<rparr>))
            (do_ignore os (Close fd)))))"

text \<open>The handle is closed if an exception is thrown before the output owns it.\<close>

definition addOutput_Finish ::
    "os \<Rightarrow> uapi \<Rightarrow> endian \<Rightarrow> string \<Rightarrow> int \<Rightarrow> bool \<Rightarrow> unit dprog" where
  "addOutput_Finish os u e name fd skip_announce =
     thenP (catchP
        (thenP (writeHello os e fd)
          (whenP (\<not> skip_announce) (announceAllDevices os u e fd)))
        (\<lambda>ex. thenP (do_ignore os (Close fd)) (raise ex)))
     (modifyP (\<lambda>s. s\<lparr>gOutputs := map_emplace name fd (gOutputs s),
                      gFDCBs := map_emplace fd CbOutput (gFDCBs s)\<rparr>))"

definition addOutput_Open :: "os \<Rightarrow> string \<Rightarrow> int dprog" where
  "addOutput_Open os path =
     bindP (do_open os (Open path)) (\<lambda>r. case r of
       Inl err \<Rightarrow> throw_errno (os_strerror os) (''open('' @ path @ '')'') err
     | Inr fd \<Rightarrow>
         bindP (do_call os (Fcntl fd ''F_GETFL'')) (\<lambda>r. case r of
           Some err \<Rightarrow> thenP (do_ignore os (Close fd))
             (throw_errno (os_strerror os) ''failed to get output flags'' err)
         | None \<Rightarrow>
             bindP (do_call os (Fcntl fd ''F_SETFL'')) (\<lambda>r. case r of
               Some err \<Rightarrow> thenP (do_ignore os (Close fd))
                 (throw_errno (os_strerror os) ''failed to remove O_NONBLOCK'' err)
             | None \<Rightarrow> ret fd)))"

definition addOutput_Exec :: "os \<Rightarrow> string \<Rightarrow> int dprog" where
  "addOutput_Exec os path =
     bindP (do_pipe os) (\<lambda>r. case r of
       Inl err \<Rightarrow> throw_errno (os_strerror os) ''pipe() failed'' err
     | Inr (pr, pw) \<Rightarrow>
         bindP (do_fork os) (\<lambda>r. case r of
           Inl err \<Rightarrow> thenP (do_ignore os (Close pw)) (thenP (do_ignore os (Close pr))
             (throw_errno (os_strerror os) ''fork() failed'' err))
         | Inr pid \<Rightarrow>
             thenP (do_ignore os (Exec path)) (thenP (do_ignore os (Close pr)) (ret pw))))"

text \<open>The destructor of the local \<open>Socket\<close> closes it when connecting throws.\<close>

definition addOutput_Unix :: "os \<Rightarrow> byte list \<Rightarrow> string \<Rightarrow> int dprog" where
  "addOutput_Unix os junk path =
     with_obj (\<lambda>_. Socket_new) (\<lambda>_ s. s)
       (finallyP (thenP (connect_to os junk path) Socket_release) (Socket_close os))"

definition addOutput_path :: "os \<Rightarrow> byte list \<Rightarrow> string \<Rightarrow> int dprog" where
  "addOutput_path os junk path =
     (if strneq 5 path ''exec:'' then addOutput_Exec os (drop 5 path)
      else if strneq 5 path ''unix:'' then addOutput_Unix os junk (drop 5 path)
      else addOutput_Open os path)"

definition addOutput_named ::
    "os \<Rightarrow> uapi \<Rightarrow> endian \<Rightarrow> byte list \<Rightarrow> string \<Rightarrow> string \<Rightarrow> bool \<Rightarrow> unit dprog" where
  "addOutput_named os u e junk name path skip_announce =
     bindP (getP (\<lambda>s. map_find name (gOutputs s))) (\<lambda>r.
     if r \<noteq> None then throw_msg (''output already exists: '' @ cstr name)
     else bindP (addOutput_path os junk path) (\<lambda>fd.
          addOutput_Finish os u e name fd skip_announce))"

definition addOutput :: "os \<Rightarrow> uapi \<Rightarrow> endian \<Rightarrow> byte list \<Rightarrow> int \<Rightarrow> string list \<Rightarrow> unit dprog" where
  "addOutput os u e junk clientfd args =
     (let skip_announce = (length args > 2 \<and> args ! 2 = ''--resume'');
          at = (if skip_announce then 3 else 2)
      in if at + 1 \<ge> length args
         then raise (Exception ([CHR 0x27] @ ''output add'' @ [CHR 0x27] @ '' requires a name and a path''))
         else
           let name = args ! at; cmd = join CHR '' '' (drop (at + 1) args) in
           thenP (addOutput_named os u e junk name (cstr cmd) skip_announce)
             (toClient os clientfd (''added output '' @ cstr name @ [NL])))"

section \<open>Switches\<close>

definition writeCommand :: "os \<Rightarrow> runner \<Rightarrow> int \<Rightarrow> string \<Rightarrow> unit dprog" where
  "writeCommand os run clientfd state =
     thenP (case parseBool state of
              Some b \<Rightarrow> modifyP (\<lambda>s. s\<lparr>gWrite := b\<rparr>)
            | None \<Rightarrow>
                if strcaseeq state ''toggle'' then modifyP (\<lambda>s. s\<lparr>gWrite := \<not> gWrite s\<rparr>)
                else throw_msg (''unknown write state: '' @ state))
     (bindP (getP gWrite) (writeEvents os run clientfd))"

definition grabCommand :: "os \<Rightarrow> runner \<Rightarrow> int \<Rightarrow> string \<Rightarrow> unit dprog" where
  "grabCommand os run clientfd state =
     thenP (case parseBool state of
              Some b \<Rightarrow> modifyP (\<lambda>s. s\<lparr>gGrab := b\<rparr>)
            | None \<Rightarrow>
                if strcaseeq state ''toggle'' then modifyP (\<lambda>s. s\<lparr>gGrab := \<not> gGrab s\<rparr>)
                else throw_msg (''unknown grab state: '' @ state))
     (bindP (getP gGrab) (grab os run clientfd))"

text \<open>
  The loop that waits for a foreground command: it goes on until \<open>waitpid\<close> returns the
  child; an error (\<open>EINTR\<close>, but also \<open>ECHILD\<close>) is one more round. \<open>n\<close> bounds the rounds.
\<close>

fun wait_for :: "os \<Rightarrow> int \<Rightarrow> nat \<Rightarrow> unit dprog" where
  "wait_for os pid 0 = nofuel"
| "wait_for os pid (Suc n) =
     bindP (do_call os (WaitPid pid)) (\<lambda>r. case r of None \<Rightarrow> ret () | Some err \<Rightarrow> wait_for os pid n)"

definition shellCommand :: "os \<Rightarrow> nat \<Rightarrow> string \<Rightarrow> bool \<Rightarrow> unit dprog" where
  "shellCommand os n cmd background =
     bindP (do_fork os) (\<lambda>r. case r of
       Inl err \<Rightarrow> throw_errno (os_strerror os) ''fork() failed'' err
     | Inr pid \<Rightarrow>
         thenP (do_ignore os (Exec cmd))
           (whenP (\<not> background) (wait_for os pid n)))"

section \<open>The commands\<close>

definition clientCommand_Device :: "os \<Rightarrow> uapi \<Rightarrow> endian \<Rightarrow> int \<Rightarrow> string list \<Rightarrow> unit dprog" where
  "clientCommand_Device os u e clientfd args =
     (if length args < 2 then raise (Exception (quoted ''device'' @ '': missing subcommand''))
      else if args ! 1 = ''add'' then
        (if length args \<noteq> 4
         then raise (Exception (quoted ''device add'' @ '' requires a name and a path''))
         else thenP (addDevice os u e (args ! 2) (args ! 3))
           (toClient os clientfd (''added device '' @ cstr (args ! 2) @ [NL])))
      else if args ! 1 = ''remove'' then
        (if length args \<noteq> 3
         then raise (Exception (quoted ''device remove'' @ '' requires a name''))
         else thenP (removeDevice (args ! 2))
           (toClient os clientfd (''removing device '' @ cstr (args ! 2) @ [NL])))
      else if args ! 1 = ''rename'' then
        (if length args \<noteq> 4
         then raise (Exception (quoted ''device rename'' @ '' requires a device and a name''))
         else bindP (findDevice (args ! 2)) (\<lambda>i. case setName (args ! 3) (device i) of
             Inl ex \<Rightarrow> raise ex
           | Inr d \<Rightarrow> thenP (set_device (args ! 2) d)
               (toClient os clientfd (''renamed device '' @ cstr (real_name d) @ '' to '' @
                  cstr (args ! 3) @ [NL]))))
      else if args ! 1 = ''reset-name'' then
        (if length args \<noteq> 3
         then raise (Exception (quoted ''device reset-name'' @ '' requires a device''))
         else bindP (findDevice (args ! 2)) (\<lambda>i. case resetName (device i) of
             Inl ex \<Rightarrow> raise ex
           | Inr d \<Rightarrow> thenP (set_device (args ! 2) d)
               (toClient os clientfd (''reset name of device '' @ cstr (real_name d) @ [NL]))))
      else if args ! 1 = ''set-persistent'' then
        (if length args \<noteq> 4
         then raise (Exception (quoted ''device set-persistent'' @ '' requires a device and a boolean''))
         else bindP (findDevice (args ! 2)) (\<lambda>i. case parseBool (args ! 3) of
             Some v \<Rightarrow> thenP (set_device (args ! 2) (set_persistent v (device i)))
               (toClient os clientfd (''device '' @ cstr (args ! 2) @
                  (if v then '' made persistent'' else '' made removable'') @ [NL]))
           | None \<Rightarrow> toClient os clientfd (''not a boolean: '' @ quoted (cstr (args ! 3)) @ [NL])))
      else throw_msg (''unknown device subcommand: '' @ cstr (args ! 1)))"

definition clientCommand_Output ::
    "os \<Rightarrow> uapi \<Rightarrow> endian \<Rightarrow> byte list \<Rightarrow> runner \<Rightarrow> int \<Rightarrow> string list \<Rightarrow> unit dprog" where
  "clientCommand_Output os u e junk run clientfd args =
     (if length args < 2 then raise (Exception (quoted ''output'' @ '': missing subcommand''))
      else if args ! 1 = ''add'' then addOutput os u e junk clientfd args
      else if args ! 1 = ''remove'' then
        (if length args \<noteq> 3
         then raise (Exception (quoted ''output remove'' @ '' requires a name''))
         else thenP (removeOutput (args ! 2))
           (toClient os clientfd (''removing output '' @ cstr (args ! 2) @ [NL])))
      else if args ! 1 = ''use'' then
        (if length args \<noteq> 3
         then raise (Exception (quoted ''output use'' @ '' requires a name''))
         else thenP (useOutput os run clientfd (args ! 2))
           (bindP (getP gCurrentOutput_name) (\<lambda>name.
            toClient os clientfd (''output = '' @ cstr name @ [NL]))))
      else throw_msg (''unknown output subcommand: '' @ cstr (args ! 1)))"

text \<open>
  The hotkey definition \<open>type:code:value\<close>, which \<open>hotkey add\<close> and \<open>hotkey remove\<close> parse in
  the same way. The conversions to the fields' types cut the numbers to 16 and 32 bits.
\<close>

definition find_colon :: "nat \<Rightarrow> string \<Rightarrow> nat option" where
  "find_colon start def =
     (let n = length (takeWhile (\<lambda>c. c \<noteq> CHR '':'') (drop start def))
      in if start + n < length def then Some (start + n) else None)"

definition parse_hotkey :: "string \<Rightarrow> (16 word \<times> 16 word \<times> int) dprog" where
  "parse_hotkey def =
     (let bad = throw_msg (''invalid hotkey definition: '' @ cstr def) in
      case find_colon 0 def of None \<Rightarrow> bad | Some dot1 \<Rightarrow>
      if dot1 \<ge> length def - 1 then bad else
      case find_colon (dot1 + 1) def of None \<Rightarrow> bad | Some dot2 \<Rightarrow>
      if dot2 \<ge> length def - 1 then bad else
      case String2EV def dot1 of
        Overflow \<Rightarrow> undef
      | Rejected \<Rightarrow> undef
      | Parsed type \<Rightarrow>
          if type = - 1 then throw_msg (''no such event type: '' @ cstr def)
          else if unat type > EV_MAX then throw_msg (''bad event type: '' @ show_nat (unat type))
          else
            case parseULong (drop (dot1 + 1) def) (word_of_nat (dot2 - dot1 - 1)) of
              Overflow \<Rightarrow> undef
            | Rejected \<Rightarrow> throw_msg (''bad event code: '' @ cstr (drop (dot1 + 1) def))
            | Parsed code \<Rightarrow>
                if unat code > 65535 then throw_msg (''bad event code: '' @ cstr (drop (dot1 + 1) def))
                else
                  case parseLong (drop (dot2 + 1) def) SIZE_MAX of
                    Overflow \<Rightarrow> undef
                  | Rejected \<Rightarrow> throw_msg (''bad event value: '' @ cstr (drop (dot2 + 1) def))
                  | Parsed v \<Rightarrow> ret (ucast type, ucast code, v))"

text \<open>\<open>%i\<close> prints the low 32 bits of the \<open>long\<close>.\<close>

definition hotkey_text :: "16 word \<Rightarrow> 16 word \<Rightarrow> int \<Rightarrow> 16 word \<Rightarrow> string" where
  "hotkey_text type code v dev =
     show_nat (unat type) @ '':'' @ show_nat (unat code) @ '':'' @
     show_int (sint (word_of_int v :: 32 word)) @ '' for device '' @ show_nat (unat dev) @ [NL]"

definition clientCommand_Hotkey :: "os \<Rightarrow> int \<Rightarrow> string list \<Rightarrow> unit dprog" where
  "clientCommand_Hotkey os clientfd args =
     (if length args < 2 then raise (Exception (quoted ''hotkey'' @ '': missing subcommand''))
      else if args ! 1 = ''add'' then
        (if length args < 5
         then raise (Exception (quoted ''hotkey add'' @ '' requires a device, a hotkey and a command''))
         else bindP (findDevice (args ! 2)) (\<lambda>i.
           bindP (parse_hotkey (args ! 3)) (\<lambda>(type, code, v).
           thenP (addHotkey (inp_id i) type code (word_of_int v)
                   (cstr (join CHR '' '' (drop 4 args))))
             (toClient os clientfd (''added hotkey '' @ hotkey_text type code v (inp_id i))))))
      else if args ! 1 = ''remove'' then
        (if length args \<noteq> 4
         then raise (Exception (quoted ''hotkey remove'' @ '': requires device and event code''))
         else bindP (findDevice (args ! 2)) (\<lambda>i.
           bindP (parse_hotkey (args ! 3)) (\<lambda>(type, code, v).
           thenP (removeHotkey (inp_id i) type code (word_of_int v))
             (toClient os clientfd (''removed hotkey '' @ hotkey_text type code v (inp_id i))))))
      else throw_msg (''unknown hotkey subcommand: '' @ cstr (args ! 1)))"

definition on_off :: "bool \<Rightarrow> string" where
  "on_off b = (if b then ''on'' else ''off'')"

definition info_lines :: "dstate \<Rightarrow> string list" where
  "info_lines s =
     [''Grab-devices: '' @ on_off (gGrab s) @ [NL],
      ''Write-events: '' @ on_off (gWrite s) @ [NL],
      ''Inputs: '' @ show_nat (length (gInputs s)) @ [NL]] @
     map (\<lambda>(name, i). ''    '' @ show_nat (unat (inp_id i)) @ '': '' @ cstr name @ '': '' @
        show_int (in_fd (device i)) @ [NL]) (gInputs s) @
     [''Outputs: '' @ show_nat (length (gOutputs s)) @ [NL]] @
     map (\<lambda>(name, fd). ''    '' @ cstr name @ '': '' @ show_int fd @ [NL]) (gOutputs s) @
     [''Current output: '' @ show_int (gCurrentOutput_fd s) @ '': '' @
        cstr (gCurrentOutput_name s) @ [NL],
      ''Hotkeys:'' @ [NL]] @
     map (\<lambda>(k, cmd). ''    '' @ show_nat (unat (hk_device k)) @ '': '' @
        EV2String (unat (hk_type k)) @ '':'' @ show_nat (unat (hk_code k)) @ '':'' @
        show_int (sint (hk_value k)) @ '' => '' @ cstr cmd @ [NL]) (gHotkeys s) @
     [''Event actions:'' @ [NL]] @
     map (\<lambda>(ev, cmd, stamp). ''    '' @ quoted (cstr ev) @ '': '' @ cstr cmd @ [NL]) (gEventCommands s)"

text \<open>Nothing the lines are made of changes while they are sent.\<close>

definition clientCommand_Info :: "os \<Rightarrow> int \<Rightarrow> unit dprog" where
  "clientCommand_Info os clientfd = bindP (getP info_lines) (forP (toClient os clientfd))"

definition clientCommand_Action :: "os \<Rightarrow> int \<Rightarrow> string list \<Rightarrow> unit dprog" where
  "clientCommand_Action os clientfd args =
     (if length args < 2 then raise (Exception (quoted ''action'' @ '': missing subcommand''))
      else if length args < 3 then raise (Exception (quoted ''action'' @ '': missing action''))
      else if args ! 1 = ''remove'' then
        (if length args \<noteq> 3 then raise (Exception (quoted ''action'' @ '': excess parameters''))
         else bindP (getP (\<lambda>s. map_find (args ! 2) (gEventCommands s))) (\<lambda>r. case r of
             None \<Rightarrow> ret ()
           | Some _ \<Rightarrow>
               thenP (modifyP (\<lambda>s. s\<lparr>gEventCommands := map_erase (args ! 2) (gEventCommands s)\<rparr>))
                 (toClient os clientfd (''removed on-'' @ quoted (cstr (args ! 2)) @ '' command'' @ [NL]))))
      else if args ! 1 = ''set'' then
        (if length args < 4 then raise (Exception (quoted ''action'' @ '': missing command''))
         else
           thenP (bindP (getP (\<lambda>s. map_find (args ! 2) (gEventCommands s))) (\<lambda>r.
              toClient os clientfd ((if r \<noteq> None then ''replaced on-'' else ''added on-'') @
                quoted (cstr (args ! 2)) @ '' command'' @ [NL])))
           (modifyP (\<lambda>s. s\<lparr>gEventCommands := map_set (args ! 2)
                (join CHR '' '' (drop 3 args), next_ptr s) (gEventCommands s),
              next_ptr := Suc (next_ptr s)\<rparr>)))
      else throw_msg (quoted ''action'' @ '': unknown subcommand: '' @ cstr (args ! 1)))"

text \<open>The lines of a command file; \<open>n\<close> bounds their number.\<close>

fun source_lines :: "os \<Rightarrow> runner \<Rightarrow> int \<Rightarrow> int \<Rightarrow> string \<Rightarrow> nat \<Rightarrow> unit dprog" where
  "source_lines os run clientfd fd path 0 = nofuel"
| "source_lines os run clientfd fd path (Suc n) =
     bindP (do_line os (GetLine fd)) (\<lambda>r. case r of
       Inl err \<Rightarrow> if err = 0 then ret ()
         else throw_errno (os_strerror os) (''error reading from '' @ path) err
     | Inr line \<Rightarrow>
         thenP (case source_line line of
                  None \<Rightarrow> ret ()
                | Some p \<Rightarrow> run (\<lambda>_. True) clientfd p)
           (source_lines os run clientfd fd path n))"

definition sourceCommandFile :: "os \<Rightarrow> runner \<Rightarrow> nat \<Rightarrow> int \<Rightarrow> string \<Rightarrow> unit dprog" where
  "sourceCommandFile os run n clientfd path =
     bindP (do_open os (Fopen path)) (\<lambda>r. case r of
       Inl err \<Rightarrow> throw_errno (os_strerror os) (''open('' @ path @ '')'') err
     | Inr fd \<Rightarrow>
         finallyP (source_lines os run clientfd fd path n) (do_ignore os (Close fd)))"

definition needs_one :: "string \<Rightarrow> string list \<Rightarrow> unit dprog \<Rightarrow> unit dprog" where
  "needs_one name args m =
     (if length args \<noteq> 2 then raise (Exception (quoted name @ '' requires 1 parameter'')) else m)"

definition clientCommand ::
    "os \<Rightarrow> uapi \<Rightarrow> endian \<Rightarrow> byte list \<Rightarrow> runner \<Rightarrow> nat \<Rightarrow> int \<Rightarrow> string list \<Rightarrow> unit dprog" where
  "clientCommand os u e junk run n clientfd args =
     (if args = [] then ret ()
      else
        let cmd = args ! 0 in
        thenP
          (if cmd = ''nop'' then ret ()
           else if cmd = ''device'' then clientCommand_Device os u e clientfd args
           else if cmd = ''output'' then clientCommand_Output os u e junk run clientfd args
           else if cmd = ''hotkey'' then clientCommand_Hotkey os clientfd args
           else if cmd = ''action'' then clientCommand_Action os clientfd args
           else if cmd = ''info'' then clientCommand_Info os clientfd
           else if cmd = ''write-events'' then
             needs_one cmd args (writeCommand os run clientfd (cstr (args ! 1)))
           else if cmd = ''grab-devices'' then
             needs_one cmd args (grabCommand os run clientfd (cstr (args ! 1)))
           else if cmd = ''grab'' then
             needs_one cmd args
               (thenP (grabCommand os run clientfd (cstr (args ! 1)))
               (thenP (writeCommand os run clientfd (cstr (args ! 1)))
                 (toClient os clientfd (''Warning: the command grab is deprecated,'' @
                    '' use grab-devices and write-events instead.'' @ [NL]))))
           else if cmd = ''use'' then needs_one cmd args (useOutput os run clientfd (args ! 1))
           else if cmd = ''exec'' \<or> cmd = ''exec&'' then
             (if length args < 2 then raise (Exception (quoted ''exec'' @ '' requires 1 parameter''))
              else shellCommand os n (cstr (join CHR '' '' (drop 1 args))) (cmd = ''exec&''))
           else if cmd = ''source'' then
             needs_one cmd args (sourceCommandFile os run n clientfd (cstr (args ! 1)))
           else if cmd = ''quit'' then modifyP (\<lambda>s. s\<lparr>gQuit := True\<rparr>)
           else throw_msg (''unknown command: '' @ cstr cmd))
          (if clientfd < 0 then ret () else toClient os clientfd (''Ok.'' @ [NL])))"

text \<open>
  \<open>parseClientCommand\<close>. After a command the rest of the text is read, if there is any: by
  then it has to be alive.
\<close>

fun parseClientCommand ::
    "os \<Rightarrow> uapi \<Rightarrow> endian \<Rightarrow> byte list \<Rightarrow> nat \<Rightarrow> (dstate \<Rightarrow> bool) \<Rightarrow> int \<Rightarrow> string \<Rightarrow> unit dprog" where
  "parseClientCommand os u e junk 0 alive clientfd text = nofuel"
| "parseClientCommand os u e junk (Suc n) alive clientfd text =
     forP (\<lambda>(args, reads_on).
         thenP (clientCommand os u e junk (parseClientCommand os u e junk n) n clientfd args)
           (if reads_on then bindP (getP alive) (\<lambda>ok. if ok then ret () else undef) else ret ()))
       (split_commands text)"

end
