(* ===== verification/Children.thy ===== *)
theory Children
  imports DaemonCmd
begin

text \<open>
  The processes the daemon starts (\<^verbatim>\<open>daemon.cpp\<close>): the child of \<open>shellCommand\<close> and
  of an \<open>exec:\<close> output, from \<open>fork\<close> on, and the parent waiting for a foreground command.
  A child has a copy of the daemon's state. It ends by becoming the shell or by \<open>exit\<close>; a
  child that throws is none of these: the exception goes up into the daemon's own code.
\<close>

datatype child_end = Became string | Died int

text \<open>\<open>perror\<close>, then \<open>exit (-1)\<close>.\<close>

definition die :: "os \<Rightarrow> string \<Rightarrow> errno \<Rightarrow> child_end dprog" where
  "die os msg err =
     thenP (do_ignore os (Stderr (msg @ '': '' @ os_strerror os err @ [NL]))) (ret (Died (- 1)))"

definition daemon_preExec :: "unit dprog" where
  "daemon_preExec = modifyP (\<lambda>s. s\<lparr>gFDCBs := []\<rparr>)"

definition exec_shell :: "os \<Rightarrow> string \<Rightarrow> child_end dprog" where
  "exec_shell os cmd =
     thenP daemon_preExec
     (bindP (do_call os (Exec cmd)) (\<lambda>r. case r of
        None \<Rightarrow> ret (Became cmd)
      | Some err \<Rightarrow> die os ''exec() failed'' err))"

text \<open>
  \<open>IOHandle::cloexec\<close>. \<open>FD_CLOEXEC\<close> is the only flag \<open>F_SETFD\<close> has, so the flags that are
  set do not depend on what \<open>F_GETFD\<close> says, whose failure is not looked at.
\<close>

definition IOHandle_cloexec :: "os \<Rightarrow> int \<Rightarrow> bool \<Rightarrow> unit dprog" where
  "IOHandle_cloexec os fd on =
     thenP (do_ignore os (Fcntl fd ''F_GETFD''))
     (bindP (do_call os (Fcntl fd (if on then ''F_SETFD FD_CLOEXEC'' else ''F_SETFD 0''))) (\<lambda>r. case r of
        None \<Rightarrow> ret ()
      | Some err \<Rightarrow> throw_errno (os_strerror os) ''failed to set FD_CLOEXEC flags'' err))"

text \<open>The child of an \<open>exec:\<close> output; the handles are closed when an exception leaves it.\<close>

definition exec_child :: "os \<Rightarrow> int \<Rightarrow> int \<Rightarrow> string \<Rightarrow> child_end dprog" where
  "exec_child os pr pw path =
     thenP (do_ignore os (Close pw))
     (thenP (catchP (IOHandle_cloexec os pr False)
               (\<lambda>ex. thenP (do_ignore os (Close pr)) (raise ex)))
     (if pr \<noteq> 0 then
        bindP (do_call os (Dup2 pr 0)) (\<lambda>r. case r of
          Some err \<Rightarrow> die os ''dup2'' err
        | None \<Rightarrow> thenP (do_ignore os (Close pr)) (exec_shell os path))
      else exec_shell os path))"

definition shell_child :: "os \<Rightarrow> string \<Rightarrow> child_end dprog" where
  "shell_child os cmd = exec_shell os cmd"

text \<open>
  On a kernel that grants every request the shell of an output runs with the reading end of
  the pipe as its standard input, and the writing end closed.
\<close>

lemma exec_child_granted:
  assumes "\<And>h c. os_call os h c = None"
  shows "exec_child os pr pw path s = (Ret (Became path),
    s\<lparr>gFDCBs := [], history := history s @ map (\<lambda>c. (c, None))
      ([Close pw, Fcntl pr ''F_GETFD'', Fcntl pr ''F_SETFD 0''] @
       (if pr \<noteq> 0 then [Dup2 pr 0, Close pr] else []) @ [Exec path])\<rparr>)"
  using assms
  by (simp add: exec_child_def IOHandle_cloexec_def exec_shell_def daemon_preExec_def run_simps log_call_def)

text \<open>
  If the flag cannot be cleared the child throws: \<open>processCommandQueue\<close> of the child catches
  that and a second daemon goes on, with the same sockets and devices.
\<close>

theorem exec_child_returns:
  assumes "\<And>h. os_call os h (Fcntl pr ''F_SETFD 0'') = Some err"
  shows "\<exists>ex s'. exec_child os pr pw path s = (Throw ex, s') \<and> gFDCBs s' = gFDCBs s \<and> gQuit s' = gQuit s"
  using assms
  by (simp add: exec_child_def IOHandle_cloexec_def run_simps throw_errno_def ErrnoException_new_Some log_call_def)

section \<open>Waiting for a foreground command\<close>

definition reaped :: "os \<Rightarrow> int \<Rightarrow> bool" where
  "reaped os pid \<longleftrightarrow> (\<forall>h. os_call os h (WaitPid pid) \<noteq> None)"

definition waits :: "int \<Rightarrow> effect list \<Rightarrow> nat" where
  "waits pid h = length (filter (\<lambda>e. fst e = WaitPid pid) h)"

definition hands_over :: "os \<Rightarrow> int \<Rightarrow> nat \<Rightarrow> bool" where
  "hands_over os pid k \<longleftrightarrow> (\<forall>h. k \<le> waits pid h \<longrightarrow> os_call os h (WaitPid pid) = None)"

lemma wait_for_reaped: "reaped os pid \<Longrightarrow> fst (wait_for os pid n s) = NoFuel"
proof (induction n arbitrary: s)
  case (Suc n)
  obtain err where "os_call os (history s) (WaitPid pid) = Some err"
    using Suc.prems unfolding reaped_def by blast
  with Suc show ?case by (simp add: run_simps)
qed (simp add: run_simps)

lemma wait_for_child:
  assumes "hands_over os pid k"
  shows "k < n + waits pid (history s) \<Longrightarrow> 0 < n \<Longrightarrow> fst (wait_for os pid n s) = Ret ()"
proof (induction n arbitrary: s)
  case (Suc n)
  show ?case
  proof (cases "os_call os (history s) (WaitPid pid)")
    case (Some err)
    with assms have "waits pid (history s) < k" unfolding hands_over_def by (metis linorder_not_le option.distinct(1))
    with Suc Some show ?thesis by (simp add: run_simps log_call_def waits_def)
  qed (simp add: run_simps)
qed simp

text \<open>
  C19. Waiting for a foreground command: if the kernel hands the child over after at most k
  failed calls (interrupted by signals), exec returns; but if the child is already reaped
  (signull reaps every child, and can run before the call), then every call fails and exec
  does not return, whatever the bound: the daemon spins for ever. In the background exec
  returns at once.
\<close>

theorem shellCommand_waits:
  assumes "os_fork os (history s) = Inr pid"
  shows "(hands_over os pid k \<and> k < n \<longrightarrow> fst (shellCommand os n cmd False s) = Ret ()) \<and>
    (reaped os pid \<longrightarrow> fst (shellCommand os n cmd False s) = NoFuel) \<and>
    fst (shellCommand os n cmd True s) = Ret ()"
proof -
  let ?t = "log_call Fork None s"
  have run: "shellCommand os n cmd False s = wait_for os pid n (log_call (Exec cmd) (os_call os (history ?t) (Exec cmd)) ?t)"
    by (simp add: shellCommand_def run_simps assms err_of_def)
  have "fst (shellCommand os n cmd True s) = Ret ()"
    by (simp add: shellCommand_def run_simps assms)
  then show ?thesis unfolding run by (auto intro: wait_for_reaped wait_for_child)
qed

definition echild_os :: os where
  "echild_os = quiet_os\<lparr>os_call := (\<lambda>h c. case c of WaitPid p \<Rightarrow> Some 10 | _ \<Rightarrow> None)\<rparr>"

theorem shellCommand_waits_witness:
  "(\<forall>s. fst (shellCommand quiet_os 1 ''true'' False s) = Ret ()) \<and>
   (\<forall>n s. fst (shellCommand echild_os n ''true'' False s) = NoFuel)"
proof -
  have "hands_over quiet_os 1 0" "reaped echild_os 1"
    by (simp_all add: hands_over_def reaped_def quiet_os_def echild_os_def)
  moreover have "os_fork quiet_os h = Inr 1" "os_fork echild_os h = Inr 1" for h
    by (simp_all add: quiet_os_def echild_os_def)
  ultimately show ?thesis
    using shellCommand_waits [of quiet_os _ 1 0 1] shellCommand_waits [of echild_os _ 1] by auto
qed

end
