(* ===== verification/DaemonLoop.thy ===== *)
theory DaemonLoop
  imports DaemonCmd
begin

text \<open>
  The main loop of the daemon (\<open>cmd_daemon\<close>, \<^verbatim>\<open>daemon.cpp\<close>): the callbacks, the
  queues of commands and of descriptors to remove, the signal handler and \<open>poll\<close>. \<open>sys\<close>
  collects what the program was compiled and started with, and the signals it gets:
  \<open>sys_signals\<close> are those that arrive, after the given history, before \<open>gQuit\<close> is read
  next. The handler shares nothing else with the program.
\<close>

record sys =
  sys_os :: os
  sys_uapi :: uapi
  sys_endian :: endian
  sys_junk :: "byte list"
  sys_fuel :: nat
  sys_signals :: "effect list \<Rightarrow> int list"

definition EINTR :: errno where "EINTR = 4"

definition run_text :: "sys \<Rightarrow> runner" where
  "run_text y = parseClientCommand (sys_os y) (sys_uapi y) (sys_endian y) (sys_junk y) (sys_fuel y)"

section \<open>Callbacks\<close>

definition device_lost :: "sys \<Rightarrow> nat \<Rightarrow> unit dprog" where
  "device_lost y p = thenP (fireEvent (run_text y) (- 1) ''device-lost'') (closeDevice p)"

definition onRead :: "sys \<Rightarrow> int \<Rightarrow> FDCallbacks \<Rightarrow> unit dprog" where
  "onRead y fd cb = (case cb of
     CbServer \<Rightarrow> newCommandClient (sys_os y)
   | CbClient \<Rightarrow> readCommand (sys_os y) fd
   | CbDevice p dev \<Rightarrow> readFromDevice (sys_os y) (sys_endian y) (run_text y) p dev
   | CbOutput \<Rightarrow> thenP (do_ignore (sys_os y) (Stderr ''onRead on output'')) (removeFD fd))"

definition set_quit :: "unit dprog" where
  "set_quit = modifyP (\<lambda>s. s\<lparr>gQuit := True\<rparr>)"

definition onHUP :: "sys \<Rightarrow> int \<Rightarrow> FDCallbacks \<Rightarrow> unit dprog" where
  "onHUP y fd cb = (case cb of
     CbServer \<Rightarrow> set_quit
   | CbClient \<Rightarrow> disconnectClient fd
   | CbDevice p dev \<Rightarrow> device_lost y p
   | CbOutput \<Rightarrow> removeFD fd)"

definition onError :: "sys \<Rightarrow> int \<Rightarrow> FDCallbacks \<Rightarrow> unit dprog" where
  "onError y fd cb = (case cb of
     CbServer \<Rightarrow> set_quit
   | CbClient \<Rightarrow> disconnectClient fd
   | CbDevice p dev \<Rightarrow> device_lost y p
   | CbOutput \<Rightarrow> removeFD fd)"

definition onRemove :: "sys \<Rightarrow> int \<Rightarrow> FDCallbacks \<Rightarrow> unit dprog" where
  "onRemove y fd cb = (case cb of
     CbServer \<Rightarrow> raise (Exception ''removed server socket'')
   | CbClient \<Rightarrow> finishClientRemoval (sys_os y) fd
   | CbDevice p dev \<Rightarrow> finishDeviceRemoval (sys_os y) (sys_endian y) p
   | CbOutput \<Rightarrow> finishOutputRemoval (sys_os y) (run_text y) fd)"

section \<open>Signals\<close>

definition SIGINT :: int where "SIGINT = 2"
definition SIGQUIT :: int where "SIGQUIT = 3"
definition SIGTERM :: int where "SIGTERM = 15"
definition SIGCHLD :: int where "SIGCHLD = 17"

fun reap_zombies :: "os \<Rightarrow> nat \<Rightarrow> unit dprog" where
  "reap_zombies os 0 = nofuel"
| "reap_zombies os (Suc n) =
     bindP (do_call os (WaitPid (- 1))) (\<lambda>r. case r of None \<Rightarrow> reap_zombies os n | Some err \<Rightarrow> ret ())"

definition signull :: "sys \<Rightarrow> int \<Rightarrow> unit dprog" where
  "signull y sig = (if sig = SIGCHLD then reap_zombies (sys_os y) (sys_fuel y) else set_quit)"

definition deliver :: "sys \<Rightarrow> unit dprog" where
  "deliver y = bindP (getP (\<lambda>s. sys_signals y (history s))) (forP (signull y))"

definition check_quit :: "sys \<Rightarrow> bool dprog" where
  "check_quit y = thenP (deliver y) (getP gQuit)"

section \<open>Queues\<close>

text \<open>
  The loop iterates over the vector itself: a callback that adds to it invalidates the
  iterators.
\<close>

fun remove_loop :: "sys \<Rightarrow> int list \<Rightarrow> int list \<Rightarrow> unit dprog" where
  "remove_loop y q [] = ret ()"
| "remove_loop y q (fd # fds) =
     bindP (getP (\<lambda>s. map_find fd (gFDCBs s))) (\<lambda>r. case r of
       None \<Rightarrow> raise (Exception ''FD without cleanup callback'')
     | Some cb \<Rightarrow>
         thenP (onRemove y fd cb)
         (thenP (modifyP (\<lambda>s. s\<lparr>gFDCBs := map_erase fd (gFDCBs s)\<rparr>))
         (bindP (getP gFDRemoveQueue) (\<lambda>q'.
          if q' \<noteq> q then undef else remove_loop y q fds))))"

definition processRemoveQueue :: "sys \<Rightarrow> unit dprog" where
  "processRemoveQueue y =
     thenP (bindP (getP gFDRemoveQueue) (\<lambda>q. remove_loop y q q))
       (modifyP (\<lambda>s. s\<lparr>gFDRemoveQueue := []\<rparr>))"

definition run_command :: "sys \<Rightarrow> int \<times> string \<Rightarrow> unit dprog" where
  "run_command y c = (case c of (client, text) \<Rightarrow>
     catchP (run_text y (\<lambda>_. True) client text)
       (\<lambda>ex. toClient (sys_os y) client (''ERROR: '' @ what ex @ [NL])))"

definition processCommandQueue :: "sys \<Rightarrow> unit dprog" where
  "processCommandQueue y =
     thenP (bindP (getP gCommandQueue) (forP (run_command y)))
       (modifyP (\<lambda>s. s\<lparr>gCommandQueue := []\<rparr>))"

section \<open>The loop\<close>

text \<open>The events of one descriptor; the result says whether to go on.\<close>

definition dispatch :: "sys \<Rightarrow> int \<Rightarrow> poll_events \<Rightarrow> bool dprog" where
  "dispatch y fd ev =
     bindP (getP (\<lambda>s. map_find fd (gFDCBs s))) (\<lambda>r. case r of
       None \<Rightarrow> raise (Exception ''internal: callback map broken'')
     | Some cb \<Rightarrow>
         thenP (whenP (pe_err ev) (onError y fd cb))
         (bindP (check_quit y) (\<lambda>q. if q then ret False else
          thenP (whenP (pe_hup ev) (onHUP y fd cb))
          (bindP (check_quit y) (\<lambda>q. if q then ret False else
           thenP (whenP (pe_in ev) (onRead y fd cb))
           (bindP (check_quit y) (\<lambda>q. ret (\<not> q))))))))"

fun dispatch_all :: "sys \<Rightarrow> (int \<times> poll_events) list \<Rightarrow> unit dprog" where
  "dispatch_all y [] = ret ()"
| "dispatch_all y ((fd, ev) # evs) =
     bindP (dispatch y fd ev) (\<lambda>go. if go then dispatch_all y evs else ret ())"

definition no_events :: poll_events where
  "no_events = \<lparr>pe_err = False, pe_hup = False, pe_in = False\<rparr>"

text \<open>\<open>poll\<close> reports no events for a descriptor its answer does not mention.\<close>

definition poll_once :: "sys \<Rightarrow> unit dprog" where
  "poll_once y =
     bindP (getP pfds) (\<lambda>fds.
     bindP (do_poll (sys_os y) fds) (\<lambda>r. case r of
       Inl err \<Rightarrow>
         if err = EINTR then do_ignore (sys_os y) (Stderr (''interrupted'' @ [NL]))
         else throw_errno (os_strerror (sys_os y)) ''poll interrupted'' err
     | Inr evs \<Rightarrow>
         thenP (whenP (evs = []) (do_ignore (sys_os y) (Stderr (''empty poll?'' @ [NL]))))
           (dispatch_all y (zip fds (evs @ replicate (length fds) no_events)))))"

definition update_pfds :: "unit dprog" where
  "update_pfds = modifyP (\<lambda>s. s\<lparr>
     pfds := filter (\<lambda>fd. fd \<notin> set (gFDRemoveQueue s)) (pfds s @ gFDAddQueue s),
     gFDAddQueue := []\<rparr>)"

fun daemon_loop :: "sys \<Rightarrow> nat \<Rightarrow> unit dprog" where
  "daemon_loop y 0 = nofuel"
| "daemon_loop y (Suc n) =
     bindP (check_quit y) (\<lambda>q. if q then ret () else
     thenP (processCommandQueue y)
     (thenP update_pfds
     (thenP (processRemoveQueue y)
     (bindP (check_quit y) (\<lambda>q. if q then ret () else
      thenP (poll_once y) (daemon_loop y n))))))"

section \<open>Start and end\<close>

definition daemon_step :: "string list \<Rightarrow> nat \<Rightarrow> string \<Rightarrow> string list parsed" where
  "daemon_step files c arg =
     (if c = opt CHR ''h'' then Exit [] EXIT_SUCCESS
      else if c = opt CHR ''s'' then Options (files @ [arg])
      else if c = opt CHR ''?'' then Options files
      else Return (- 1))"

definition daemon_init :: dstate where
  "daemon_init = \<lparr>history = [], gQuit = False, gFDRemoveQueue = [], gFDAddQueue = [], gFDCBs = [],
     gCommandClients = [], gCommandQueue = [], gInputIDFreeList = [], gInputs = [], gOutputs = [],
     gCurrentOutput_fd = - 1, gCurrentOutput_name = [], gWrite = False, gGrab = False,
     gHotkeys = [], gEventCommands = [], next_ptr = 0, gServer = Socket_new, pfds = []\<rparr>"

definition on_gServer :: "(dstate \<times> Socket, 'a) prog \<Rightarrow> 'a dprog" where
  "on_gServer m = with_obj gServer (\<lambda>so s. s\<lparr>gServer := so\<rparr>) m"

definition daemon_listen :: "sys \<Rightarrow> string \<Rightarrow> unit dprog" where
  "daemon_listen y sockname =
     (if deref sockname = CHR ''@''
      then on_gServer (listenUnix (sys_os y) (sys_junk y) True (tl sockname))
      else thenP (do_ignore (sys_os y) (Unlink sockname))
        (on_gServer (listenUnix (sys_os y) (sys_junk y) False sockname)))"

definition daemon_shutdown :: "sys \<Rightarrow> unit dprog" where
  "daemon_shutdown y =
     thenP (do_ignore (sys_os y) (Stderr (''shutting down'' @ [NL])))
     (thenP (modifyP (\<lambda>s. s\<lparr>gFDRemoveQueue := [], gFDCBs := []\<rparr>))
     (bindP (getP gCommandClients) (\<lambda>cs.
      thenP (modifyP (\<lambda>s. s\<lparr>gCommandClients := []\<rparr>))
        (forP (\<lambda>(fd, file). do_ignore (sys_os y) (Close file)) cs))))"

text \<open>Everything before the loop: the server socket, its callback, and the command files.\<close>

definition daemon_setup :: "sys \<Rightarrow> string \<Rightarrow> string list \<Rightarrow> unit dprog" where
  "daemon_setup y sockname files =
     thenP (daemon_listen y sockname)
     (bindP (getP (\<lambda>s. sock_fd (gServer s))) (\<lambda>sfd.
      thenP (modifyP (\<lambda>s. s\<lparr>pfds := [sfd]\<rparr>))
      (thenP (set_callbacks sfd CbServer)
        (forP (sourceCommandFile (sys_os y) (run_text y) (sys_fuel y) (- 1)) files))))"

definition cmd_daemon :: "sys \<Rightarrow> getopt \<Rightarrow> string list \<Rightarrow> nat \<Rightarrow> status dprog" where
  "cmd_daemon y opts args n =
     with_options (sys_os y) (parse_options daemon_step [] opts) (usage_daemon (sys_os y)) (\<lambda>files.
       if length args \<noteq> 1 then
         thenP (do_ignore (sys_os y) (Stderr (''missing socket name'' @ [NL]))) (ret (Status 2))
       else
         thenP (finallyP
           (thenP (daemon_setup y (args ! 0) files)
           (thenP (daemon_loop y n) (daemon_shutdown y)))
           (on_gServer (Socket_close (sys_os y))))
         (ret (Status 0)))"

end
