(* ===== verification/Registry.thy ===== *)
theory Registry
  imports Daemon
begin

text \<open>
  Who owns which descriptor of the daemon (\<^verbatim>\<open>daemon.cpp\<close>): the invariant that ties the
  callbacks, inputs, outputs, clients and hotkeys together, on the maps alone, and what
  entering, leaving, opening and closing do to it.
\<close>

section \<open>The invariant\<close>

text \<open>What the invariant needs of the inputs: name, id, pointer, descriptor.\<close>

type_synonym view = "(string \<times> 16 word \<times> nat \<times> int) list"

text \<open>
  \<open>A\<close> are callbacks known to be registered, \<open>H\<close> descriptors that are open and held by a
  local variable of a function that is running.
\<close>

definition registry_ok ::
    "(int \<rightharpoonup> FDCallbacks) \<Rightarrow> int set \<Rightarrow> (int, FDCallbacks) std_map \<Rightarrow> view \<Rightarrow> (string, int) std_map \<Rightarrow>
     (int, int) std_map \<Rightarrow> (HotkeyDef, string) std_map \<Rightarrow> int set \<Rightarrow> nat \<Rightarrow> bool" where
  "registry_ok A H cbs v outs cl hot F k \<longleftrightarrow>
     map_ok cbs \<and> map_ok v \<and> map_ok outs \<and> map_ok cl \<and>
     A \<subseteq>\<^sub>m (\<lambda>fd. map_find fd cbs) \<and>
     (\<forall>fd. map_find fd cbs \<noteq> None \<longrightarrow> 0 \<le> fd \<and> fd \<in> F) \<and>
     (\<forall>fd\<in>H. 0 \<le> fd \<and> fd \<in> F \<and> map_find fd cbs = None) \<and>
     (\<forall>fd p i. map_find fd cbs = Some (CbDevice p i) \<longleftrightarrow> (\<exists>n. map_find n v = Some (i, p, fd))) \<and>
     (\<forall>n n' i i' p fd fd'. map_find n v = Some (i, p, fd) \<longrightarrow> map_find n' v = Some (i', p, fd') \<longrightarrow> n = n') \<and>
     (\<forall>n i p fd. map_find n v = Some (i, p, fd) \<longrightarrow> p < k) \<and>
     (\<forall>fd. map_find fd cbs = Some CbOutput \<longleftrightarrow> (\<exists>n. map_find n outs = Some fd)) \<and>
     (\<forall>n n' fd. map_find n outs = Some fd \<longrightarrow> map_find n' outs = Some fd \<longrightarrow> n = n') \<and>
     (\<forall>fd. map_find fd cbs = Some CbClient \<longleftrightarrow> map_find fd cl \<noteq> None) \<and>
     (\<forall>fd file. map_find fd cl = Some file \<longrightarrow> file = fd) \<and>
     (\<forall>key\<in>fst ` set hot. \<exists>n p fd. map_find n v = Some (hk_device key, p, fd))"

lemma registry_ok_conjs:
  assumes "registry_ok A H cbs v outs cl hot F k"
  shows "map_ok cbs" "map_ok v" "map_ok outs" "map_ok cl"
    and "A \<subseteq>\<^sub>m (\<lambda>fd. map_find fd cbs)"
    and "\<forall>fd. map_find fd cbs \<noteq> None \<longrightarrow> 0 \<le> fd \<and> fd \<in> F"
    and "\<forall>fd\<in>H. 0 \<le> fd \<and> fd \<in> F \<and> map_find fd cbs = None"
    and "\<forall>fd p i. map_find fd cbs = Some (CbDevice p i) \<longleftrightarrow> (\<exists>n. map_find n v = Some (i, p, fd))"
    and "\<forall>n n' i i' p fd fd'. map_find n v = Some (i, p, fd) \<longrightarrow> map_find n' v = Some (i', p, fd') \<longrightarrow> n = n'"
    and "\<forall>n i p fd. map_find n v = Some (i, p, fd) \<longrightarrow> p < k"
    and "\<forall>fd. map_find fd cbs = Some CbOutput \<longleftrightarrow> (\<exists>n. map_find n outs = Some fd)"
    and "\<forall>n n' fd. map_find n outs = Some fd \<longrightarrow> map_find n' outs = Some fd \<longrightarrow> n = n'"
    and "\<forall>fd. map_find fd cbs = Some CbClient \<longleftrightarrow> map_find fd cl \<noteq> None"
    and "\<forall>fd file. map_find fd cl = Some file \<longrightarrow> file = fd"
    and "\<forall>key\<in>fst ` set hot. \<exists>n p fd. map_find n v = Some (hk_device key, p, fd)"
  using assms unfolding registry_ok_def by - (elim conjE, assumption)+

lemma registry_okD:
  assumes "registry_ok A H cbs v outs cl hot F k"
  shows "map_ok cbs" "map_ok v" "map_ok outs" "map_ok cl"
    and "A \<subseteq>\<^sub>m (\<lambda>fd. map_find fd cbs)"
    and "map_find fd cbs = Some cb \<Longrightarrow> 0 \<le> fd \<and> fd \<in> F"
    and "fd \<in> H \<Longrightarrow> 0 \<le> fd \<and> fd \<in> F \<and> map_find fd cbs = None"
    and "map_find fd cbs = Some (CbDevice p i) \<Longrightarrow> \<exists>n. map_find n v = Some (i, p, fd)"
    and "map_find n v = Some (i, p, fd) \<Longrightarrow> map_find fd cbs = Some (CbDevice p i)"
    and "map_find n v = Some (i, p, fd) \<Longrightarrow> map_find n' v = Some (i', p, fd') \<Longrightarrow> n = n'"
    and "map_find n v = Some (i, p, fd) \<Longrightarrow> p < k"
    and "map_find fd cbs = Some CbOutput \<Longrightarrow> \<exists>n. map_find n outs = Some fd"
    and "map_find n outs = Some fd \<Longrightarrow> map_find fd cbs = Some CbOutput"
    and "map_find n outs = Some fd \<Longrightarrow> map_find n' outs = Some fd \<Longrightarrow> n = n'"
    and "map_find fd cbs = Some CbClient \<longleftrightarrow> map_find fd cl \<noteq> None"
    and "map_find fd cl = Some file \<Longrightarrow> file = fd"
    and "key \<in> fst ` set hot \<Longrightarrow> \<exists>n p fd. map_find n v = Some (hk_device key, p, fd)"
proof -
  note r = registry_ok_conjs [OF assms]
  show "map_ok cbs" "map_ok v" "map_ok outs" "map_ok cl" "A \<subseteq>\<^sub>m (\<lambda>fd. map_find fd cbs)"
    by (fact r(1-5))+
  show "map_find fd cbs = Some cb \<Longrightarrow> 0 \<le> fd \<and> fd \<in> F" using r(6) by force
  show "fd \<in> H \<Longrightarrow> 0 \<le> fd \<and> fd \<in> F \<and> map_find fd cbs = None" using r(7) by blast
  show "map_find fd cbs = Some (CbDevice p i) \<Longrightarrow> \<exists>n. map_find n v = Some (i, p, fd)"
    and "map_find n v = Some (i, p, fd) \<Longrightarrow> map_find fd cbs = Some (CbDevice p i)" using r(8) by blast+
  show "map_find n v = Some (i, p, fd) \<Longrightarrow> map_find n' v = Some (i', p, fd') \<Longrightarrow> n = n'" using r(9) by blast
  show "map_find n v = Some (i, p, fd) \<Longrightarrow> p < k" using r(10) by blast
  show "map_find fd cbs = Some CbOutput \<Longrightarrow> \<exists>n. map_find n outs = Some fd"
    and "map_find n outs = Some fd \<Longrightarrow> map_find fd cbs = Some CbOutput" using r(11) by blast+
  show "map_find n outs = Some fd \<Longrightarrow> map_find n' outs = Some fd \<Longrightarrow> n = n'" using r(12) by blast
  show "map_find fd cbs = Some CbClient \<longleftrightarrow> map_find fd cl \<noteq> None" using r(13) by blast
  show "map_find fd cl = Some file \<Longrightarrow> file = fd" using r(14) by blast
  show "key \<in> fst ` set hot \<Longrightarrow> \<exists>n p fd. map_find n v = Some (hk_device key, p, fd)" using r(15) by blast
qed

lemma registry_okI:
  assumes "map_ok cbs" "map_ok v" "map_ok outs" "map_ok cl" "A \<subseteq>\<^sub>m (\<lambda>fd. map_find fd cbs)"
    and "\<And>fd cb. map_find fd cbs = Some cb \<Longrightarrow> 0 \<le> fd \<and> fd \<in> F"
    and "\<And>fd. fd \<in> H \<Longrightarrow> 0 \<le> fd \<and> fd \<in> F \<and> map_find fd cbs = None"
    and "\<And>fd p i. map_find fd cbs = Some (CbDevice p i) \<Longrightarrow> \<exists>n. map_find n v = Some (i, p, fd)"
    and "\<And>n i p fd. map_find n v = Some (i, p, fd) \<Longrightarrow> map_find fd cbs = Some (CbDevice p i)"
    and "\<And>n n' i i' p fd fd'. map_find n v = Some (i, p, fd) \<Longrightarrow> map_find n' v = Some (i', p, fd') \<Longrightarrow> n = n'"
    and "\<And>n i p fd. map_find n v = Some (i, p, fd) \<Longrightarrow> p < k"
    and "\<And>fd. map_find fd cbs = Some CbOutput \<Longrightarrow> \<exists>n. map_find n outs = Some fd"
    and "\<And>n fd. map_find n outs = Some fd \<Longrightarrow> map_find fd cbs = Some CbOutput"
    and "\<And>n n' fd. map_find n outs = Some fd \<Longrightarrow> map_find n' outs = Some fd \<Longrightarrow> n = n'"
    and "\<And>fd. map_find fd cbs = Some CbClient \<longleftrightarrow> map_find fd cl \<noteq> None"
    and "\<And>fd file. map_find fd cl = Some file \<Longrightarrow> file = fd"
    and "\<And>key. key \<in> fst ` set hot \<Longrightarrow> \<exists>n p fd. map_find n v = Some (hk_device key, p, fd)"
  shows "registry_ok A H cbs v outs cl hot F k"
  unfolding registry_ok_def
  by (intro conjI, rule assms(1), rule assms(2), rule assms(3), rule assms(4), rule assms(5),
    use assms(6) in force, use assms(7) in blast, use assms(8,9) in blast, use assms(10) in blast,
    use assms(11) in blast, use assms(12,13) in blast, use assms(14) in blast, use assms(15) in blast,
    use assms(16) in blast, use assms(17) in blast)

lemma registry_ok_ptr: "registry_ok A H cbs v outs cl hot F k \<Longrightarrow> k \<le> k' \<Longrightarrow> registry_ok A H cbs v outs cl hot F k'"
  unfolding registry_ok_def by (elim conjE, intro conjI) (assumption | fastforce)+

section \<open>Opening, closing and entering\<close>

lemma registry_ok_open:
  assumes "registry_ok A H cbs v outs cl hot F k" and "0 \<le> fd" and "fd \<notin> F"
  shows "fd \<notin> H \<and> registry_ok A (insert fd H) cbs v outs cl hot (insert fd F) k"
proof -
  have "map_find fd cbs = None" using assms by (auto simp: registry_ok_def)
  moreover have "fd \<notin> H" using assms by (auto simp: registry_ok_def)
  ultimately show ?thesis
    using assms unfolding registry_ok_def by (elim conjE, intro conjI) (assumption | fastforce)+
qed

lemma registry_ok_close:
  assumes "registry_ok A (insert fd H) cbs v outs cl hot F k" and "fd \<notin> H"
  shows "registry_ok A H cbs v outs cl hot (F - {fd}) k"
proof -
  have "map_find fd cbs = None" using assms by (auto simp: registry_ok_def)
  then have "\<forall>fd'. map_find fd' cbs \<noteq> None \<longrightarrow> fd' \<noteq> fd" by auto
  then show ?thesis
    using assms unfolding registry_ok_def by (elim conjE, intro conjI) (assumption | fastforce)+
qed

lemma registry_ok_hot:
  assumes "registry_ok A H cbs v outs cl hot F k" and "set hot' \<subseteq> set hot"
  shows "registry_ok A H cbs v outs cl hot' F k"
proof -
  note r = registry_ok_conjs [OF assms(1)]
  have "fst ` set hot' \<subseteq> fst ` set hot" using assms(2) by (rule image_mono)
  then have hot: "\<forall>key\<in>fst ` set hot'. \<exists>n p fd. map_find n v = Some (hk_device key, p, fd)"
    using bspec [OF r(15)] by (intro ballI) (drule (1) subsetD)
  from r(1-14) hot show ?thesis unfolding registry_ok_def by - (intro conjI; assumption)
qed

text \<open>A descriptor without a callback occurs nowhere.\<close>

lemma registry_ok_free:
  assumes "registry_ok A H cbs v outs cl hot F k" and "map_find fd cbs = None"
  shows "map_find n v \<noteq> Some (i, p, fd)" and "map_find n outs \<noteq> Some fd" and "map_find fd cl = None"
    and "fd \<notin> dom A"
proof -
  note D = registry_okD [OF assms(1)]
  show "map_find n v \<noteq> Some (i, p, fd)" using D(9) assms(2) by fastforce
  show "map_find n outs \<noteq> Some fd" using D(13) assms(2) by fastforce
  show "map_find fd cl = None" using D(15) [of fd] assms(2) by simp
  show "fd \<notin> dom A" using D(5) assms(2) by (force simp: map_le_def)
qed

lemma registry_ok_output:
  assumes "registry_ok A (insert fd H) cbs v outs cl hot F k" and "fd \<notin> H" and "map_find name outs = None"
  shows "registry_ok A H (map_emplace fd CbOutput cbs) v (map_emplace name fd outs) cl hot F k"
proof -
  note D = registry_okD [OF assms(1)]
  have none: "map_find fd cbs = None" and F: "0 \<le> fd" "fd \<in> F" using D(7) [of fd] by auto
  note free = registry_ok_free [OF assms(1) none]
  have c: "map_find x (map_emplace fd CbOutput cbs) = (if x = fd then Some CbOutput else map_find x cbs)" for x
    using D none by (simp add: map_emplace_def std.find_put)
  have o: "map_find x (map_emplace name fd outs) = (if x = name then Some fd else map_find x outs)" for x
    using D assms(3) by (simp add: map_emplace_def std.find_put)
  show ?thesis
  proof (rule registry_okI; (unfold c o)?)
    show "map_ok (map_emplace fd CbOutput cbs)" "map_ok v" "map_ok (map_emplace name fd outs)" "map_ok cl"
      using D(1-4) by (simp_all add: map_ok_emplace)
    show "A \<subseteq>\<^sub>m (\<lambda>x. if x = fd then Some CbOutput else map_find x cbs)"
      using D(5) free(4) by (auto simp: map_le_def)
    show "0 \<le> x \<and> x \<in> F" if "(if x = fd then Some CbOutput else map_find x cbs) = Some cb" for x cb
      using that D(6) [of x cb] F by (auto split: if_splits)
    show "0 \<le> x \<and> x \<in> F \<and> (if x = fd then Some CbOutput else map_find x cbs) = None" if "x \<in> H" for x
      using that D(7) [of x] assms(2) by auto
    show "\<exists>n. map_find n v = Some (i, p, x)"
      if "(if x = fd then Some CbOutput else map_find x cbs) = Some (CbDevice p i)" for x p i
      using that D(8) by (auto split: if_splits)
    show "(if x = fd then Some CbOutput else map_find x cbs) = Some (CbDevice p i)"
      if "map_find n v = Some (i, p, x)" for n i p x
      using that D(9) free(1) by auto
    show "n = n'" if "map_find n v = Some (i, p, x)" "map_find n' v = Some (i', p, x')" for n n' i i' p x x'
      using that by (rule D(10))
    show "p < k" if "map_find n v = Some (i, p, x)" for n i p x using that by (rule D(11))
    show "\<exists>n. (if n = name then Some fd else map_find n outs) = Some x"
      if "(if x = fd then Some CbOutput else map_find x cbs) = Some CbOutput" for x
    proof (cases "x = fd")
      case False
      with that D(12) obtain n where "map_find n outs = Some x" by auto
      with assms(3) show ?thesis by (intro exI [of _ n]) auto
    qed (intro exI [of _ name], simp)
    show "(if x = fd then Some CbOutput else map_find x cbs) = Some CbOutput"
      if "(if n = name then Some fd else map_find n outs) = Some x" for n x
      using that D(13) by (auto split: if_splits)
    show "n = n'" if "(if n = name then Some fd else map_find n outs) = Some x"
        "(if n' = name then Some fd else map_find n' outs) = Some x" for n n' x
      using that D(14) free(2) by (auto split: if_splits)
    show "(if x = fd then Some CbOutput else map_find x cbs) = Some CbClient \<longleftrightarrow> map_find x cl \<noteq> None" for x
      using D(15) free(3) by auto
    show "f = x" if "map_find x cl = Some f" for x f using that by (rule D(16))
    show "\<exists>n p x. map_find n v = Some (hk_device key, p, x)" if "key \<in> fst ` set hot" for key
      using that by (rule D(17))
  qed
qed

lemma registry_ok_client:
  assumes "registry_ok A (insert fd H) cbs v outs cl hot F k" and "fd \<notin> H"
  shows "registry_ok A H (map_set fd CbClient cbs) v outs (map_set fd fd cl) hot F k"
proof -
  note D = registry_okD [OF assms(1)]
  have none: "map_find fd cbs = None" and F: "0 \<le> fd" "fd \<in> F" using D(7) [of fd] by auto
  note free = registry_ok_free [OF assms(1) none]
  have c: "map_find x (map_set fd CbClient cbs) = (if x = fd then Some CbClient else map_find x cbs)" for x
    using D(1) by (rule std.find_put)
  have o: "map_find x (map_set fd fd cl) = (if x = fd then Some fd else map_find x cl)" for x
    using D(4) by (rule std.find_put)
  show ?thesis
  proof (rule registry_okI; (unfold c o)?)
    show "map_ok (map_set fd CbClient cbs)" "map_ok v" "map_ok outs" "map_ok (map_set fd fd cl)"
      using D(1-4) by (simp_all add: std.ok_put)
    show "A \<subseteq>\<^sub>m (\<lambda>x. if x = fd then Some CbClient else map_find x cbs)"
      using D(5) free(4) by (auto simp: map_le_def)
    show "0 \<le> x \<and> x \<in> F" if "(if x = fd then Some CbClient else map_find x cbs) = Some cb" for x cb
      using that D(6) [of x cb] F by (auto split: if_splits)
    show "0 \<le> x \<and> x \<in> F \<and> (if x = fd then Some CbClient else map_find x cbs) = None" if "x \<in> H" for x
      using that D(7) [of x] assms(2) by auto
    show "\<exists>n. map_find n v = Some (i, p, x)"
      if "(if x = fd then Some CbClient else map_find x cbs) = Some (CbDevice p i)" for x p i
      using that D(8) by (auto split: if_splits)
    show "(if x = fd then Some CbClient else map_find x cbs) = Some (CbDevice p i)"
      if "map_find n v = Some (i, p, x)" for n i p x
      using that D(9) free(1) by auto
    show "n = n'" if "map_find n v = Some (i, p, x)" "map_find n' v = Some (i', p, x')" for n n' i i' p x x'
      using that by (rule D(10))
    show "p < k" if "map_find n v = Some (i, p, x)" for n i p x using that by (rule D(11))
    show "\<exists>n. map_find n outs = Some x"
      if "(if x = fd then Some CbClient else map_find x cbs) = Some CbOutput" for x
      using that D(12) by (auto split: if_splits)
    show "(if x = fd then Some CbClient else map_find x cbs) = Some CbOutput" if "map_find n outs = Some x" for n x
      using that D(13) free(2) by auto
    show "n = n'" if "map_find n outs = Some x" "map_find n' outs = Some x" for n n' x
      using that by (rule D(14))
    show "(if x = fd then Some CbClient else map_find x cbs) = Some CbClient \<longleftrightarrow>
        (if x = fd then Some fd else map_find x cl) \<noteq> None" for x
      using D(15) by auto
    show "f = x" if "(if x = fd then Some fd else map_find x cl) = Some f" for x f
      using that D(16) by (auto split: if_splits)
    show "\<exists>n p x. map_find n v = Some (hk_device key, p, x)" if "key \<in> fst ` set hot" for key
      using that by (rule D(17))
  qed
qed

lemma registry_ok_device:
  assumes "registry_ok A (insert fd H) cbs v outs cl hot F k" and "fd \<notin> H"
    and new: "map_find name v = None" and "p < k"
    and ptr: "\<And>n i p' fd'. map_find n v = Some (i, p', fd') \<Longrightarrow> p' \<noteq> p"
  shows "registry_ok A H (map_set fd (CbDevice p i) cbs) (map_set name (i, p, fd) v) outs cl hot F k"
proof -
  note D = registry_okD [OF assms(1)]
  have none: "map_find fd cbs = None" and F: "0 \<le> fd" "fd \<in> F" using D(7) [of fd] by auto
  note free = registry_ok_free [OF assms(1) none]
  let ?c = "\<lambda>x. if x = fd then Some (CbDevice p i) else map_find x cbs"
  let ?o = "\<lambda>x. if x = name then Some (i, p, fd) else map_find x v"
  have c: "map_find x (map_set fd (CbDevice p i) cbs) = ?c x" for x using D(1) by (rule std.find_put)
  have o: "map_find x (map_set name (i, p, fd) v) = ?o x" for x using D(2) by (rule std.find_put)
  have keep: "?o n = Some r" if "map_find n v = Some r" for n r using that new by auto
  show ?thesis
  proof (rule registry_okI; (unfold c o)?)
    show "map_ok (map_set fd (CbDevice p i) cbs)" "map_ok (map_set name (i, p, fd) v)" "map_ok outs" "map_ok cl"
      using D(1-4) by (simp_all add: std.ok_put)
    show "A \<subseteq>\<^sub>m ?c"
      using D(5) free(4) by (auto simp: map_le_def)
    show "0 \<le> x \<and> x \<in> F" if "?c x = Some cb" for x cb
      using that D(6) [of x cb] F by (auto split: if_splits)
    show "0 \<le> x \<and> x \<in> F \<and> ?c x = None" if "x \<in> H" for x
      using that D(7) [of x] assms(2) by auto
    show "\<exists>n. ?o n = Some (i', p', x)" if "?c x = Some (CbDevice p' i')" for x p' i'
    proof (cases "x = fd")
      case True
      with that show ?thesis by (intro exI [of _ name]) simp
    next
      case False
      with that have "map_find x cbs = Some (CbDevice p' i')" by simp
      from D(8) [OF this] keep show ?thesis by blast
    qed
    show "?c x = Some (CbDevice p' i')" if "?o n = Some (i', p', x)" for n i' p' x
      using that D(9) free(1) by (auto split: if_splits)
    show "n = n'" if "?o n = Some (i1, p', x)" "?o n' = Some (i2, p', x')" for n n' i1 i2 p' x x'
    proof (cases "n = name"; cases "n' = name")
      assume "n \<noteq> name" "n' \<noteq> name"
      with that D(10) [of n i1 p' x n' i2 x'] show ?thesis by simp
    next
      assume "n = name" "n' \<noteq> name"
      with that ptr [of n' i2 p' x'] show ?thesis by simp
    next
      assume "n \<noteq> name" "n' = name"
      with that ptr [of n i1 p' x] show ?thesis by simp
    qed simp
    show "p' < k" if "?o n = Some (i', p', x)" for n i' p' x
      using that D(11) assms(4) by (auto split: if_splits)
    show "\<exists>n. map_find n outs = Some x" if "?c x = Some CbOutput" for x
      using that D(12) by (auto split: if_splits)
    show "?c x = Some CbOutput" if "map_find n outs = Some x" for n x
      using that D(13) free(2) by auto
    show "n = n'" if "map_find n outs = Some x" "map_find n' outs = Some x" for n n' x
      using that by (rule D(14))
    show "?c x = Some CbClient \<longleftrightarrow> map_find x cl \<noteq> None" for x
      using D(15) free(3) by auto
    show "f = x" if "map_find x cl = Some f" for x f using that by (rule D(16))
    show "\<exists>n p x. ?o n = Some (hk_device key, p, x)" if "key \<in> fst ` set hot" for key
      using D(17) [OF that] keep by blast
  qed
qed

lemma registry_ok_server:
  assumes "registry_ok A (insert fd H) cbs v outs cl hot F k" and "fd \<notin> H"
  shows "registry_ok A H (map_set fd CbServer cbs) v outs cl hot F k"
proof -
  note D = registry_okD [OF assms(1)]
  have none: "map_find fd cbs = None" and F: "0 \<le> fd" "fd \<in> F" using D(7) [of fd] by auto
  note free = registry_ok_free [OF assms(1) none]
  let ?c = "\<lambda>x. if x = fd then Some CbServer else map_find x cbs"
  have c: "map_find x (map_set fd CbServer cbs) = ?c x" for x using D(1) by (rule std.find_put)
  show ?thesis
  proof (rule registry_okI; (unfold c)?)
    show "map_ok (map_set fd CbServer cbs)" "map_ok v" "map_ok outs" "map_ok cl"
      using D(1-4) by (simp_all add: std.ok_put)
    show "A \<subseteq>\<^sub>m ?c" using D(5) free(4) by (auto simp: map_le_def)
    show "0 \<le> x \<and> x \<in> F" if "?c x = Some cb" for x cb
      using that D(6) [of x cb] F by (auto split: if_splits)
    show "0 \<le> x \<and> x \<in> F \<and> ?c x = None" if "x \<in> H" for x using that D(7) [of x] assms(2) by auto
    show "\<exists>n. map_find n v = Some (i, p, x)" if "?c x = Some (CbDevice p i)" for x p i
      using that D(8) by (auto split: if_splits)
    show "?c x = Some (CbDevice p i)" if "map_find n v = Some (i, p, x)" for n i p x
      using that D(9) free(1) by auto
    show "n = n'" if "map_find n v = Some (i, p, x)" "map_find n' v = Some (i', p, x')" for n n' i i' p x x'
      using that by (rule D(10))
    show "p < k" if "map_find n v = Some (i, p, x)" for n i p x using that by (rule D(11))
    show "\<exists>n. map_find n outs = Some x" if "?c x = Some CbOutput" for x
      using that D(12) by (auto split: if_splits)
    show "?c x = Some CbOutput" if "map_find n outs = Some x" for n x using that D(13) free(2) by auto
    show "n = n'" if "map_find n outs = Some x" "map_find n' outs = Some x" for n n' x using that by (rule D(14))
    show "?c x = Some CbClient \<longleftrightarrow> map_find x cl \<noteq> None" for x using D(15) free(3) by auto
    show "f = x" if "map_find x cl = Some f" for x f using that by (rule D(16))
    show "\<exists>n p x. map_find n v = Some (hk_device key, p, x)" if "key \<in> fst ` set hot" for key
      using that by (rule D(17))
  qed
qed

section \<open>Leaving the registry\<close>

text \<open>What the three removals share: the callback goes, and the descriptor is closed.\<close>

lemma erase_facts:
  fixes cbs :: "(int, FDCallbacks) std_map"
  assumes r: "registry_ok A H cbs v outs cl hot F k" and cb: "map_find fd cbs = Some cb"
  shows "map_ok (map_erase fd cbs)"
    and "A(fd := None) \<subseteq>\<^sub>m (\<lambda>x. if x = fd then None else map_find x cbs)"
    and "(if x = fd then None else map_find x cbs) = Some cb' \<Longrightarrow> 0 \<le> x \<and> x \<in> F - {fd}"
    and "x \<in> H \<Longrightarrow> 0 \<le> x \<and> x \<in> F - {fd} \<and> (if x = fd then None else map_find x cbs) = None"
proof -
  note D = registry_okD [OF r]
  show "map_ok (map_erase fd cbs)" using D(1) by (rule std.ok_erase)
  show "A(fd := None) \<subseteq>\<^sub>m (\<lambda>x. if x = fd then None else map_find x cbs)"
    using D(5) by (auto simp: map_le_def)
  show "(if x = fd then None else map_find x cbs) = Some cb' \<Longrightarrow> 0 \<le> x \<and> x \<in> F - {fd}"
    using D(6) [of x cb'] by (auto split: if_splits)
  show "x \<in> H \<Longrightarrow> 0 \<le> x \<and> x \<in> F - {fd} \<and> (if x = fd then None else map_find x cbs) = None"
    using D(7) [of x] cb by auto
qed

lemma registry_ok_client_gone:
  assumes r: "registry_ok A H cbs v outs cl hot F k" and cb: "map_find fd cbs = Some CbClient"
  shows "registry_ok (A(fd := None)) H (map_erase fd cbs) v outs (map_erase fd cl) hot (F - {fd}) k"
proof -
  note D = registry_okD [OF r]
  note E = erase_facts [OF r cb]
  let ?c = "\<lambda>x. if x = fd then None else map_find x cbs"
  have c: "map_find x (map_erase fd cbs) = ?c x" for x by (rule map_find_erase)
  have o: "map_find x (map_erase fd cl) = (if x = fd then None else map_find x cl)" for x by (rule map_find_erase)
  show ?thesis
  proof (rule registry_okI; (unfold c o)?)
    show "map_ok (map_erase fd cbs)" "map_ok v" "map_ok outs" "map_ok (map_erase fd cl)"
      using D(2-4) E(1) by (simp_all add: std.ok_erase)
    show "A(fd := None) \<subseteq>\<^sub>m ?c" by (rule E(2))
    show "0 \<le> x \<and> x \<in> F - {fd}" if "?c x = Some cb" for x cb using that by (rule E(3))
    show "0 \<le> x \<and> x \<in> F - {fd} \<and> ?c x = None" if "x \<in> H" for x using that by (rule E(4))
    show "\<exists>n. map_find n v = Some (i, p, x)" if "?c x = Some (CbDevice p i)" for x p i
      using that D(8) by (auto split: if_splits)
    show "?c x = Some (CbDevice p i)" if "map_find n v = Some (i, p, x)" for n i p x
      using D(9) [OF that] cb by auto
    show "n = n'" if "map_find n v = Some (i, p, x)" "map_find n' v = Some (i', p, x')" for n n' i i' p x x'
      using that by (rule D(10))
    show "p < k" if "map_find n v = Some (i, p, x)" for n i p x using that by (rule D(11))
    show "\<exists>n. map_find n outs = Some x" if "?c x = Some CbOutput" for x
      using that D(12) by (auto split: if_splits)
    show "?c x = Some CbOutput" if "map_find n outs = Some x" for n x
      using D(13) [OF that] cb by auto
    show "n = n'" if "map_find n outs = Some x" "map_find n' outs = Some x" for n n' x
      using that by (rule D(14))
    show "?c x = Some CbClient \<longleftrightarrow> (if x = fd then None else map_find x cl) \<noteq> None" for x
      using D(15) by auto
    show "f = x" if "(if x = fd then None else map_find x cl) = Some f" for x f
      using that D(16) by (auto split: if_splits)
    show "\<exists>n p x. map_find n v = Some (hk_device key, p, x)" if "key \<in> fst ` set hot" for key
      using that by (rule D(17))
  qed
qed

lemma registry_ok_output_gone:
  assumes r: "registry_ok A H cbs v outs cl hot F k" and cb: "map_find fd cbs = Some CbOutput"
    and name: "map_find name outs = Some fd"
  shows "registry_ok (A(fd := None)) H (map_erase fd cbs) v (map_erase name outs) cl hot (F - {fd}) k"
proof -
  note D = registry_okD [OF r]
  note E = erase_facts [OF r cb]
  let ?c = "\<lambda>x. if x = fd then None else map_find x cbs"
  let ?o = "\<lambda>x. if x = name then None else map_find x outs"
  have c: "map_find x (map_erase fd cbs) = ?c x" for x by (rule map_find_erase)
  have o: "map_find x (map_erase name outs) = ?o x" for x by (rule map_find_erase)
  show ?thesis
  proof (rule registry_okI; (unfold c o)?)
    show "map_ok (map_erase fd cbs)" "map_ok v" "map_ok (map_erase name outs)" "map_ok cl"
      using D(2-4) E(1) by (simp_all add: std.ok_erase)
    show "A(fd := None) \<subseteq>\<^sub>m ?c" by (rule E(2))
    show "0 \<le> x \<and> x \<in> F - {fd}" if "?c x = Some cb" for x cb using that by (rule E(3))
    show "0 \<le> x \<and> x \<in> F - {fd} \<and> ?c x = None" if "x \<in> H" for x using that by (rule E(4))
    show "\<exists>n. map_find n v = Some (i, p, x)" if "?c x = Some (CbDevice p i)" for x p i
      using that D(8) by (auto split: if_splits)
    show "?c x = Some (CbDevice p i)" if "map_find n v = Some (i, p, x)" for n i p x
      using D(9) [OF that] cb by auto
    show "n = n'" if "map_find n v = Some (i, p, x)" "map_find n' v = Some (i', p, x')" for n n' i i' p x x'
      using that by (rule D(10))
    show "p < k" if "map_find n v = Some (i, p, x)" for n i p x using that by (rule D(11))
    show "\<exists>n. ?o n = Some x" if "?c x = Some CbOutput" for x
    proof -
      from that have x: "x \<noteq> fd" and "map_find x cbs = Some CbOutput" by (auto split: if_splits)
      then obtain n where n: "map_find n outs = Some x" using D(12) by blast
      with x name have "n \<noteq> name" by auto
      with n show ?thesis by (intro exI [of _ n]) simp
    qed
    show "?c x = Some CbOutput" if "?o n = Some x" for n x
    proof -
      from that have n: "n \<noteq> name" "map_find n outs = Some x" by (auto split: if_splits)
      then have "x \<noteq> fd" using D(14) [of n fd name] name by auto
      with D(13) [OF n(2)] show ?thesis by simp
    qed
    show "n = n'" if "?o n = Some x" "?o n' = Some x" for n n' x
      using that by (auto split: if_splits intro: D(14))
    show "?c x = Some CbClient \<longleftrightarrow> map_find x cl \<noteq> None" for x
      using D(15) [of x] cb by auto
    show "f = x" if "map_find x cl = Some f" for x f using that by (rule D(16))
    show "\<exists>n p x. map_find n v = Some (hk_device key, p, x)" if "key \<in> fst ` set hot" for key
      using that by (rule D(17))
  qed
qed

text \<open>All hotkeys with the id of the device go with it.\<close>

lemma registry_ok_device_gone:
  assumes r: "registry_ok A H cbs v outs cl hot F k"
    and name: "map_find name v = Some (i, p, fd)"
    and hot': "\<And>key. key \<in> fst ` set hot' \<Longrightarrow> key \<in> fst ` set hot \<and> hk_device key \<noteq> i"
  shows "registry_ok (A(fd := None)) H (map_erase fd cbs) (map_erase name v) outs cl hot' (F - {fd}) k"
proof -
  note D = registry_okD [OF r]
  have cb: "map_find fd cbs = Some (CbDevice p i)" using name by (rule D(9))
  note E = erase_facts [OF r cb]
  let ?c = "\<lambda>x. if x = fd then None else map_find x cbs"
  let ?o = "\<lambda>x. if x = name then None else map_find x v"
  have c: "map_find x (map_erase fd cbs) = ?c x" for x by (rule map_find_erase)
  have o: "map_find x (map_erase name v) = ?o x" for x by (rule map_find_erase)
  show ?thesis
  proof (rule registry_okI; (unfold c o)?)
    show "map_ok (map_erase fd cbs)" "map_ok (map_erase name v)" "map_ok outs" "map_ok cl"
      using D(2-4) E(1) by (simp_all add: std.ok_erase)
    show "A(fd := None) \<subseteq>\<^sub>m ?c" by (rule E(2))
    show "0 \<le> x \<and> x \<in> F - {fd}" if "?c x = Some cb" for x cb using that by (rule E(3))
    show "0 \<le> x \<and> x \<in> F - {fd} \<and> ?c x = None" if "x \<in> H" for x using that by (rule E(4))
    show "\<exists>n. ?o n = Some (i', p', x)" if "?c x = Some (CbDevice p' i')" for x p' i'
    proof -
      from that have x: "x \<noteq> fd" and "map_find x cbs = Some (CbDevice p' i')" by (auto split: if_splits)
      then obtain n where n: "map_find n v = Some (i', p', x)" using D(8) by blast
      with x name have "n \<noteq> name" by auto
      with n show ?thesis by (intro exI [of _ n]) simp
    qed
    show "?c x = Some (CbDevice p' i')" if "?o n = Some (i', p', x)" for n i' p' x
    proof -
      from that have n: "n \<noteq> name" "map_find n v = Some (i', p', x)" by (auto split: if_splits)
      have "x \<noteq> fd"
      proof
        assume "x = fd"
        with D(9) [OF n(2)] cb have "p' = p" by simp
        with D(10) [OF n(2), of name i fd] name n(1) show False by simp
      qed
      with D(9) [OF n(2)] show ?thesis by simp
    qed
    show "n = n'" if "?o n = Some (i1, p', x)" "?o n' = Some (i2, p', x')" for n n' i1 i2 p' x x'
      using that by (auto split: if_splits intro: D(10))
    show "p' < k" if "?o n = Some (i', p', x)" for n i' p' x
      using that by (auto split: if_splits intro: D(11))
    show "\<exists>n. map_find n outs = Some x" if "?c x = Some CbOutput" for x
      using that D(12) by (auto split: if_splits)
    show "?c x = Some CbOutput" if "map_find n outs = Some x" for n x
      using D(13) [OF that] cb by auto
    show "n = n'" if "map_find n outs = Some x" "map_find n' outs = Some x" for n n' x
      using that by (rule D(14))
    show "?c x = Some CbClient \<longleftrightarrow> map_find x cl \<noteq> None" for x
      using D(15) [of x] cb by auto
    show "f = x" if "map_find x cl = Some f" for x f using that by (rule D(16))
    show "\<exists>n p x. ?o n = Some (hk_device key, p, x)" if "key \<in> fst ` set hot'" for key
    proof -
      from hot' [OF that] D(17) [of key] obtain n q x
        where n: "map_find n v = Some (hk_device key, q, x)" "hk_device key \<noteq> i" by blast
      with name have "n \<noteq> name" by auto
      with n show ?thesis by (intro exI [of _ n]) simp
    qed
  qed
qed

end
