(* ===== verification/DaemonSteps.thy ===== *)
theory DaemonSteps
  imports DaemonLoop Registry
begin

text \<open>
  What each operation of the daemon does to the registry: most leave it alone (\<open>inert\<close>);
  opening a descriptor puts it into the hands of the running function (\<open>held\<close>, \<open>owns\<close>),
  which closes it or enters it into the maps.
\<close>

section \<open>The registry of a state\<close>

text \<open>What the invariant needs of the inputs: name, id, pointer, descriptor.\<close>

definition in_view :: "dstate \<Rightarrow> view" where
  "in_view s = map (\<lambda>(n, i). (n, inp_id i, inp_ptr i, in_fd (device i))) (gInputs s)"

definition reg :: "(int \<rightharpoonup> FDCallbacks) \<Rightarrow> int set \<Rightarrow> dstate \<Rightarrow> bool" where
  "reg A H s \<longleftrightarrow> registry_ok A H (gFDCBs s) (in_view s) (gOutputs s) (gCommandClients s) (gHotkeys s)
     (fd_table (history s)) (next_ptr s) \<and> closes_ok (history s)"

text \<open>A program that leaves all of that alone.\<close>

type_synonym core = "(int, FDCallbacks) std_map \<times> view \<times> (string, int) std_map \<times> (int, int) std_map \<times>
  (HotkeyDef, string) std_map \<times> int set \<times> nat"

definition core_is :: "core \<Rightarrow> dstate \<Rightarrow> bool" where
  "core_is c s = (case c of (cbs, v, outs, cl, hot, F, k) \<Rightarrow>
     map_ok v \<and> gFDCBs s = cbs \<and> in_view s = v \<and> gOutputs s = outs \<and> gCommandClients s = cl \<and>
     gHotkeys s = hot \<and> fd_table (history s) = F \<and> k \<le> next_ptr s \<and> closes_ok (history s))"

definition inert :: "'a dprog \<Rightarrow> bool" where
  "inert m \<longleftrightarrow> (\<forall>c. keeps (core_is c) m)"

lemma map_ok_view: "map_ok (in_view s) \<longleftrightarrow> map_ok (gInputs s)"
proof -
  have "map fst (in_view s) = map fst (gInputs s)" by (simp add: in_view_def case_prod_beta)
  then show ?thesis by (simp add: map_ok_def)
qed

lemma find_view:
  "map_find n (in_view s) = map_option (\<lambda>i. (inp_id i, inp_ptr i, in_fd (device i))) (map_find n (gInputs s))"
proof -
  have "map_of (map (\<lambda>(n, i). (n, f i)) m) n = map_option f (map_of m n)" for f m
    by (induction m) auto
  then show ?thesis by (simp add: in_view_def map_find_def)
qed

lemma keeps_inert:
  assumes "inert m"
  shows "keeps (reg A H) m"
proof (rule keepsI)
  fix s assume r: "reg A H s"
  let ?c = "(gFDCBs s, in_view s, gOutputs s, gCommandClients s, gHotkeys s, fd_table (history s), next_ptr s)"
  have "core_is ?c s" using r by (simp add: core_is_def reg_def registry_ok_def)
  then have "core_is ?c (snd (m s))" using assms by (simp add: inert_def keeps_def)
  with r show "reg A H (snd (m s))"
    by (auto simp: core_is_def reg_def intro: registry_ok_ptr)
qed

section \<open>Inert programs\<close>

named_theorems inert_intro \<open>programs that leave the registry alone\<close>

lemma inert_basic [inert_intro]:
  "inert (ret x)" "inert (raise e)" "inert undef" "inert nofuel" "inert (getP f)"
  "inert (throw_msg msg)" "inert (throw_errno g msg err)"
  by (simp_all add: inert_def keeps_intro)

lemma inert_bind [inert_intro]: "inert m \<Longrightarrow> (\<And>x. inert (f x)) \<Longrightarrow> inert (bindP m f)"
  by (simp add: inert_def keeps_intro)

lemma inert_then [inert_intro]: "inert m \<Longrightarrow> inert n \<Longrightarrow> inert (thenP m n)"
  by (simp add: inert_def keeps_intro)

lemma inert_when [inert_intro]: "(b \<Longrightarrow> inert m) \<Longrightarrow> inert (whenP b m)"
  by (simp add: inert_def keeps_intro)

lemma inert_catch [inert_intro]: "inert m \<Longrightarrow> (\<And>e. inert (h e)) \<Longrightarrow> inert (catchP m h)"
  by (simp add: inert_def keeps_intro)

lemma inert_finally [inert_intro]: "inert m \<Longrightarrow> inert c \<Longrightarrow> inert (finallyP m c)"
  unfolding finallyP_def by (intro inert_intro)

lemma inert_for [inert_intro]: "(\<And>x. x \<in> set xs \<Longrightarrow> inert (f x)) \<Longrightarrow> inert (forP f xs)"
  by (simp add: inert_def keeps_intro)

lemma inert_case [inert_intro]:
  "(b \<Longrightarrow> inert m) \<Longrightarrow> (\<not> b \<Longrightarrow> inert n) \<Longrightarrow> inert (if b then m else n)"
  "(o1 = None \<Longrightarrow> inert m) \<Longrightarrow> (\<And>y. o1 = Some y \<Longrightarrow> inert (f y)) \<Longrightarrow>
   inert (case o1 of None \<Rightarrow> m | Some y \<Rightarrow> f y)"
  "(\<And>y. x = Inl y \<Longrightarrow> inert (g y)) \<Longrightarrow> (\<And>y. x = Inr y \<Longrightarrow> inert (h y)) \<Longrightarrow>
   inert (case x of Inl y \<Rightarrow> g y | Inr y \<Rightarrow> h y)"
  "(\<And>a b. z = (a, b) \<Longrightarrow> inert (k a b)) \<Longrightarrow> inert (case z of (a, b) \<Rightarrow> k a b)"
  "(p = Overflow \<Longrightarrow> inert m1) \<Longrightarrow> (p = Rejected \<Longrightarrow> inert m2) \<Longrightarrow> (\<And>y. p = Parsed y \<Longrightarrow> inert (l y)) \<Longrightarrow>
   inert (case p of Parsed y \<Rightarrow> l y | Rejected \<Rightarrow> m2 | Overflow \<Rightarrow> m1)"
  by (simp_all split: option.split sum.split prod.split parse.split)

lemma inert_modify [inert_intro]:
  assumes "\<And>s. gFDCBs (f s) = gFDCBs s" "\<And>s. gInputs (f s) = gInputs s" "\<And>s. gOutputs (f s) = gOutputs s"
    "\<And>s. gCommandClients (f s) = gCommandClients s" "\<And>s. gHotkeys (f s) = gHotkeys s"
    "\<And>s. history (f s) = history s" "\<And>s. next_ptr s \<le> next_ptr (f s)"
  shows "inert (modifyP f)"
  unfolding inert_def
  by (auto intro!: keeps_modify simp: core_is_def in_view_def assms
      intro: order_trans [OF _ assms(7)])

text \<open>Calls that neither open nor close a descriptor.\<close>

definition plain :: "call \<Rightarrow> bool" where
  "plain c \<longleftrightarrow> (case c of GotFd fd \<Rightarrow> False | Close fd \<Rightarrow> False | _ \<Rightarrow> True)"

lemma plain_calls [simp]:
  "plain (Write fd bs)" "plain (Ioctl fd req)" "plain (Query fd q)" "plain (SetEnv n v)"
  "plain (Stderr t)" "plain (Output t)" "plain (Fcntl fd t)" "plain (ReadEvent fd)" "plain (GetLine fd)"
  "plain (Exec t)" "plain (WaitPid pid)" "plain (Unlink t)" "plain (Open t)" "plain (Fopen t)" "plain NewSocket"
  "plain (Connect fd a)" "plain (Bind fd a)" "plain (Listen fd)" "plain (Accept fd)" "plain Pipe"
  "plain Fork" "plain (Poll fds)"
  by (simp_all add: plain_def)

lemma plain_step: "plain c \<Longrightarrow> fd_step F (c, r) = F" "plain c \<Longrightarrow> close_ok F (c, r)"
  by (auto simp: plain_def fd_step_def close_ok_def split: call.splits)

lemma close_step: "fd_step F (Close fd, r) = F - {fd}" "close_ok F (Close fd, r) \<longleftrightarrow> fd \<in> F"
  "fd_step F (GotFd fd, r) = insert fd F" "close_ok F (GotFd fd, r)"
  by (simp_all add: fd_step_def close_ok_def)

lemma log_dstate [simp]:
  "gFDCBs (log_call c r s) = gFDCBs s" "gInputs (log_call c r s) = gInputs s"
  "gOutputs (log_call c r s) = gOutputs s" "gCommandClients (log_call c r s) = gCommandClients s"
  "gHotkeys (log_call c r s) = gHotkeys s" "next_ptr (log_call c r s) = next_ptr s"
  "in_view (log_call c r s) = in_view s" "gServer (log_call c r s) = gServer s"
  by (simp_all add: log_call_def in_view_def)

lemma core_is_log: "plain c \<Longrightarrow> core_is k s \<Longrightarrow> core_is k (log_call c r s)"
  by (auto simp: core_is_def plain_step)

lemma inert_calls [inert_intro]:
  "plain c \<Longrightarrow> inert (do_call os c)" "plain c \<Longrightarrow> inert (do_query os c)" "plain c \<Longrightarrow> inert (do_event os c)"
  "plain c \<Longrightarrow> inert (do_ignore os c)" "plain c \<Longrightarrow> inert (do_line os c)"
  by (auto simp: inert_def intro!: keeps_logged core_is_log)

lemma inert_fork [inert_intro]: "inert (do_fork os)" "inert (do_poll os fds)"
  by (auto simp: inert_def keeps_def run_simps intro!: core_is_log)

section \<open>Operations that leave the registry alone\<close>

lemma inert_basic_ops [inert_intro]:
  "inert (removeFD fd)" "inert (addFD fd)" "inert (disconnectClient fd)" "inert (queueCommand c l)"
  "inert (removeOutput name)" "inert getNextInputID" "inert (freeInputID i)"
  "inert (tryHotkey dev type code v)"
  unfolding removeFD_def addFD_def disconnectClient_def queueCommand_def removeOutput_def
    getNextInputID_def freeInputID_def tryHotkey_def
  by (intro inert_intro; simp)+

lemma inert_output_ops [inert_intro]:
  "inert (writeToOutput os fd bs)" "inert (toClient os fd text)" "inert (readCommand os fd)"
  "inert (setEnvVar os name v)" "inert (mustWrite os fd bs)"
  unfolding writeToOutput_def toClient_def readCommand_def setEnvVar_def Let_def mustWrite_def
  by (intro inert_intro; simp)+

lemma inert_find [inert_intro]:
  "inert (findDevice name)" "inert (removeDevice name)" "inert (closeDevice p)" "inert (parse_hotkey def)"
  unfolding findDevice_def removeDevice_def closeDevice_def parse_hotkey_def Let_def
  by (intro inert_intro; simp)+

lemma inert_announce [inert_intro]:
  "inert (in_ctl os fd q msg)" "inert (writeHello os e fd)"
  unfolding in_ctl_def writeHello_def by (intro inert_intro; simp)+

lemma inert_write_entries [inert_intro]: "inert (write_entries os u e dfd fd evs entry absbits)"
proof (induction evs arbitrary: entry absbits)
  case (Cons ev evs)
  then show ?case unfolding write_entries.simps Let_def by (intro inert_intro)
qed (simp add: inert_intro)

lemma inert_announcing [inert_intro]:
  "inert (writeNE2AddDevice os u e d fd dev)" "inert (announceDevice os u e i fd)"
  "inert (announceDevice_all os u e i)" "inert (announceDeviceRemoval os e i)"
  unfolding writeNE2AddDevice_def write_axis_def announceDevice_def announceDevice_all_def
    announceDeviceRemoval_def
  by (intro inert_intro; simp)+

lemma inert_announce_until [inert_intro]: "inert (announce_until os u e fd ins)"
proof (induction ins)
  case (Cons x ins)
  then show ?case by (cases x) (auto intro: inert_intro)
qed (simp add: inert_intro)

lemma inert_announce_all [inert_intro]: "inert (announceAllDevices os u e fd)"
  unfolding announceAllDevices_def by (intro inert_intro)

text \<open>A method that keeps the descriptor of the object leaves the registry alone.\<close>

lemma keeps_get: "(\<And>s. I s \<Longrightarrow> keeps I (g (f s))) \<Longrightarrow> keeps I (bindP (getP f) g)"
  by (simp add: keeps_def run_simps)

lemma in_view_set:
  assumes "map_ok (gInputs s)" and "map_find name (gInputs s) = Some i"
    and "inp_id i' = inp_id i" "inp_ptr i' = inp_ptr i" "in_fd (device i') = in_fd (device i)"
  shows "map (\<lambda>(n, i). (n, inp_id i, inp_ptr i, in_fd (device i))) (map_set name i' (gInputs s)) = in_view s"
proof -
  let ?f = "\<lambda>i. (inp_id i, inp_ptr i, in_fd (device i))"
  have map: "map (\<lambda>(n, i). (n, ?f i)) (map_set name i' m) = map_set name (?f i') (map (\<lambda>(n, i). (n, ?f i)) m)" for m
    by (induction name i' m rule: map_set.induct) auto
  have "map_find name (in_view s) = Some (?f i')"
    using assms by (simp add: find_view)
  then have "map_set name (?f i') (in_view s) = in_view s"
    using assms(1) by (intro map_set_find_same) (simp_all add: map_ok_view)
  then show ?thesis using map by (simp add: in_view_def)
qed

lemma keeps_set_device:
  assumes "map_find name v = Some (i, p, in_fd d)"
  shows "keeps (core_is (cbs, v, outs, cl, hot, F, k)) (set_device name d)"
  unfolding set_device_def
proof (rule keeps_modify)
  fix s assume c: "core_is (cbs, v, outs, cl, hot, F, k) s"
  then have v: "in_view s = v" "map_ok (gInputs s)" by (auto simp: core_is_def map_ok_view [symmetric])
  with assms obtain inp where inp: "map_find name (gInputs s) = Some inp" "in_fd (device inp) = in_fd d"
    by (auto simp: find_view)
  have "in_view (s\<lparr>gInputs := map_set name (inp\<lparr>device := d\<rparr>) (gInputs s)\<rparr>) = v"
    using in_view_set [OF v(2) inp(1), of "inp\<lparr>device := d\<rparr>"] inp v(1) by (simp add: in_view_def)
  with c inp show "core_is (cbs, v, outs, cl, hot, F, k)
      (case map_find name (gInputs s) of None \<Rightarrow> s
       | Some i \<Rightarrow> s\<lparr>gInputs := map_set name (i\<lparr>device := d\<rparr>) (gInputs s)\<rparr>)"
    by (simp add: core_is_def)
qed

lemma inert_InDevice_grab [inert_intro]: "inert (InDevice_grab os on d)"
  unfolding InDevice_grab_def by (intro inert_intro; simp)

lemma inert_InDevice_read [inert_intro]: "inert (InDevice_read os pad d)"
  unfolding InDevice_read_def by (intro inert_intro; simp)

lemma returns_grab: "returns (\<lambda>d'. in_fd d' = in_fd d) (InDevice_grab os on d)"
  unfolding InDevice_grab_def by (intro returns_intro) simp_all

lemma returns_read: "returns (\<lambda>(r, d'). in_fd d' = in_fd d) (InDevice_read os pad d)"
  unfolding InDevice_read_def by (intro returns_intro) simp_all

lemma keeps_bind_ret:
  "keeps I m \<Longrightarrow> returns P m \<Longrightarrow> (\<And>x. P x \<Longrightarrow> keeps I (f x)) \<Longrightarrow> keeps I (bindP m f)"
  unfolding keeps_def returns_def run_bind by (fastforce split: prod.split outcome.split)

lemma inertD: "inert m \<Longrightarrow> keeps (core_is c) m"
  unfolding inert_def by blast

lemma inert_grab_all [inert_intro]: "inert (grab_all os on)"
  unfolding inert_def
proof
  fix c :: core
  obtain cbs v outs cl hot F k where c: "c = (cbs, v, outs, cl, hot, F, k)" by (cases c)
  show "keeps (core_is c) (grab_all os on)"
    unfolding grab_all_def
  proof (rule keeps_get)
    fix s0 assume s0: "core_is c s0"
    have "keeps (core_is c) (bindP (InDevice_grab os on (device i)) (set_device name))"
      if x: "(name, i) \<in> set (gInputs s0)" for name i
    proof (rule keeps_bind_ret [OF inertD [OF inert_InDevice_grab] returns_grab])
      fix d :: InDevice
      assume d: "in_fd d = in_fd (device i)"
      have "map_ok (gInputs s0)" using s0 by (auto simp: c core_is_def map_ok_view [symmetric])
      then have "map_find name (gInputs s0) = Some i" using x by (simp add: std.entries_find)
      then have "map_find name v = Some (inp_id i, inp_ptr i, in_fd d)"
        using s0 d by (auto simp: c core_is_def find_view [symmetric]) (simp add: find_view)
      then show "keeps (core_is c) (set_device name d)" unfolding c by (rule keeps_set_device)
    qed
    then show "keeps (core_is c) (forP (\<lambda>(name, i).
        bindP (InDevice_grab os on (device i)) (set_device name)) (gInputs s0))"
      by (intro keeps_for) auto
  qed
qed

lemma input_at_find:
  assumes "map_ok (gInputs s)" and "input_at p s = Some (name, i)"
  shows "map_find name (gInputs s) = Some i \<and> inp_ptr i = p"
proof -
  from assms(2) have "(name, i) \<in> set (gInputs s)" "inp_ptr i = p"
    by (auto simp: input_at_def find_Some_iff) (metis nth_mem)
  with assms(1) show ?thesis by (simp add: std.entries_find)
qed

lemma inert_read_event [inert_intro]: "inert (read_event os p)"
  unfolding inert_def
proof
  fix c :: core
  obtain cbs v outs cl hot F k where c: "c = (cbs, v, outs, cl, hot, F, k)" by (cases c)
  show "keeps (core_is c) (read_event os p)"
    unfolding read_event_def
  proof (rule keeps_get)
    fix s0 assume s0: "core_is c s0"
    show "keeps (core_is c) (case input_at p s0 of None \<Rightarrow> undef
       | Some (name, i) \<Rightarrow> bindP (InDevice_read os 0 (device i)) (\<lambda>(r, d).
           thenP (set_device name d) (case r of
              Inr (got, ev) \<Rightarrow> ret (if got then Some ev else None)
            | Inl (Some ex) \<Rightarrow> raise ex | Inl None \<Rightarrow> undef)))"
    proof (cases "input_at p s0")
      case None
      then show ?thesis by (simp add: keeps_intro)
    next
      case (Some x)
      obtain name i where x: "x = (name, i)" by (cases x)
      have "map_ok (gInputs s0)" using s0 by (auto simp: c core_is_def map_ok_view [symmetric])
      then have f: "map_find name (gInputs s0) = Some i" using Some input_at_find by (simp add: x)
      have "keeps (core_is c) (set_device name d)" if "in_fd d = in_fd (device i)" for d :: InDevice
        unfolding c
        by (rule keeps_set_device [of _ _ "inp_id i" "inp_ptr i"])
          (use s0 f that in \<open>auto simp: c core_is_def find_view [symmetric]\<close>, simp add: find_view)
      then show ?thesis
        unfolding Some x option.case prod.case
        by (intro keeps_bind_ret [OF inertD [OF inert_InDevice_read] returns_read])
          (auto intro!: keeps_intro split: sum.split option.split prod.split)
    qed
  qed
qed

section \<open>Opening and closing\<close>

text \<open>
  \<open>leads I J m\<close>: from a state with \<open>I\<close>, \<open>m\<close> ends in one with \<open>J\<close>, however it ends.
  \<open>held A H outs v\<close> also fixes the outputs and the inputs.
\<close>

definition leads :: "(dstate \<Rightarrow> bool) \<Rightarrow> (dstate \<Rightarrow> bool) \<Rightarrow> 'a dprog \<Rightarrow> bool" where
  "leads I J m \<longleftrightarrow> (\<forall>s. I s \<longrightarrow> J (snd (m s)))"

definition held :: "(int \<rightharpoonup> FDCallbacks) \<Rightarrow> int set \<Rightarrow> (string, int) std_map \<Rightarrow> view \<Rightarrow> dstate \<Rightarrow> bool" where
  "held A H outs v s \<longleftrightarrow> reg A H s \<and> gOutputs s = outs \<and> in_view s = v"

lemma leads_keeps: "leads I I m \<longleftrightarrow> keeps I m"
  by (simp add: leads_def keeps_def)

lemma leads_weaken: "keeps I m \<Longrightarrow> (\<And>s. I s \<Longrightarrow> J s) \<Longrightarrow> leads I J m"
  by (simp add: leads_def keeps_def)

lemma leads_bind:
  "keeps I m \<Longrightarrow> (\<And>s. I s \<Longrightarrow> J s) \<Longrightarrow> (\<And>x. leads I J (f x)) \<Longrightarrow> leads I J (bindP m f)"
  unfolding leads_def keeps_def run_bind
  by (fastforce split: prod.split outcome.split)

lemma leads_then: "keeps I m \<Longrightarrow> (\<And>s. I s \<Longrightarrow> J s) \<Longrightarrow> leads I J n \<Longrightarrow> leads I J (thenP m n)"
  unfolding thenP_def by (rule leads_bind)

lemma leads_then_keeps: "leads I J m \<Longrightarrow> keeps J n \<Longrightarrow> leads I J (thenP m n)"
  unfolding leads_def keeps_def run_bind
  by (fastforce split: prod.split outcome.split)

lemma leads_finally:
  assumes "keeps I m" and "\<And>s. I s \<Longrightarrow> J s" and "leads I J c"
  shows "leads I J (finallyP m c)"
proof -
  have "J (snd (finallyP m c s))" if I: "I s" for s
  proof -
    obtain r s' where m: "m s = (r, s')" by fastforce
    with assms(1) I have I': "I s'" by (metis keepsD)
    with assms(3) have "J (snd (c s'))" by (simp add: leads_def)
    with m I' assms(2) show ?thesis
      by (auto simp: run_finally run_simps split: outcome.split prod.split)
  qed
  then show ?thesis by (simp add: leads_def)
qed

lemma leads_catch:
  assumes "keeps I m" and "\<And>s. I s \<Longrightarrow> J s" and "\<And>e. leads I J (h e)"
  shows "leads I J (catchP m h)"
proof -
  have "J (snd (catchP m h s))" if I: "I s" for s
  proof -
    obtain r s' where m: "m s = (r, s')" by fastforce
    with assms(1) I have I': "I s'" by (metis keepsD)
    with m assms(2,3) show ?thesis
      by (auto simp: leads_def run_simps split: outcome.split)
  qed
  then show ?thesis by (simp add: leads_def)
qed

lemma keeps_held_inert: "inert m \<Longrightarrow> keeps (held A H outs v) m"
proof (rule keepsI)
  fix s assume i: "inert m" and h: "held A H outs v s"
  let ?c = "(gFDCBs s, in_view s, gOutputs s, gCommandClients s, gHotkeys s, fd_table (history s), next_ptr s)"
  have "core_is ?c s" using h by (auto simp: held_def core_is_def reg_def registry_ok_def)
  then have "core_is ?c (snd (m s))" using inertD [OF i] by (simp add: keeps_def)
  moreover have "reg A H (snd (m s))" using keeps_inert [OF i] h by (simp add: keeps_def held_def)
  ultimately show "held A H outs v (snd (m s))" using h by (simp add: held_def core_is_def)
qed

lemma keeps_from_held: "(\<And>outs v. leads (held A H outs v) (reg A H) m) \<Longrightarrow> keeps (reg A H) m"
  by (simp add: leads_def keeps_def held_def)

lemma held_reg: "held A H outs v s \<Longrightarrow> reg A H s"
  by (simp add: held_def)

lemma reg_drop: "reg A (insert fd H) s \<Longrightarrow> reg A H s"
  unfolding reg_def registry_ok_def by (elim conjE, intro conjI) (assumption | blast)+

lemma held_drop: "held A (insert fd H) outs v s \<Longrightarrow> held A H outs v s"
  unfolding held_def using reg_drop by blast

lemma held_open:
  assumes "fresh_fds os" and "held A H outs v s" and "os_open os (history s) c = Inr fd" and "plain c"
  shows "fd \<notin> H \<and> held A (insert fd H) outs v (log_call (GotFd fd) None (log_call c None s))"
proof -
  have "0 \<le> fd" "fd \<notin> fd_table (history s)" using assms(1,3) by (auto simp: fresh_fds_def)
  then show ?thesis
    using registry_ok_open assms(2) unfolding held_def reg_def by (auto simp: plain_step [OF assms(4)] close_step)
qed

lemma held_close:
  assumes "held A (insert fd H) outs v s" and "fd \<notin> H"
  shows "held A H outs v (log_call (Close fd) r s)"
proof -
  have "fd \<in> fd_table (history s)" using assms(1) by (auto simp: held_def reg_def dest: registry_okD(7))
  with registry_ok_close [OF _ assms(2)] assms(1) show ?thesis unfolding held_def reg_def by (auto simp: close_step)
qed

lemma leads_close: "fd \<notin> H \<Longrightarrow> leads (held A (insert fd H) outs v) (held A H outs v) (do_ignore os (Close fd))"
  by (simp add: leads_def run_simps held_close)

text \<open>A program that returns a new descriptor, which the caller then holds.\<close>

definition yields :: "int dprog \<Rightarrow> bool" where
  "yields m \<longleftrightarrow> (\<forall>A H outs v s. held A H outs v s \<longrightarrow>
     (case m s of
        (Ret fd, s') \<Rightarrow> fd \<notin> H \<and> held A (insert fd H) outs v s'
      | (_, s') \<Rightarrow> held A H outs v s'))"

lemma leads_yields:
  assumes "yields m" and "\<And>fd. fd \<notin> H \<Longrightarrow> leads (held A (insert fd H) outs v) J (f fd)"
    and "\<And>s. held A H outs v s \<Longrightarrow> J s"
  shows "leads (held A H outs v) J (bindP m f)"
  unfolding leads_def
proof (intro allI impI)
  fix s assume "held A H outs v s"
  then have "case m s of (Ret fd, s') \<Rightarrow> fd \<notin> H \<and> held A (insert fd H) outs v s'
      | (_, s') \<Rightarrow> held A H outs v s'"
    by (rule assms(1) [unfolded yields_def, rule_format])
  then show "J (snd (bindP m f s))"
    using assms(2,3) by (auto simp: run_simps leads_def split: prod.splits outcome.splits)
qed

lemma leads_open:
  assumes "fresh_fds os" and "plain c" and "\<And>err. leads (held A H outs v) J (f (Inl err))"
    and "\<And>fd. fd \<notin> H \<Longrightarrow> leads (held A (insert fd H) outs v) J (f (Inr fd))"
  shows "leads (held A H outs v) J (bindP (do_open os c) f)"
  unfolding leads_def
proof (intro allI impI)
  fix s assume h: "held A H outs v s"
  show "J (snd (bindP (do_open os c) f s))"
  proof (cases "os_open os (history s) c")
    case (Inl err)
    have "held A H outs v (log_call c (Some err) s)"
      using h by (auto simp: held_def reg_def plain_step [OF assms(2)])
    with Inl assms(3) show ?thesis by (simp add: run_simps log_open_def leads_def)
  next
    case (Inr fd)
    with held_open [OF assms(1) h Inr assms(2)] assms(4) show ?thesis
      by (simp add: run_simps log_open_def leads_def)
  qed
qed

lemma leads_case_option:
  "(x = None \<Longrightarrow> leads I J m) \<Longrightarrow> (\<And>y. x = Some y \<Longrightarrow> leads I J (f y)) \<Longrightarrow>
   leads I J (case x of None \<Rightarrow> m | Some y \<Rightarrow> f y)"
  by (cases x) auto

text \<open>\<open>owns G m\<close>: \<open>m\<close> starts with the descriptors \<open>G\<close> in its hands and returns one of its own.\<close>

definition owns :: "int set \<Rightarrow> int dprog \<Rightarrow> bool" where
  "owns G m \<longleftrightarrow> (\<forall>A H outs v s. G \<inter> H = {} \<longrightarrow> held A (G \<union> H) outs v s \<longrightarrow>
     (case m s of
        (Ret fd, s') \<Rightarrow> fd \<notin> H \<and> held A (insert fd H) outs v s'
      | (_, s') \<Rightarrow> held A H outs v s'))"

lemma yields_owns: "owns {} m \<Longrightarrow> yields m"
  by (simp add: owns_def yields_def)

lemma reg_mono: "reg A H' s \<Longrightarrow> H \<subseteq> H' \<Longrightarrow> reg A H s"
  unfolding reg_def registry_ok_def by (elim conjE, intro conjI) (assumption | blast)+

lemma held_mono: "held A H' outs v s \<Longrightarrow> H \<subseteq> H' \<Longrightarrow> held A H outs v s"
  unfolding held_def using reg_mono by blast

lemma owns_ret: "fd \<in> G \<Longrightarrow> owns G (ret fd)"
  by (auto simp: owns_def run_simps elim: held_mono)

lemma owns_fails:
  assumes "inert m" and "returns (\<lambda>_. False) m"
  shows "owns G m"
  unfolding owns_def
proof (intro allI impI)
  fix A H outs v s
  assume h: "held A (G \<union> H) outs v s"
  obtain r s' where m: "m s = (r, s')" by fastforce
  have "held A (G \<union> H) outs v s'" using keeps_held_inert [OF assms(1)] h m by (metis keepsD)
  then have "held A H outs v s'" by (rule held_mono) simp
  moreover have "r \<noteq> Ret x" for x using assms(2) m by (auto dest: returnsD)
  ultimately show "case m s of (Ret fd, s') \<Rightarrow> fd \<notin> H \<and> held A (insert fd H) outs v s'
      | (_, s') \<Rightarrow> held A H outs v s'"
    by (simp add: m split: outcome.split)
qed

lemma owns_bind:
  assumes "inert m" and "\<And>x. owns G (f x)"
  shows "owns G (bindP m f)"
  unfolding owns_def
proof (intro allI impI)
  fix A H outs v s
  assume disj: "G \<inter> H = {}" and h: "held A (G \<union> H) outs v s"
  obtain r s' where m: "m s = (r, s')" by fastforce
  have s': "held A (G \<union> H) outs v s'" using keeps_held_inert [OF assms(1)] h m by (metis keepsD)
  then have "held A H outs v s'" by (rule held_mono) simp
  then show "case bindP m f s of (Ret fd, s') \<Rightarrow> fd \<notin> H \<and> held A (insert fd H) outs v s'
      | (_, s') \<Rightarrow> held A H outs v s'"
    using assms(2) [unfolded owns_def, rule_format, OF disj s']
    by (cases r) (simp_all add: m run_simps)
qed

lemma owns_then: "inert m \<Longrightarrow> owns G n \<Longrightarrow> owns G (thenP m n)"
  unfolding thenP_def by (rule owns_bind)

lemma owns_close:
  assumes "fd \<in> G" and "owns (G - {fd}) m"
  shows "owns G (thenP (do_ignore os (Close fd)) m)"
  unfolding owns_def
proof (intro allI impI)
  fix A H outs v s
  assume disj: "G \<inter> H = {}" and h: "held A (G \<union> H) outs v s"
  have "G \<union> H = insert fd (G - {fd} \<union> H)" and "fd \<notin> G - {fd} \<union> H" using assms(1) disj by auto
  with h have "held A (G - {fd} \<union> H) outs v (log_call (Close fd) (os_call os (history s) (Close fd)) s)"
    using held_close by metis
  moreover have "(G - {fd}) \<inter> H = {}" using disj by auto
  ultimately show "case thenP (do_ignore os (Close fd)) m s of
      (Ret fd, s') \<Rightarrow> fd \<notin> H \<and> held A (insert fd H) outs v s' | (_, s') \<Rightarrow> held A H outs v s'"
    using assms(2) [unfolded owns_def, rule_format] by (simp add: run_simps)
qed

lemma owns_open:
  assumes "fresh_fds os" and "plain c" and "\<And>err. owns G (f (Inl err))" and "\<And>fd. owns (insert fd G) (f (Inr fd))"
  shows "owns G (bindP (do_open os c) f)"
  unfolding owns_def
proof (intro allI impI)
  fix A H outs v s
  assume disj: "G \<inter> H = {}" and h: "held A (G \<union> H) outs v s"
  show "case bindP (do_open os c) f s of (Ret fd, s') \<Rightarrow> fd \<notin> H \<and> held A (insert fd H) outs v s'
      | (_, s') \<Rightarrow> held A H outs v s'"
  proof (cases "os_open os (history s) c")
    case (Inl err)
    have "held A (G \<union> H) outs v (log_call c (Some err) s)"
      using h by (auto simp: held_def reg_def plain_step [OF assms(2)])
    with assms(3) [unfolded owns_def, rule_format, OF disj] Inl show ?thesis
      by (simp add: run_simps log_open_def)
  next
    case (Inr fd)
    let ?s = "log_call (GotFd fd) None (log_call c None s)"
    from held_open [OF assms(1) h Inr assms(2)]
    have fd: "fd \<notin> G \<union> H" and s: "held A (insert fd G \<union> H) outs v ?s" by simp_all
    have disj': "insert fd G \<inter> H = {}" using disj fd by auto
    from assms(4) [unfolded owns_def, rule_format, OF disj' s] Inr show ?thesis
      by (simp add: run_simps log_open_def)
  qed
qed

lemma owns_case:
  "(\<And>y. x = Inl y \<Longrightarrow> owns G (g y)) \<Longrightarrow> (\<And>y. x = Inr y \<Longrightarrow> owns G (h y)) \<Longrightarrow>
   owns G (case x of Inl y \<Rightarrow> g y | Inr y \<Rightarrow> h y)"
  "(o1 = None \<Longrightarrow> owns G m) \<Longrightarrow> (\<And>y. o1 = Some y \<Longrightarrow> owns G (f y)) \<Longrightarrow>
   owns G (case o1 of None \<Rightarrow> m | Some y \<Rightarrow> f y)"
  "(b \<Longrightarrow> owns G m) \<Longrightarrow> (\<not> b \<Longrightarrow> owns G m') \<Longrightarrow> owns G (if b then m else m')"
  by (simp_all split: sum.split option.split)

lemma owns_throw: "owns G (throw_errno g msg err)" "owns G (raise ex)" "owns G undef"
  by (auto intro!: owns_fails inert_intro returns_intro)

lemma yields_addOutput_Open: "fresh_fds os \<Longrightarrow> yields (addOutput_Open os path)"
  unfolding addOutput_Open_def
  by (rule yields_owns, rule owns_open)
    (auto intro!: owns_case owns_throw owns_bind owns_close owns_ret inert_intro)

lemma held_pipe:
  assumes "fresh_fds os" and "held A H outs v s" and "os_pipe os (history s) = Inr (rd, wr)"
  shows "rd \<notin> H \<and> wr \<notin> insert rd H \<and> held A (insert wr (insert rd H)) outs v (log_pipe (Inr (rd, wr)) s)"
proof -
  have fds: "0 \<le> rd" "0 \<le> wr" "rd \<noteq> wr" "rd \<notin> fd_table (history s)" "wr \<notin> fd_table (history s)"
    using assms(1,3) by (auto simp: fresh_fds_def)
  have r: "registry_ok A H (gFDCBs s) v outs (gCommandClients s) (gHotkeys s) (fd_table (history s)) (next_ptr s)"
    using assms(2) by (auto simp: held_def reg_def)
  moreover note rd = registry_ok_open [OF r fds(1,4)]
  moreover have "wr \<notin> insert rd (fd_table (history s))" using fds by simp
  moreover note registry_ok_open [OF conjunct2 [OF rd] fds(2) this]
  ultimately show ?thesis using assms(2)
    by (simp add: held_def reg_def log_pipe_def close_step plain_step)
qed

lemma owns_pipe:
  assumes "fresh_fds os" and "\<And>err. owns {} (f (Inl err))"
    and "\<And>rd wr. rd \<noteq> wr \<Longrightarrow> owns {wr, rd} (f (Inr (rd, wr)))"
  shows "owns {} (bindP (do_pipe os) f)"
  unfolding owns_def
proof (intro allI impI)
  fix A H outs v s
  assume h0: "held A ({} \<union> H) outs v s"
  then have h: "held A H outs v s" by simp
  show "case bindP (do_pipe os) f s of (Ret fd, s') \<Rightarrow> fd \<notin> H \<and> held A (insert fd H) outs v s'
      | (_, s') \<Rightarrow> held A H outs v s'"
  proof (cases "os_pipe os (history s)")
    case (Inl err)
    have "held A ({} \<union> H) outs v (log_call Pipe (Some err) s)"
      using h by (auto simp: held_def reg_def plain_step)
    with assms(2) [unfolded owns_def, rule_format, of H] Inl show ?thesis
      by (simp add: run_simps log_pipe_def)
  next
    case (Inr p)
    obtain rd wr where p: "p = (rd, wr)" by (cases p)
    from held_pipe [OF assms(1) h] Inr p
    have n: "rd \<notin> H" "wr \<notin> insert rd H" and s: "held A ({wr, rd} \<union> H) outs v (log_pipe (Inr (rd, wr)) s)"
      by auto
    have disj: "{wr, rd} \<inter> H = {}" and "rd \<noteq> wr" using n by auto
    from assms(3) [OF this(2), unfolded owns_def, rule_format, OF disj s] Inr p show ?thesis
      by (simp add: run_simps)
  qed
qed

lemma yields_addOutput_Exec: "fresh_fds os \<Longrightarrow> yields (addOutput_Exec os path)"
  unfolding addOutput_Exec_def
  by (rule yields_owns, rule owns_pipe)
    (auto intro!: owns_case owns_throw owns_bind owns_then owns_close owns_ret inert_intro)

text \<open>The temporary \<open>Socket\<close> of \<open>addOutput_Unix\<close>.\<close>

definition owns_sock :: "(int \<rightharpoonup> FDCallbacks) \<Rightarrow> int set \<Rightarrow> (string, int) std_map \<Rightarrow> view \<Rightarrow> dstate \<times> Socket \<Rightarrow> bool" where
  "owns_sock A H outs v x = (case x of (s, so) \<Rightarrow>
     (if sock_fd so = - 1 then held A H outs v s
      else sock_fd so \<notin> H \<and> held A (insert (sock_fd so) H) outs v s))"

lemma keeps_lift: "(\<And>so. keeps (\<lambda>s. I (s, so)) m) \<Longrightarrow> keeps I (lift_world m)"
  by (force simp: keeps_def lift_world_def split: prod.split)

lemma keeps_obj: "keeps I (obj f)"
  by (simp add: keeps_def obj_def run_simps split_paired_all)

lemma keeps_set_obj: "(\<And>s so. I (s, so) \<Longrightarrow> I (s, f so)) \<Longrightarrow> keeps I (set_obj f)"
  by (auto simp: keeps_def set_obj_def run_simps)

lemma owns_sock_inert:
  assumes "inert m"
  shows "keeps (owns_sock A H outs v) (lift_world m)"
proof (rule keeps_lift)
  fix so
  show "keeps (\<lambda>s. owns_sock A H outs v (s, so)) m"
    using keeps_held_inert [OF assms] by (auto simp: owns_sock_def keeps_def)
qed

lemma keeps_Socket_close: "keeps (owns_sock A H outs v) (Socket_close os)"
proof (rule keepsI)
  fix x assume x: "owns_sock A H outs v x"
  obtain s so where xs: "x = (s, so)" by (cases x)
  show "owns_sock A H outs v (snd (Socket_close os x))"
  proof (cases "sock_fd so = - 1")
    case True
    with x xs show ?thesis by (simp add: Socket_close_def run_simps)
  next
    case False
    with x xs have "held A H outs v (log_call (Close (sock_fd so)) (os_call os (history s) (Close (sock_fd so))) s)"
      by (auto simp: owns_sock_def intro: held_close)
    then have closed: "owns_sock A H outs v
        (log_call (Close (sock_fd so)) (os_call os (history s) (Close (sock_fd so))) s, so\<lparr>sock_fd := - 1\<rparr>)"
      by (simp add: owns_sock_def)
    have "keeps (owns_sock A H outs v) (whenP (sock_path so \<noteq> [])
         (thenP (whenP (unlink_on_close so)
           (thenP (set_obj (\<lambda>so. so\<lparr>unlink_on_close := False\<rparr>))
             (lift_world (do_ignore os (Unlink (cstr (sock_path so)))))))
         (set_obj (\<lambda>so. so\<lparr>sock_path := []\<rparr>))))"
      by (intro keeps_intro keeps_set_obj owns_sock_inert inert_intro) (auto simp: owns_sock_def)
    from this closed xs False show ?thesis
      by (simp add: Socket_close_def run_simps keeps_def)
  qed
qed

lemma Socket_close_returns: "\<exists>s so. Socket_close os x = (Ret (), (s, so)) \<and> sock_fd so = - 1"
  by (cases x) (auto simp: Socket_close_def run_simps whenP_def)

lemma Socket_close_none: "sock_fd so = - 1 \<Longrightarrow> Socket_close os (s, so) = (Ret (), (s, so))"
  by (simp add: Socket_close_def run_simps)

lemma keeps_openUnixStream:
  assumes "fresh_fds os"
  shows "keeps (owns_sock A H outs v) (openUnixStream os)"
  unfolding openUnixStream_def
proof (rule keepsI)
  fix x assume x: "owns_sock A H outs v x"
  obtain s so where c: "Socket_close os x = (Ret (), (s, so))" and fd: "sock_fd so = - 1"
    using Socket_close_returns by metis
  have x1: "owns_sock A H outs v (s, so)" using keepsD [OF keeps_Socket_close x c] .
  with fd have h: "held A H outs v s" by (simp add: owns_sock_def)
  let ?rest = "bindP (lift_world (do_open os NewSocket)) (\<lambda>r. case r of
        Inr fd \<Rightarrow> set_obj (\<lambda>so. so\<lparr>sock_fd := fd\<rparr>)
      | Inl err \<Rightarrow> thenP (set_obj (\<lambda>so. so\<lparr>sock_fd := - 1\<rparr>))
          (throw_errno (os_strerror os) ''failed to open socket'' err))"
  have "owns_sock A H outs v (snd (?rest (s, so)))"
  proof (cases "os_open os (history s) NewSocket")
    case (Inl err)
    have "held A H outs v (log_call NewSocket (Some err) s)"
      using h by (auto simp: held_def reg_def plain_step)
    with Inl show ?thesis by (simp add: run_simps run_throw_errno log_open_def owns_sock_def)
  next
    case (Inr fd)
    with held_open [OF assms h Inr] have "fd \<notin> H \<and>
        held A (insert fd H) outs v (log_call (GotFd fd) None (log_call NewSocket None s))" by simp
    moreover have "fd \<noteq> - 1" using Inr assms by (force simp: fresh_fds_def)
    ultimately show ?thesis using Inr by (simp add: run_simps log_open_def owns_sock_def)
  qed
  with c fd show "owns_sock A H outs v (snd (thenP (Socket_close os) ?rest x))"
    by (simp add: run_simps)
qed

lemma keeps_connectUnix:
  assumes "fresh_fds os"
  shows "keeps (owns_sock A H outs v) (connectUnix os junk abstract p)"
  unfolding connectUnix_def
  by (intro keeps_intro keeps_openUnixStream [OF assms] keeps_obj keeps_set_obj owns_sock_inert inert_intro)
    (auto simp: owns_sock_def)

lemma openUnixStream_fd:
  assumes "fresh_fds os" and "openUnixStream os x = (Ret u, y)"
  shows "sock_fd (snd y) \<noteq> - 1"
proof -
  obtain s so where c: "Socket_close os x = (Ret (), (s, so))" using Socket_close_returns by metis
  have "0 \<le> fd" if "os_open os h q = Inr fd" for h q fd using assms(1) that by (auto simp: fresh_fds_def)
  from this [of "history s" NewSocket] assms(2) c show ?thesis
    by (auto simp: openUnixStream_def run_simps run_throw_errno split: sum.splits)
qed

lemma thenP_establishes:
  assumes "thenP m n x = (Ret u, y)" and "\<And>z u. m x = (Ret u, z) \<Longrightarrow> I z" and "keeps I n"
  shows "I y"
proof -
  obtain z u' where "m x = (Ret u', z)" "n z = (Ret u, y)"
    using assms(1) by (auto simp: run_simps split: prod.splits outcome.splits)
  with assms(2,3) show ?thesis by (metis keepsD)
qed

lemma connect_to_fd:
  assumes "fresh_fds os" and "connect_to os junk path x = (Ret u, y)"
  shows "sock_fd (snd y) \<noteq> - 1"
proof -
  have "sock_fd (snd y) \<noteq> - 1" if "connectUnix os junk abstract p x = (Ret u, y)" for abstract p
    using that unfolding connectUnix_def
  proof (rule thenP_establishes)
    show "sock_fd (snd z) \<noteq> - 1" if "openUnixStream os x = (Ret u, z)" for z u
      using assms(1) that by (rule openUnixStream_fd)
  qed (intro keeps_intro keeps_obj keeps_set_obj keeps_lift; simp add: keeps_def ignores_history_def)
  with assms(2) show ?thesis by (auto simp: connect_to_def split: if_splits)
qed

lemma yields_addOutput_Unix:
  assumes "fresh_fds os"
  shows "yields (addOutput_Unix os junk path)"
  unfolding yields_def
proof (intro allI impI)
  fix A H outs v s
  assume "held A H outs v s"
  then have init: "owns_sock A H outs v (s, Socket_new)" by (simp add: owns_sock_def Socket_new_def)
  obtain r s1 so where c: "connect_to os junk path (s, Socket_new) = (r, (s1, so))" by (metis prod.exhaust)
  have "keeps (owns_sock A H outs v) (connect_to os junk path)"
    unfolding connect_to_def by (intro keeps_intro keeps_connectUnix [OF assms])
  from keepsD [OF this init c] have o: "owns_sock A H outs v (s1, so)" .
  show "case addOutput_Unix os junk path s of (Ret fd, s') \<Rightarrow> fd \<notin> H \<and> held A (insert fd H) outs v s'
      | (_, s') \<Rightarrow> held A H outs v s'"
  proof (cases r)
    case (Ret u)
    with connect_to_fd [OF assms] c have fd: "sock_fd so \<noteq> - 1" by fastforce
    have "addOutput_Unix os junk path s = (Ret (sock_fd so), s1)"
      using c Ret by (simp add: addOutput_Unix_def finallyP_def Socket_release_def run_simps Socket_close_none)
    with o fd show ?thesis by (simp add: owns_sock_def)
  next
    case (Throw ex)
    obtain s2 so2 where d: "Socket_close os (s1, so) = (Ret (), (s2, so2))" and fd: "sock_fd so2 = - 1"
      using Socket_close_returns by metis
    have "addOutput_Unix os junk path s = (Throw ex, s2)"
      using c Throw d by (simp add: addOutput_Unix_def finallyP_def run_simps)
    with keepsD [OF keeps_Socket_close o d] fd show ?thesis by (simp add: owns_sock_def)
  next
    case Undef
    with o c show ?thesis
      by (auto simp: addOutput_Unix_def run_simps finallyP_def owns_sock_def split: if_splits elim: held_mono)
  next
    case NoFuel
    with o c show ?thesis
      by (auto simp: addOutput_Unix_def run_simps finallyP_def owns_sock_def split: if_splits elim: held_mono)
  qed
qed

lemma yields_addOutput_path: "fresh_fds os \<Longrightarrow> yields (addOutput_path os junk path)"
  by (simp add: addOutput_path_def yields_addOutput_Exec yields_addOutput_Unix yields_addOutput_Open)

section \<open>The registry is kept\<close>

text \<open>
  Programs that start from \<open>held\<close>: the first part does nothing to the registry, and a
  descriptor in hand is closed if it throws.
\<close>

lemma leads_guarded:
  assumes "inert m" and "fd \<notin> H"
    and "\<And>x. leads (held A (insert fd H) outs v) (reg A H) (f x)"
  shows "leads (held A (insert fd H) outs v) (reg A H)
    (bindP (catchP m (\<lambda>ex. thenP (do_ignore os (Close fd)) (raise ex))) f)"
  unfolding leads_def
proof (intro allI impI)
  fix s assume h: "held A (insert fd H) outs v s"
  obtain r s1 where m: "m s = (r, s1)" by fastforce
  have h1: "held A (insert fd H) outs v s1" using keeps_held_inert [OF assms(1)] h m by (metis keepsD)
  have closed: "reg A H (log_call (Close fd) q s1)" for q
    using held_close [OF h1 assms(2)] by (rule held_reg)
  have "reg A H s1" using held_drop [OF h1] by (rule held_reg)
  with m h1 closed assms(3) show "reg A H (snd (bindP (catchP m (\<lambda>ex. thenP (do_ignore os (Close fd)) (raise ex))) f s))"
    by (cases r) (simp_all add: run_simps leads_def)
qed

lemma leads_modify: "(\<And>s. I s \<Longrightarrow> J (f s)) \<Longrightarrow> leads I J (modifyP f)"
  by (simp add: leads_def run_simps)

lemma leads_addOutput_Finish:
  assumes "map_find name outs = None" and "fd \<notin> H"
  shows "leads (held A (insert fd H) outs v) (reg A H) (addOutput_Finish os u e name fd skip)"
  unfolding addOutput_Finish_def thenP_def [of "catchP m h" n for m h n]
proof (rule leads_guarded)
  show "inert (thenP (writeHello os e fd) (whenP (\<not> skip) (announceAllDevices os u e fd)))"
    by (intro inert_intro)
  show "leads (held A (insert fd H) outs v) (reg A H)
      (modifyP (\<lambda>s. s\<lparr>gOutputs := map_emplace name fd (gOutputs s), gFDCBs := map_emplace fd CbOutput (gFDCBs s)\<rparr>))"
    for x :: unit
  proof (rule leads_modify)
    fix s assume h: "held A (insert fd H) outs v s"
    then have "registry_ok A (insert fd H) (gFDCBs s) v outs (gCommandClients s) (gHotkeys s)
        (fd_table (history s)) (next_ptr s)"
      by (auto simp: held_def reg_def)
    from registry_ok_output [OF this assms(2,1)] h
    show "reg A H (s\<lparr>gOutputs := map_emplace name fd (gOutputs s), gFDCBs := map_emplace fd CbOutput (gFDCBs s)\<rparr>)"
      by (simp add: held_def reg_def in_view_def)
  qed
qed (rule assms(2))

lemma leads_get:
  assumes "\<And>s. I s \<Longrightarrow> leads I J (g (f s))"
  shows "leads I J (bindP (getP f) g)"
  using assms by (simp add: leads_def run_simps)

lemma keeps_addOutput_named:
  assumes "fresh_fds os"
  shows "keeps (reg A H) (addOutput_named os u e junk name path skip)"
proof (rule keeps_from_held)
  fix outs v
  show "leads (held A H outs v) (reg A H) (addOutput_named os u e junk name path skip)"
    unfolding addOutput_named_def
  proof (rule leads_get)
    fix s assume s: "held A H outs v s"
    show "leads (held A H outs v) (reg A H)
      (if map_find name (gOutputs s) \<noteq> None then throw_msg (''output already exists: '' @ cstr name)
       else bindP (addOutput_path os junk path) (\<lambda>fd. addOutput_Finish os u e name fd skip))"
    proof (cases "map_find name (gOutputs s)")
      case None
      with s have "map_find name outs = None" by (simp add: held_def)
      with None show ?thesis
        by (auto intro!: leads_yields [OF yields_addOutput_path [OF assms]] leads_addOutput_Finish elim: held_reg)
    next
      case (Some fd)
      then show ?thesis
        by (auto intro!: leads_weaken keeps_held_inert inert_intro elim: held_reg)
    qed
  qed
qed

text \<open>A new client: accepted, then registered, or closed.\<close>

lemma keeps_newCommandClient:
  assumes "fresh_fds os"
  shows "keeps (reg A H) (newCommandClient os)"
proof (rule keepsI)
  fix s assume r: "reg A H s"
  let ?rest = "\<lambda>fd. bindP (do_call os (Fcntl fd ''fdopen'')) (\<lambda>r. case r of
       Some err \<Rightarrow> thenP (do_ignore os (Close fd)) (throw_errno (os_strerror os) ''fdopen() failed'' err)
     | None \<Rightarrow>
         thenP (addFD fd)
         (thenP (set_callbacks fd CbClient)
         (bindP (getP (\<lambda>s. map_find fd (gCommandClients s))) (\<lambda>r. case r of
            Some _ \<Rightarrow> do_ignore os (Close fd)
          | None \<Rightarrow> modifyP (\<lambda>s. s\<lparr>gCommandClients := map_set fd fd (gCommandClients s)\<rparr>)))))"
  have rest: "reg A H (snd (?rest fd s1))" if fd: "fd \<notin> H" and h: "reg A (insert fd H) s1" for fd s1
  proof -
    let ?q = "os_call os (history s1) (Fcntl fd ''fdopen'')"
    let ?s = "log_call (Fcntl fd ''fdopen'') ?q s1"
    have h': "reg A (insert fd H) ?s" using h by (simp add: reg_def plain_step)
    then have held: "held A (insert fd H) (gOutputs ?s) (in_view ?s) ?s" by (simp add: held_def)
    show ?thesis
    proof (cases ?q)
      case None
      have ok: "registry_ok A (insert fd H) (gFDCBs s1) (in_view s1) (gOutputs s1) (gCommandClients s1) (gHotkeys s1)
          (fd_table (history s1)) (next_ptr s1)" using h by (simp add: reg_def)
      have "map_find fd (gFDCBs s1) = None" using registry_okD(7) [OF ok, of fd] by simp
      then have "map_find fd (gCommandClients s1) = None" by (rule registry_ok_free(3) [OF ok])
      then show ?thesis using registry_ok_client [OF ok fd] h None
        by (simp add: run_simps addFD_def set_callbacks_def reg_def in_view_def plain_step)
    next
      case (Some err)
      from held_close [OF held fd] Some show ?thesis
        by (simp add: run_simps run_throw_errno held_def)
    qed
  qed
  show "reg A H (snd (newCommandClient os s))"
  proof (cases "os_open os (history s) (Accept (sock_fd (gServer s)))")
    case (Inl err)
    then show ?thesis using r
      by (simp add: newCommandClient_def Socket_accept_def run_simps run_throw_errno log_open_def reg_def
          in_view_def plain_step split: outcome.split)
  next
    case (Inr fd)
    have "held A H (gOutputs s) (in_view s) s" using r by (simp add: held_def)
    from held_open [OF assms this Inr] have "fd \<notin> H"
      and "reg A (insert fd H) (log_call (GotFd fd) None (log_call (Accept (sock_fd (gServer s))) None s))"
      by (simp_all add: held_def)
    moreover from this(2) have "reg A (insert fd H)
        ((log_call (GotFd fd) None (log_call (Accept (sock_fd (gServer s))) None s))\<lparr>gServer := gServer s\<rparr>)"
      by (simp add: reg_def in_view_def)
    ultimately have "reg A H (snd (?rest fd
        ((log_call (GotFd fd) None (log_call (Accept (sock_fd (gServer s))) None s))\<lparr>gServer := gServer s\<rparr>)))"
      by (intro rest)
    moreover have "newCommandClient os s = ?rest fd
        ((log_call (GotFd fd) None (log_call (Accept (sock_fd (gServer s))) None s))\<lparr>gServer := gServer s\<rparr>)"
      using Inr by (simp add: newCommandClient_def Socket_accept_def run_simps log_open_def)
    ultimately show ?thesis by (simp only:)
  qed
qed

lemma leads_bind_ret:
  "keeps I m \<Longrightarrow> returns P m \<Longrightarrow> (\<And>s. I s \<Longrightarrow> J s) \<Longrightarrow> (\<And>x. P x \<Longrightarrow> leads I J (f x)) \<Longrightarrow> leads I J (bindP m f)"
  unfolding leads_def keeps_def returns_def run_bind
  by (fastforce split: prod.split outcome.split)

lemma leads_catch_keeps:
  assumes "leads I J m" and "\<And>e. keeps J (h e)"
  shows "leads I J (catchP m h)"
proof -
  have "J (snd (catchP m h s))" if I: "I s" for s
  proof -
    obtain r s' where m: "m s = (r, s')" by fastforce
    with assms(1) I have "J s'" by (metis leads_def snd_conv)
    with m assms(2) show ?thesis by (auto simp: keeps_def run_simps split: outcome.split)
  qed
  then show ?thesis by (simp add: leads_def)
qed

lemma leads_InDevice_new:
  assumes "fresh_fds os" and "\<And>s. held A H outs v s \<Longrightarrow> J s"
    and "\<And>d. in_fd d \<notin> H \<Longrightarrow> leads (held A (insert (in_fd d) H) outs v) J (f d)"
  shows "leads (held A H outs v) J (bindP (InDevice_new os e path) f)"
  unfolding InDevice_new_def Let_def bindP_assoc
proof (rule leads_open [OF assms(1)])
  fix fd assume fd: "fd \<notin> H"
  show "leads (held A (insert fd H) outs v) J (bindP (case Inr fd of
      Inl err \<Rightarrow> throw_errno (os_strerror os) (''open('' @ cstr path @ '')'') err
    | Inr fd \<Rightarrow>
        bindP (in_ctl os fd EVIOCGNAME ''failed to query device name'')
         (\<lambda>got. bindP (in_ctl os fd EVIOCGID ''failed to query device id'')
           (\<lambda>idb. bindP (in_ctl os fd (EVIOCGBIT EV_SYN (byte_size EV_MAX)) ''failed to query event device capabilities'')
             (\<lambda>bits. ret \<lparr>in_fd = fd, eof = False, grabbing = False, persistent = False,
               dev_name = overlay (replicate name_size 0) got,
               dev_id = id_of_mem e (overlay (replicate 8 0) idb),
               real_name = bytes_str (takeWhile (\<lambda>b. b \<noteq> 0) (overlay (replicate name_size 0) got)),
               evbits = snd (resize (Some (\<lambda>_. 0)) EV_MAX Bits_empty)\<lparr>data :=
                 overlay (data (snd (resize (Some (\<lambda>_. 0)) EV_MAX Bits_empty))) bits\<rparr>\<rparr>)))) f)"
    unfolding sum.case
  proof (rule leads_bind_ret [where P = "\<lambda>d. in_fd d = fd"])
    show "J s" if "held A (insert fd H) outs v s" for s using held_drop [OF that] by (rule assms(2))
    show "leads (held A (insert fd H) outs v) J (f d)" if "in_fd d = fd" for d
      using assms(3) [of d] that fd by simp
  qed (intro keeps_held_inert inert_intro, intro returns_intro, simp)
next
  show "leads (held A H outs v) J (bindP (case Inl err of
      Inl err \<Rightarrow> throw_errno (os_strerror os) (''open('' @ cstr path @ '')'') err
    | Inr fd \<Rightarrow> g fd) f)" for err g
    unfolding sum.case
    by (rule leads_bind_ret [where P = "\<lambda>_. False", OF keeps_held_inert])
      (auto intro!: inert_intro returns_intro assms(2))
qed simp

definition below :: "nat \<Rightarrow> view \<Rightarrow> bool" where
  "below p v \<longleftrightarrow> (\<forall>n i p' fd. map_find n v = Some (i, p', fd) \<longrightarrow> p' \<noteq> p)"

text \<open>The same with the pointer of a new object, which no entry has.\<close>

definition held_ptr :: "nat \<Rightarrow> (int \<rightharpoonup> FDCallbacks) \<Rightarrow> int set \<Rightarrow> (string, int) std_map \<Rightarrow> view \<Rightarrow> dstate \<Rightarrow> bool" where
  "held_ptr p A H outs v s \<longleftrightarrow> held A H outs v s \<and> below p v \<and> p < next_ptr s"

lemma held_below: "held A H outs v s \<Longrightarrow> below (next_ptr s) v"
  unfolding held_def reg_def below_def by (auto dest: registry_okD(11))

lemma keeps_held_ptr: "inert m \<Longrightarrow> keeps (held_ptr p A H outs v) m"
proof (rule keepsI)
  fix s assume m: "inert m" and h: "held_ptr p A H outs v s"
  have "held A H outs v (snd (m s))" using keeps_held_inert [OF m] h by (simp add: keeps_def held_ptr_def)
  moreover have "next_ptr s \<le> next_ptr (snd (m s))"
  proof -
    let ?c = "(gFDCBs s, in_view s, gOutputs s, gCommandClients s, gHotkeys s, fd_table (history s), next_ptr s)"
    have "core_is ?c s" using h by (auto simp: held_ptr_def held_def core_is_def reg_def registry_ok_def)
    then have "core_is ?c (snd (m s))" using inertD [OF m] by (simp add: keeps_def)
    then show ?thesis by (simp add: core_is_def)
  qed
  ultimately show "held_ptr p A H outs v (snd (m s))" using h by (auto simp: held_ptr_def)
qed

lemma keeps_addDevice:
  assumes "fresh_fds os"
  shows "keeps (reg A H) (addDevice os u e name path)"
proof (rule keeps_from_held)
  fix outs v
  let ?I = "held A H outs v"
  have enter: "leads (held_ptr p A (insert (in_fd d) H) outs v) (reg A H)
      (thenP (announceDevice_all os u e inp)
        (thenP (addFD (in_fd d))
        (thenP (set_callbacks (in_fd d) (CbDevice p i))
          (modifyP (\<lambda>s. s\<lparr>gInputs := map_emplace name inp (gInputs s)\<rparr>)))))"
    if name: "map_find name v = None" and fd: "in_fd d \<notin> H" and inp: "inp = \<lparr>inp_id = i, inp_ptr = p, device = d\<rparr>"
    for p d i inp
  proof (rule leads_then)
    let ?K = "held_ptr p A (insert (in_fd d) H) outs v"
    show "keeps ?K (announceDevice_all os u e inp)" by (intro keeps_held_ptr inert_intro)
    show weak: "reg A H s" if "?K s" for s using that by (auto simp: held_ptr_def dest: held_drop intro: held_reg)
    show "leads ?K (reg A H) (thenP (addFD (in_fd d)) (thenP (set_callbacks (in_fd d) (CbDevice p i))
          (modifyP (\<lambda>s. s\<lparr>gInputs := map_emplace name inp (gInputs s)\<rparr>))))"
    proof (rule leads_then [OF _ weak])
      show "keeps ?K (addFD (in_fd d))" by (intro keeps_held_ptr inert_intro)
      show "leads ?K (reg A H) (thenP (set_callbacks (in_fd d) (CbDevice p i))
          (modifyP (\<lambda>s. s\<lparr>gInputs := map_emplace name inp (gInputs s)\<rparr>)))"
        unfolding leads_def
      proof (intro allI impI)
        fix s assume k: "?K s"
        then have ok: "registry_ok A (insert (in_fd d) H) (gFDCBs s) v outs (gCommandClients s) (gHotkeys s)
            (fd_table (history s)) (next_ptr s)" and v: "in_view s = v" and outs: "gOutputs s = outs" and p: "p < next_ptr s" "below p v"
          and closes: "closes_ok (history s)"
          by (auto simp: held_ptr_def held_def reg_def)
        have new: "map_find name (gInputs s) = None" using name by (simp add: v [symmetric] find_view)
        have "map (\<lambda>(n, i). (n, inp_id i, inp_ptr i, in_fd (device i))) (map_set name inp m) =
            map_set name (i, p, in_fd d) (map (\<lambda>(n, i). (n, inp_id i, inp_ptr i, in_fd (device i))) m)" for m
          by (induction m) (auto simp: inp)
        then have view: "map (\<lambda>(n, i). (n, inp_id i, inp_ptr i, in_fd (device i))) (map_emplace name inp (gInputs s)) =
            map_set name (i, p, in_fd d) v"
          using new by (simp add: map_emplace_def v [symmetric] in_view_def)
        have ptr: "p' \<noteq> p" if "map_find n v = Some (i', p', fd')" for n i' p' fd'
          using p(2) that by (auto simp: below_def)
        from registry_ok_device [OF ok fd name p(1) ptr, where i = i] view outs closes
        show "reg A H (snd (thenP (set_callbacks (in_fd d) (CbDevice p i))
          (modifyP (\<lambda>s. s\<lparr>gInputs := map_emplace name inp (gInputs s)\<rparr>)) s))"
          by (simp add: run_simps set_callbacks_def reg_def in_view_def)
      qed
    qed
  qed
  show "leads ?I (reg A H) (addDevice os u e name path)"
    unfolding addDevice_def
  proof (rule leads_get)
    fix s assume s: "?I s"
    show "leads ?I (reg A H)
     (if map_find name (gInputs s) \<noteq> None then throw_msg (''output already exists: '' @ cstr name)
     else
     bindP getNextInputID (\<lambda>i.
     catchP
       (bindP (InDevice_new os e (cstr path)) (\<lambda>d.
        bindP (getP next_ptr) (\<lambda>p.
        let inp = \<lparr>inp_id = i, inp_ptr = p, device = d\<rparr> in
        thenP (modifyP (\<lambda>s. s\<lparr>next_ptr := Suc p\<rparr>))
        (thenP (announceDevice_all os u e inp)
        (thenP (addFD (in_fd d))
        (thenP (set_callbacks (in_fd d) (CbDevice p i))
          (modifyP (\<lambda>s. s\<lparr>gInputs := map_emplace name inp (gInputs s)\<rparr>))))))))
       (\<lambda>ex. thenP (freeInputID i) (raise ex))))"
    proof (cases "map_find name (gInputs s)")
      case None
      with s have name: "map_find name v = None" by (auto simp: held_def find_view [symmetric]) (simp add: find_view)
      have body: "leads ?I (reg A H) (bindP (InDevice_new os e (cstr path)) (\<lambda>d.
        bindP (getP next_ptr) (\<lambda>p.
        let inp = \<lparr>inp_id = i, inp_ptr = p, device = d\<rparr> in
        thenP (modifyP (\<lambda>s. s\<lparr>next_ptr := Suc p\<rparr>))
        (thenP (announceDevice_all os u e inp)
        (thenP (addFD (in_fd d))
        (thenP (set_callbacks (in_fd d) (CbDevice p i))
          (modifyP (\<lambda>s. s\<lparr>gInputs := map_emplace name inp (gInputs s)\<rparr>))))))))" for i
      proof (rule leads_InDevice_new [OF assms held_reg], assumption)
        fix d :: InDevice
        assume fd: "in_fd d \<notin> H"
        show "leads (held A (insert (in_fd d) H) outs v) (reg A H) (bindP (getP next_ptr) (\<lambda>p.
        let inp = \<lparr>inp_id = i, inp_ptr = p, device = d\<rparr> in
        thenP (modifyP (\<lambda>s. s\<lparr>next_ptr := Suc p\<rparr>))
        (thenP (announceDevice_all os u e inp)
        (thenP (addFD (in_fd d))
        (thenP (set_callbacks (in_fd d) (CbDevice p i))
          (modifyP (\<lambda>s. s\<lparr>gInputs := map_emplace name inp (gInputs s)\<rparr>)))))))"
          unfolding leads_def
        proof (intro allI impI)
          fix s1 assume h: "held A (insert (in_fd d) H) outs v s1"
          have "held_ptr (next_ptr s1) A (insert (in_fd d) H) outs v (s1\<lparr>next_ptr := Suc (next_ptr s1)\<rparr>)"
            using h held_below [OF h]
            by (auto simp: held_ptr_def held_def reg_def in_view_def intro: registry_ok_ptr)
          with enter [OF name fd refl] show "reg A H (snd (bindP (getP next_ptr) (\<lambda>p.
            let inp = \<lparr>inp_id = i, inp_ptr = p, device = d\<rparr> in
            thenP (modifyP (\<lambda>s. s\<lparr>next_ptr := Suc p\<rparr>))
            (thenP (announceDevice_all os u e inp)
            (thenP (addFD (in_fd d))
            (thenP (set_callbacks (in_fd d) (CbDevice p i))
              (modifyP (\<lambda>s. s\<lparr>gInputs := map_emplace name inp (gInputs s)\<rparr>)))))) s1))"
            by (simp add: run_simps leads_def Let_def)
        qed
      qed
      show ?thesis
        unfolding if_not_P [OF not_not [THEN iffD2, OF None]]
        by (rule leads_bind [OF keeps_held_inert held_reg leads_catch_keeps [OF body]])
          (intro inert_intro keeps_inert | assumption)+
    next
      case (Some i)
      then show ?thesis by (auto intro!: leads_weaken keeps_held_inert inert_intro elim: held_reg)
    qed
  qed
qed

end
