(* ===== verification/DaemonInv.thy ===== *)
theory DaemonInv
  imports DaemonSteps
begin

text \<open>
  The invariant of the daemon (\<open>registry\<close>): who owns which descriptor, and that the
  callbacks, inputs, outputs, clients and hotkeys fit together. It is kept by every command
  and callback, however they end, for every behaviour of a kernel that does not hand out a
  descriptor that is still open. The locale \<open>registry_runner\<close> is the contract between the
  operations and the command texts they run.
\<close>

section \<open>Programs that keep the registry\<close>

named_theorems reg_intro \<open>programs that keep the registry\<close>

lemmas reg_inert [reg_intro] = inert_basic [THEN keeps_inert] inert_modify [THEN keeps_inert]
  inert_calls [THEN keeps_inert] inert_fork [THEN keeps_inert] inert_basic_ops [THEN keeps_inert]
  inert_output_ops [THEN keeps_inert] inert_find [THEN keeps_inert] inert_announce [THEN keeps_inert]
  inert_announcing [THEN keeps_inert] inert_announce_all [THEN keeps_inert]
  inert_grab_all [THEN keeps_inert] inert_read_event [THEN keeps_inert]

lemma keeps_finally [reg_intro]: "keeps I m \<Longrightarrow> keeps I c \<Longrightarrow> keeps I (finallyP m c)"
  unfolding finallyP_def by (intro keeps_intro)

lemma keeps_case_prod [reg_intro]: "(\<And>a b. z = (a, b) \<Longrightarrow> keeps I (k a b)) \<Longrightarrow> keeps I (case z of (a, b) \<Rightarrow> k a b)"
  by (cases z) simp

lemmas reg_control [reg_intro] = keeps_bind keeps_then keeps_when keeps_catch keeps_for keeps_if
  keeps_case_option keeps_case_sum

text \<open>A command that works on the device \<open>name\<close>.\<close>

lemma keeps_on_device:
  assumes "\<And>i s. reg A H s \<Longrightarrow> map_find name (gInputs s) = Some i \<Longrightarrow> reg A H (snd (f i s))"
  shows "keeps (reg A H) (bindP (findDevice name) f)"
proof (rule keepsI)
  fix s assume r: "reg A H s"
  show "reg A H (snd (bindP (findDevice name) f s))"
    using assms [OF r] r
    by (cases "map_find name (gInputs s)") (simp_all add: findDevice_def throw_msg_def run_simps)
qed

lemma keeps_then_from:
  assumes "reg A H (snd (m s))" and "keeps (reg A H) n"
  shows "reg A H (snd (thenP m n s))"
  using assms by (cases "m s"; cases "fst (m s)") (auto simp: run_simps keeps_def)

lemma reg_set_device:
  assumes "reg A H s" and "map_find name (gInputs s) = Some i" and "in_fd d = in_fd (device i)"
  shows "reg A H (snd (set_device name d s))"
proof -
  have ok: "map_ok (gInputs s)" using assms(1) by (simp add: reg_def registry_ok_def map_ok_view)
  with in_view_set [OF ok assms(2), of "i\<lparr>device := d\<rparr>"] assms show ?thesis
    by (simp add: set_device_def run_simps reg_def in_view_def)
qed

lemma reg_leaf:
  "reg A H s \<Longrightarrow> reg A H (snd (raise ex s))" "reg A H s \<Longrightarrow> reg A H (snd (toClient os c msg s))"
  using inert_basic(2) [THEN keeps_inert] inert_output_ops(2) [THEN keeps_inert] by (auto simp: keeps_def)

lemma setName_fd: "setName name d = Inr d' \<Longrightarrow> in_fd d' = in_fd d"
  "resetName d = Inr d' \<Longrightarrow> in_fd d' = in_fd d" "in_fd (set_persistent v d) = in_fd d"
  by (auto simp: setName_def resetName_def set_persistent_def split: if_splits)

lemma keeps_clientCommand_Device [reg_intro]:
  assumes "fresh_fds os"
  shows "keeps (reg A H) (clientCommand_Device os u e clientfd args)"
  unfolding clientCommand_Device_def
  by (intro keeps_if keeps_then keeps_addDevice [OF assms] keeps_on_device reg_inert)
    (auto split: sum.split option.split simp: setName_fd
      intro!: keeps_then_from reg_set_device reg_leaf reg_inert)

lemma registry_ok_hot_set:
  assumes "registry_ok A H cbs v outs cl hot F k" and "map_find n v = Some (hk_device key, p, fd)"
  shows "registry_ok A H cbs v outs cl (map_set key cmd hot) F k"
proof -
  note r = registry_ok_conjs [OF assms(1)]
  have keys: "fst ` set (map_set key cmd hot) = insert key (fst ` set hot)"
    using set_map_set [of key cmd hot] by simp
  have "\<exists>n p fd. map_find n v = Some (hk_device key', p, fd)" if "key' \<in> insert key (fst ` set hot)" for key'
    using that bspec [OF r(15)] assms(2) by blast
  then have "\<forall>key\<in>fst ` set (map_set key cmd hot). \<exists>n p fd. map_find n v = Some (hk_device key, p, fd)"
    unfolding keys by blast
  with r(1-14) show ?thesis unfolding registry_ok_def by - (intro conjI; assumption)
qed

lemma keeps_hotkey:
  assumes "reg A H s" and "map_find name (gInputs s) = Some i"
  shows "reg A H (snd (addHotkey (inp_id i) type code w cmd s))"
    and "reg A H (snd (removeHotkey (inp_id i) type code w s))"
proof -
  have "map_find name (in_view s) = Some (hk_device (HotkeyDef (inp_id i) type code w), inp_ptr i, in_fd (device i))"
    using assms(2) by (simp add: find_view)
  from registry_ok_hot_set [OF _ this] assms(1)
  show "reg A H (snd (addHotkey (inp_id i) type code w cmd s))"
    by (simp add: addHotkey_def reg_def in_view_def throw_msg_def run_simps)
  have "set (map_erase key hot) \<subseteq> set hot" for key :: HotkeyDef and hot :: "(HotkeyDef, string) std_map"
    by (auto simp: map_erase_def)
  from registry_ok_hot [OF _ this] assms(1)
  show "reg A H (snd (removeHotkey (inp_id i) type code w s))"
    by (simp add: removeHotkey_def reg_def in_view_def throw_msg_def run_simps)
qed

lemma reg_parse_hotkey:
  "keeps (reg A H) (parse_hotkey def)" "reg A H s \<Longrightarrow> parse_hotkey def s = (r, s') \<Longrightarrow> s' = s"
proof -
  show "keeps (reg A H) (parse_hotkey def)" by (rule reg_inert)
  have "snd (parse_hotkey def s) = s"
    unfolding parse_hotkey_def Let_def
    by (auto simp: run_simps throw_msg_def split: option.split parse.split)
  then show "parse_hotkey def s = (r, s') \<Longrightarrow> s' = s" by simp
qed

lemma reg_with_hotkey:
  assumes "reg A H s" and "\<And>type code w. reg A H (snd (f (type, code, w) s))"
  shows "reg A H (snd (bindP (parse_hotkey def) f s))"
proof -
  obtain r s' where p: "parse_hotkey def s = (r, s')" by fastforce
  with reg_parse_hotkey(2) [OF assms(1) p] assms show ?thesis
    by (cases r) (auto simp: run_simps)
qed

lemma keeps_clientCommand_Hotkey [reg_intro]: "keeps (reg A H) (clientCommand_Hotkey os clientfd args)"
  unfolding clientCommand_Hotkey_def
  by (intro keeps_if keeps_on_device reg_inert)
    (auto intro!: reg_with_hotkey keeps_then_from keeps_hotkey reg_inert)

lemma keeps_clientCommand_Info [reg_intro]: "keeps (reg A H) (clientCommand_Info os clientfd)"
  unfolding clientCommand_Info_def by (intro reg_intro)

lemma keeps_clientCommand_Action [reg_intro]: "keeps (reg A H) (clientCommand_Action os clientfd args)"
  unfolding clientCommand_Action_def by (intro reg_intro; simp)

lemma keeps_shellCommand [reg_intro]: "keeps (reg A H) (shellCommand os n cmd background)"
proof -
  have "keeps (reg A H) (wait_for os pid n)" for pid
    by (induction n) (auto intro!: reg_intro)
  then show ?thesis unfolding shellCommand_def by (intro reg_intro; simp)
qed

lemma keeps_addOutput [reg_intro]: "fresh_fds os \<Longrightarrow> keeps (reg A H) (addOutput os u e junk clientfd args)"
  unfolding addOutput_def Let_def by (intro reg_intro keeps_addOutput_named; simp)

lemma keeps_source_open:
  assumes "fresh_fds os" and "plain c" and "\<And>err. keeps (reg A H) (f (Inl err))"
    and "\<And>fd. fd \<notin> H \<Longrightarrow> leads (reg A (insert fd H)) (reg A H) (f (Inr fd))"
  shows "keeps (reg A H) (bindP (do_open os c) f)"
proof (rule keeps_from_held)
  fix outs v
  show "leads (held A H outs v) (reg A H) (bindP (do_open os c) f)"
    by (rule leads_open [OF assms(1,2)])
      (use assms(3,4) in \<open>auto simp: leads_def keeps_def held_def\<close>)
qed

lemma leads_scoped_fd:
  assumes "keeps (reg A (insert fd H)) m" and "fd \<notin> H"
  shows "leads (reg A (insert fd H)) (reg A H) (finallyP m (do_ignore os (Close fd)))"
proof (rule leads_finally [OF assms(1)])
  show "reg A H s" if "reg A (insert fd H) s" for s using that by (rule reg_mono) auto
  show "leads (reg A (insert fd H)) (reg A H) (do_ignore os (Close fd))"
    using held_close [OF _ assms(2)] by (auto simp: leads_def run_simps held_def)
qed

section \<open>What running a command text may rely on\<close>

text \<open>
  The operations of the daemon run command texts (event actions, command files) and are run
  by them. The contract between the two: a text keeps the registry, whatever descriptors the
  caller holds.
\<close>

locale registry_runner =
  fixes os :: os and run :: runner
  assumes run_keeps: "fresh_fds os \<Longrightarrow> keeps (reg A H) (run alive clientfd text)"
begin

lemma keeps_fireEvent: "fresh_fds os \<Longrightarrow> keeps (reg A H) (fireEvent run clientfd event)"
  unfolding fireEvent_def by (intro reg_intro run_keeps; assumption)

lemma keeps_useOutput: "fresh_fds os \<Longrightarrow> keeps (reg A H) (useOutput os run clientfd name)"
  unfolding useOutput_def by (intro reg_intro keeps_fireEvent; simp)

lemma keeps_writeEvents: "fresh_fds os \<Longrightarrow> keeps (reg A H) (writeEvents os run clientfd on)"
  unfolding writeEvents_def by (intro reg_intro keeps_fireEvent; simp)

lemma keeps_grab: "fresh_fds os \<Longrightarrow> keeps (reg A H) (grab os run clientfd on)"
  unfolding grab_def by (intro reg_intro keeps_fireEvent; simp)

lemma keeps_lostCurrentOutput: "fresh_fds os \<Longrightarrow> keeps (reg A H) (lostCurrentOutput os run)"
  unfolding lostCurrentOutput_def by (intro reg_intro keeps_writeEvents keeps_grab; simp)

lemma keeps_forward_event: "fresh_fds os \<Longrightarrow> keeps (reg A H) (forward_event os e run dev ev)"
  unfolding forward_event_def by (intro reg_intro keeps_lostCurrentOutput; simp)

lemma keeps_readFromDevice: "fresh_fds os \<Longrightarrow> keeps (reg A H) (readFromDevice os e run p dev)"
  unfolding readFromDevice_def by (intro reg_intro keeps_fireEvent keeps_forward_event; simp)

lemma keeps_writeCommand: "fresh_fds os \<Longrightarrow> keeps (reg A H) (writeCommand os run clientfd state)"
  unfolding writeCommand_def by (intro reg_intro keeps_writeEvents; simp)

lemma keeps_grabCommand: "fresh_fds os \<Longrightarrow> keeps (reg A H) (grabCommand os run clientfd state)"
  unfolding grabCommand_def by (intro reg_intro keeps_grab; simp)

lemma keeps_source_lines: "fresh_fds os \<Longrightarrow> keeps (reg A H) (source_lines os run clientfd fd path n)"
proof (induction n)
  case (Suc n)
  then show ?case unfolding source_lines.simps by (intro reg_intro run_keeps; simp)
qed (simp add: reg_intro)

lemma keeps_sourceCommandFile: "fresh_fds os \<Longrightarrow> keeps (reg A H) (sourceCommandFile os run n clientfd path)"
  unfolding sourceCommandFile_def
  by (rule keeps_source_open) (auto intro!: leads_scoped_fd keeps_source_lines reg_inert)

lemma keeps_clientCommand_Output:
  "fresh_fds os \<Longrightarrow> keeps (reg A H) (clientCommand_Output os u e junk run clientfd args)"
  unfolding clientCommand_Output_def by (intro reg_intro keeps_useOutput; simp)

lemma keeps_clientCommand:
  "fresh_fds os \<Longrightarrow> keeps (reg A H) (clientCommand os u e junk run n clientfd args)"
  unfolding clientCommand_def Let_def needs_one_def
  by (intro reg_intro keeps_clientCommand_Output keeps_writeCommand keeps_grabCommand keeps_useOutput
      keeps_sourceCommandFile; simp)

end

lemma registry_runner_parse: "registry_runner os (parseClientCommand os u e junk n)"
proof (induction n)
  case 0
  show ?case by unfold_locales (simp add: reg_inert)
next
  case (Suc n)
  show ?case
    by unfold_locales
      (auto intro!: reg_control reg_inert keeps_case_prod registry_runner.keeps_clientCommand [OF Suc])
qed

interpretation texts: registry_runner os "parseClientCommand os u e junk n" for os u e junk n
  by (rule registry_runner_parse)

interpretation loop: registry_runner "sys_os y" "run_text y" for y
  unfolding run_text_def by (rule registry_runner_parse)

section \<open>Removals\<close>

lemma input_at_registered:
  assumes "reg A H s" and "map_find fd (gFDCBs s) = Some (CbDevice p i)"
  shows "\<exists>name inp. input_at p s = Some (name, inp) \<and> map_find name (gInputs s) = Some inp \<and>
    inp_id inp = i \<and> inp_ptr inp = p \<and> in_fd (device inp) = fd"
proof -
  have ok: "registry_ok A H (gFDCBs s) (in_view s) (gOutputs s) (gCommandClients s) (gHotkeys s)
      (fd_table (history s)) (next_ptr s)" using assms(1) by (simp add: reg_def)
  have maps: "map_ok (gInputs s)" using registry_okD(2) [OF ok] by (simp add: map_ok_view)
  obtain n where n: "map_find n (in_view s) = Some (i, p, fd)" using registry_okD(8) [OF ok assms(2)] by blast
  then obtain i0 where i0: "map_find n (gInputs s) = Some i0" "inp_id i0 = i" "inp_ptr i0 = p" "in_fd (device i0) = fd"
    by (auto simp: find_view)
  show ?thesis
  proof (cases "input_at p s")
    case None
    from i0 maps have "(n, i0) \<in> set (gInputs s)" by (simp add: std.entries_find)
    with None i0 show ?thesis by (auto simp: input_at_def find_None_iff)
  next
    case (Some x)
    obtain n' i' where x: "x = (n', i')" by (cases x)
    have f: "map_find n' (gInputs s) = Some i'" using input_at_find [OF maps] Some x by simp
    have "inp_ptr i' = p" using Some x by (auto simp: input_at_def find_Some_iff)
    then have "map_find n' (in_view s) = Some (inp_id i', p, in_fd (device i'))" using f by (simp add: find_view)
    from registry_okD(10) [OF ok this n] have "n' = n" .
    with f i0 Some x show ?thesis by simp
  qed
qed

lemma run_announceDeviceRemoval: "\<exists>s'. announceDeviceRemoval os e i s = (Ret (), s')"
proof -
  have w: "\<exists>s'. writeToOutput os fd bs s = (Ret (), s')" for fd bs s
    by (auto simp: writeToOutput_def removeFD_def run_simps split: option.split)
  have "\<exists>s'. forP (\<lambda>(name, fd). writeToOutput os fd bs) outs s = (Ret (), s')" for bs outs s
  proof (induction outs arbitrary: s)
    case (Cons x outs)
    obtain name fd where x: "x = (name, fd)" by (cases x)
    obtain s1 where "writeToOutput os fd bs s = (Ret (), s1)" using w by blast
    moreover obtain s2 where "forP (\<lambda>(name, fd). writeToOutput os fd bs) outs s1 = (Ret (), s2)"
      using Cons by blast
    ultimately show ?case by (simp add: x run_simps)
  qed (simp add: run_simps)
  then show ?thesis by (simp add: announceDeviceRemoval_def run_simps)
qed

text \<open>One entry of the queue: its callback, and the end of the callback's entry.\<close>

definition remove_one :: "sys \<Rightarrow> int \<Rightarrow> FDCallbacks \<Rightarrow> unit dprog" where
  "remove_one y fd cb =
     thenP (onRemove y fd cb) (modifyP (\<lambda>s. s\<lparr>gFDCBs := map_erase fd (gFDCBs s)\<rparr>))"

lemma remove_client:
  assumes r: "reg A {} s" and cb: "map_find fd (gFDCBs s) = Some CbClient"
  shows "reg (A(fd := None)) {} (snd (remove_one y fd CbClient s))"
proof -
  have ok: "registry_ok A {} (gFDCBs s) (in_view s) (gOutputs s) (gCommandClients s) (gHotkeys s)
      (fd_table (history s)) (next_ptr s)" using r by (simp add: reg_def)
  have cl: "map_find fd (gCommandClients s) = Some fd"
    using registry_okD(15) [OF ok, of fd] registry_okD(16) [OF ok, of fd] cb by auto
  from registry_ok_client_gone [OF ok cb] registry_okD(6) [OF ok cb] cl r show ?thesis
    by (simp add: remove_one_def onRemove_def finishClientRemoval_def run_simps reg_def in_view_def close_step)
qed

lemma remove_output:
  assumes y: "fresh_fds (sys_os y)" and r: "reg A {} s" and A: "A fd = Some CbOutput"
  shows "reg (A(fd := None)) {} (snd (remove_one y fd CbOutput s))"
proof -
  let ?lost = "whenP (gCurrentOutput_fd s = fd) (lostCurrentOutput (sys_os y) (run_text y))"
  obtain q s1 where l: "?lost s = (q, s1)" by fastforce
  have "keeps (reg A {}) ?lost" by (intro keeps_when loop.keeps_lostCurrentOutput y)
  from keepsD [OF this r l] have r1: "reg A {} s1" .
  then have ok: "registry_ok A {} (gFDCBs s1) (in_view s1) (gOutputs s1) (gCommandClients s1) (gHotkeys s1)
      (fd_table (history s1)) (next_ptr s1)" by (simp add: reg_def)
  have weak: "reg (A(fd := None)) {} s1"
    using r1 unfolding reg_def registry_ok_def by (auto simp: map_le_def)
  have cb: "map_find fd (gFDCBs s1) = Some CbOutput"
    using registry_okD(5) [OF ok] A by (force simp: map_le_def)
  then obtain n where n: "map_find n (gOutputs s1) = Some fd" using registry_okD(12) [OF ok] by blast
  have "(n, fd) \<in> set (gOutputs s1)" using n registry_okD(3) [OF ok] by (simp add: std.entries_find)
  then obtain name fd' where f: "List.find (\<lambda>(name, fd'). fd' = fd) (gOutputs s1) = Some (name, fd')"
    by (cases "List.find (\<lambda>(name, fd'). fd' = fd) (gOutputs s1)") (auto simp: find_None_iff)
  then have "(name, fd') \<in> set (gOutputs s1)" and fd': "fd' = fd"
    by (auto simp: find_Some_iff in_set_conv_nth)
  then have name: "map_find name (gOutputs s1) = Some fd"
    using registry_okD(3) [OF ok] by (simp add: std.entries_find)
  have ow: "output_with fd s1 = Some name" using f by (simp add: output_with_def)
  show ?thesis
  proof (cases q)
    case (Ret u)
    from registry_ok_output_gone [OF ok cb name] registry_okD(6) [OF ok cb] r1 Ret l ow show ?thesis
      by (simp add: remove_one_def onRemove_def finishOutputRemoval_def run_simps reg_def in_view_def close_step)
  qed (use l weak in \<open>simp_all add: remove_one_def onRemove_def finishOutputRemoval_def run_simps\<close>)
qed

lemma remove_device:
  assumes r: "reg A {} s" and cb: "map_find fd (gFDCBs s) = Some (CbDevice p dev)"
  shows "reg (A(fd := None)) {} (snd (remove_one y fd (CbDevice p dev) s))"
proof -
  have ok: "registry_ok A {} (gFDCBs s) (in_view s) (gOutputs s) (gCommandClients s) (gHotkeys s)
      (fd_table (history s)) (next_ptr s)" using r by (simp add: reg_def)
  obtain n i0 where at: "input_at p s = Some (n, i0)"
    and i0: "map_find n (gInputs s) = Some i0" "inp_id i0 = dev" "inp_ptr i0 = p" "in_fd (device i0) = fd"
    using input_at_registered [OF r cb] by blast
  have n: "map_find n (in_view s) = Some (dev, p, fd)" using i0 by (simp add: find_view)
  let ?ann = "whenP (\<not> persistent (device i0)) (announceDeviceRemoval (sys_os y) (sys_endian y) i0)"
  obtain s1 where a: "?ann s = (Ret (), s1)"
    using run_announceDeviceRemoval [of "sys_os y" "sys_endian y" i0 s]
    by (cases "persistent (device i0)") (auto simp: run_simps)
  have "inert ?ann" by (intro inert_intro)
  let ?c = "(gFDCBs s, in_view s, gOutputs s, gCommandClients s, gHotkeys s, fd_table (history s), next_ptr s)"
  have "core_is ?c s" using registry_okD(2) [OF ok] r by (simp add: core_is_def reg_def)
  from keepsD [OF inertD [OF \<open>inert ?ann\<close>] this a] have s1: "gFDCBs s1 = gFDCBs s" "in_view s1 = in_view s"
    "gOutputs s1 = gOutputs s" "gCommandClients s1 = gCommandClients s" "gHotkeys s1 = gHotkeys s"
    "fd_table (history s1) = fd_table (history s)" "next_ptr s \<le> next_ptr s1" "closes_ok (history s1)"
    by (simp_all add: core_is_def)
  let ?hot = "filter (\<lambda>(k, cmd). hk_device k \<noteq> dev) (gHotkeys s)"
  have hot: "key \<in> fst ` set (gHotkeys s) \<and> hk_device key \<noteq> dev" if "key \<in> fst ` set ?hot" for key
    using that by force
  have view: "map (\<lambda>(n, i). (n, inp_id i, inp_ptr i, in_fd (device i))) (map_erase n m) =
      map_erase n (map (\<lambda>(n, i). (n, inp_id i, inp_ptr i, in_fd (device i))) m)"
    for m :: "(string, Input) std_map"
    by (induction m) (auto simp: map_erase_def)
  have fd: "in_fd (device i0) \<noteq> - 1" using registry_okD(6) [OF ok cb] i0 by auto
  from registry_ok_ptr [OF registry_ok_device_gone [OF ok n hot] s1(7)]
  have "registry_ok (A(fd := None)) {} (map_erase fd (gFDCBs s)) (map_erase n (in_view s)) (gOutputs s)
      (gCommandClients s) ?hot (fd_table (history s) - {fd}) (next_ptr s1)" .
  with s1 i0 fd at a view registry_okD(6) [OF ok cb] show ?thesis
    by (simp add: remove_one_def onRemove_def finishDeviceRemoval_def cleanupDeviceHotkeys_def InDevice_delete_def
        run_simps reg_def in_view_def close_step)
qed

lemma reg_single: "reg Map.empty H s \<Longrightarrow> map_find fd (gFDCBs s) = Some cb \<Longrightarrow> reg [fd \<mapsto> cb] H s"
  unfolding reg_def registry_ok_def by (auto simp: map_le_def)

lemma keeps_remove_one:
  assumes "fresh_fds (sys_os y)" and "reg Map.empty {} s" and "map_find fd (gFDCBs s) = Some cb"
  shows "reg Map.empty {} (snd (remove_one y fd cb s))"
proof -
  have A: "reg [fd \<mapsto> cb] {} s" using assms(2,3) by (rule reg_single)
  have "reg ([fd \<mapsto> cb](fd := None)) {} (snd (remove_one y fd cb s))"
  proof (cases cb)
    case CbServer
    then show ?thesis using assms(2) by (simp add: remove_one_def onRemove_def run_simps)
  next
    case CbClient
    with remove_client [OF A] assms(3) show ?thesis by blast
  next
    case (CbDevice p dev)
    with remove_device [OF A] assms(3) show ?thesis by blast
  next
    case CbOutput
    with remove_output [OF assms(1) A, of fd] show ?thesis by simp
  qed
  then show ?thesis by simp
qed

lemma remove_loop_Cons:
  "remove_loop y q (fd # fds) =
     bindP (getP (\<lambda>s. map_find fd (gFDCBs s))) (\<lambda>r. case r of
       None \<Rightarrow> raise (Exception ''FD without cleanup callback'')
     | Some cb \<Rightarrow>
         thenP (remove_one y fd cb)
         (bindP (getP gFDRemoveQueue) (\<lambda>q'. if q' \<noteq> q then undef else remove_loop y q fds)))"
  unfolding remove_one_def thenP_def bindP_assoc remove_loop.simps ..

lemma keeps_remove_loop:
  "fresh_fds (sys_os y) \<Longrightarrow> keeps (reg Map.empty {}) (remove_loop y q fds)"
proof (induction fds)
  case (Cons fd fds)
  show ?case
    unfolding remove_loop_Cons
  proof (rule keepsI)
    fix s assume r: "reg Map.empty {} s"
    let ?rest = "bindP (getP gFDRemoveQueue) (\<lambda>q'. if q' \<noteq> q then undef else remove_loop y q fds)"
    have rest: "keeps (reg Map.empty {}) ?rest" using Cons by (intro reg_control reg_inert)
    show "reg Map.empty {} (snd (bindP (getP (\<lambda>s. map_find fd (gFDCBs s))) (\<lambda>r. case r of
       None \<Rightarrow> raise (Exception ''FD without cleanup callback'')
     | Some cb \<Rightarrow> thenP (remove_one y fd cb) ?rest) s))"
    proof (cases "map_find fd (gFDCBs s)")
      case None
      with r show ?thesis by (simp add: run_simps)
    next
      case (Some cb)
      have "reg Map.empty {} (snd (thenP (remove_one y fd cb) ?rest s))"
        using keeps_remove_one [OF Cons(2) r Some] rest by (rule keeps_then_from)
      with Some show ?thesis by (simp add: run_simps)
    qed
  qed
qed (simp add: reg_inert)

section \<open>The loop\<close>

lemma keeps_processRemoveQueue:
  "fresh_fds (sys_os y) \<Longrightarrow> keeps (reg Map.empty {}) (processRemoveQueue y)"
  unfolding processRemoveQueue_def by (intro reg_control keeps_remove_loop reg_inert; simp)

lemma keeps_processCommandQueue:
  "fresh_fds (sys_os y) \<Longrightarrow> keeps (reg A H) (processCommandQueue y)"
  unfolding processCommandQueue_def run_command_def
  by (intro reg_control keeps_case_prod loop.run_keeps reg_inert; simp)

lemma keeps_update_pfds: "keeps (reg A H) update_pfds"
  unfolding update_pfds_def by (intro reg_inert; simp)

lemma keeps_callbacks:
  assumes "fresh_fds (sys_os y)"
  shows "keeps (reg A H) (onRead y fd cb)" "keeps (reg A H) (onHUP y fd cb)" "keeps (reg A H) (onError y fd cb)"
  unfolding onRead_def onHUP_def onError_def device_lost_def set_quit_def
  by (cases cb; auto intro!: reg_control reg_inert keeps_newCommandClient loop.keeps_readFromDevice
      loop.keeps_fireEvent assms)+

lemma keeps_check_quit: "keeps (reg A H) (check_quit y)"
proof -
  have "keeps (reg A H) (reap_zombies os n)" for os n
    by (induction n) (auto intro!: reg_control reg_inert)
  then show ?thesis
    unfolding check_quit_def deliver_def signull_def set_quit_def by (intro reg_control reg_inert; simp)
qed

lemma keeps_dispatch: "fresh_fds (sys_os y) \<Longrightarrow> keeps (reg A H) (dispatch y fd ev)"
  unfolding dispatch_def by (intro reg_control keeps_callbacks keeps_check_quit reg_inert; simp)

lemma keeps_dispatch_all: "fresh_fds (sys_os y) \<Longrightarrow> keeps (reg A H) (dispatch_all y evs)"
proof (induction evs)
  case (Cons x evs)
  then show ?case by (cases x) (auto intro!: reg_control keeps_dispatch reg_inert)
qed (simp add: reg_inert)

lemma keeps_poll_once: "fresh_fds (sys_os y) \<Longrightarrow> keeps (reg A H) (poll_once y)"
  unfolding poll_once_def by (intro reg_control keeps_dispatch_all reg_inert; simp)

lemma keeps_daemon_loop: "fresh_fds (sys_os y) \<Longrightarrow> keeps (reg Map.empty {}) (daemon_loop y n)"
proof (induction n)
  case (Suc n)
  then show ?case
    unfolding daemon_loop.simps
    by (intro reg_control keeps_processCommandQueue keeps_update_pfds keeps_processRemoveQueue keeps_poll_once
        keeps_check_quit reg_inert) simp_all
qed (simp add: reg_inert)

section \<open>Starting up\<close>

lemma keeps_listenUnix:
  assumes "fresh_fds os"
  shows "keeps (owns_sock A H outs v) (listenUnix os junk abstract p)"
  unfolding listenUnix_def bindUnix_def Socket_listen_def
  by (intro keeps_intro keeps_openUnixStream [OF assms] keeps_obj keeps_set_obj owns_sock_inert inert_intro)
    (auto simp: owns_sock_def)

lemma listenUnix_fd:
  assumes "fresh_fds os" and "listenUnix os junk abstract p x = (Ret u, y)"
  shows "sock_fd (snd y) \<noteq> - 1"
  using assms(2) unfolding listenUnix_def
proof (rule thenP_establishes)
  show "keeps (\<lambda>x. sock_fd (snd x) \<noteq> - 1) (Socket_listen os)"
    unfolding Socket_listen_def
    by (intro keeps_intro keeps_obj keeps_lift; simp add: keeps_def ignores_history_def)
  show "sock_fd (snd z) \<noteq> - 1" if "bindUnix os junk abstract p x = (Ret u, z)" for z u
    using that unfolding bindUnix_def
  proof (rule thenP_establishes)
    show "sock_fd (snd z) \<noteq> - 1" if "openUnixStream os x = (Ret u, z)" for z u
      using assms(1) that by (rule openUnixStream_fd)
  qed (intro keeps_intro keeps_obj keeps_set_obj keeps_lift; simp add: keeps_def ignores_history_def)
qed

lemma held_init: "held Map.empty {} [] [] daemon_init"
  by (simp add: held_def reg_def registry_ok_def daemon_init_def in_view_def)

lemma held_server: "held A H outs v s \<Longrightarrow> held A H outs v (s\<lparr>gServer := so\<rparr>)"
  by (auto simp: held_def reg_def in_view_def)

lemma on_server_listens:
  assumes "fresh_fds os" and "held Map.empty {} [] [] s" and "sock_fd (gServer s) = - 1"
    and "on_gServer (listenUnix os junk abstract p) s = (Ret u, s')"
  shows "held Map.empty {sock_fd (gServer s')} [] [] s'"
proof -
  obtain s1 so where l: "listenUnix os junk abstract p (s, gServer s) = (Ret u, (s1, so))"
    and s': "s' = s1\<lparr>gServer := so\<rparr>"
    using assms(4) by (auto simp: on_gServer_def with_obj_def split: prod.splits)
  have "owns_sock Map.empty {} [] [] (s, gServer s)" using assms(2,3) by (simp add: owns_sock_def)
  from keepsD [OF keeps_listenUnix [OF assms(1)] this l] listenUnix_fd [OF assms(1) l]
  have "held Map.empty {sock_fd so} [] [] s1" by (simp add: owns_sock_def)
  then show ?thesis unfolding s' by (simp add: held_server)
qed

lemma daemon_listen_held:
  assumes "fresh_fds (sys_os y)" and "daemon_listen y sockname daemon_init = (Ret u, s)"
  shows "held Map.empty {sock_fd (gServer s)} [] [] s"
proof -
  let ?unlink = "do_ignore (sys_os y) (Unlink sockname)"
  have none: "sock_fd (gServer daemon_init) = - 1" by (simp add: daemon_init_def Socket_new_def)
  have "held Map.empty {} [] [] (snd (?unlink daemon_init))"
    using keeps_held_inert [OF inert_calls(4)] held_init by (simp add: keeps_def)
  moreover have "gServer (snd (?unlink daemon_init)) = gServer daemon_init" "fst (?unlink daemon_init) = Ret ()"
    by (simp_all add: run_simps)
  ultimately show ?thesis
    using assms on_server_listens [OF assms(1) held_init none] none
      on_server_listens [OF assms(1), of "snd (?unlink daemon_init)"]
    by (cases "?unlink daemon_init") (auto simp: daemon_listen_def run_bind split: if_splits)
qed

lemma daemon_setup_reg:
  assumes "fresh_fds (sys_os y)" and "daemon_setup y sockname files daemon_init = (Ret u, s)"
  shows "reg Map.empty {} s"
proof -
  obtain s1 where l: "daemon_listen y sockname daemon_init = (Ret (), s1)"
    and rest: "bindP (getP (\<lambda>s. sock_fd (gServer s))) (\<lambda>sfd.
      thenP (modifyP (\<lambda>s. s\<lparr>pfds := [sfd]\<rparr>))
      (thenP (set_callbacks sfd CbServer)
        (forP (sourceCommandFile (sys_os y) (run_text y) (sys_fuel y) (- 1)) files))) s1 = (Ret u, s)"
    using assms(2) unfolding daemon_setup_def by (auto simp: run_bind split: prod.splits outcome.splits)
  have h: "held Map.empty {sock_fd (gServer s1)} [] [] s1" using daemon_listen_held [OF assms(1) l] .
  let ?s2 = "s1\<lparr>pfds := [sock_fd (gServer s1)], gFDCBs := map_set (sock_fd (gServer s1)) CbServer (gFDCBs s1)\<rparr>"
  have "reg Map.empty {} ?s2"
    using registry_ok_server [of Map.empty "sock_fd (gServer s1)" "{}"] h
    by (auto simp: held_def reg_def in_view_def)
  moreover have "forP (sourceCommandFile (sys_os y) (run_text y) (sys_fuel y) (- 1)) files ?s2 = (Ret u, s)"
    using rest by (simp add: run_simps set_callbacks_def)
  moreover have "keeps (reg Map.empty {}) (forP (sourceCommandFile (sys_os y) (run_text y) (sys_fuel y) (- 1)) files)"
    by (intro keeps_for loop.keeps_sourceCommandFile assms(1))
  ultimately show ?thesis by (metis keepsD)
qed

section \<open>The registry of the daemon\<close>

definition registry :: "dstate \<Rightarrow> bool" where
  "registry s \<longleftrightarrow>
     (\<forall>fd cb. map_find fd (gFDCBs s) = Some cb \<longrightarrow> 0 \<le> fd \<and> fd \<in> fd_table (history s)) \<and>
     (\<forall>fd p i. map_find fd (gFDCBs s) = Some (CbDevice p i) \<longleftrightarrow>
        (\<exists>n inp. map_find n (gInputs s) = Some inp \<and> inp_ptr inp = p \<and> inp_id inp = i \<and> in_fd (device inp) = fd)) \<and>
     (\<forall>n n' inp inp'. map_find n (gInputs s) = Some inp \<longrightarrow> map_find n' (gInputs s) = Some inp' \<longrightarrow>
        inp_ptr inp = inp_ptr inp' \<longrightarrow> n = n') \<and>
     (\<forall>fd. map_find fd (gFDCBs s) = Some CbOutput \<longleftrightarrow> (\<exists>n. map_find n (gOutputs s) = Some fd)) \<and>
     (\<forall>n n' fd. map_find n (gOutputs s) = Some fd \<longrightarrow> map_find n' (gOutputs s) = Some fd \<longrightarrow> n = n') \<and>
     (\<forall>fd. map_find fd (gFDCBs s) = Some CbClient \<longleftrightarrow> map_find fd (gCommandClients s) = Some fd) \<and>
     (\<forall>key\<in>fst ` set (gHotkeys s). \<exists>n inp. map_find n (gInputs s) = Some inp \<and> inp_id inp = hk_device key) \<and>
     closes_ok (history s)"

lemma reg_registry:
  assumes "reg A {} s"
  shows "registry s"
proof -
  have ok: "registry_ok A {} (gFDCBs s) (in_view s) (gOutputs s) (gCommandClients s) (gHotkeys s)
      (fd_table (history s)) (next_ptr s)" and "closes_ok (history s)" using assms by (simp_all add: reg_def)
  note D = registry_okD [OF ok]
  have view: "map_find n (in_view s) = Some (i, p, fd) \<longleftrightarrow>
      (\<exists>inp. map_find n (gInputs s) = Some inp \<and> inp_ptr inp = p \<and> inp_id inp = i \<and> in_fd (device inp) = fd)" for n i p fd
    by (auto simp: find_view)
  show ?thesis
    unfolding registry_def
  proof (intro conjI allI ballI impI)
    show "0 \<le> fd" "fd \<in> fd_table (history s)" if "map_find fd (gFDCBs s) = Some cb" for fd cb
      using D(6) [OF that] by simp_all
    show "map_find fd (gFDCBs s) = Some (CbDevice p i) \<longleftrightarrow>
        (\<exists>n inp. map_find n (gInputs s) = Some inp \<and> inp_ptr inp = p \<and> inp_id inp = i \<and> in_fd (device inp) = fd)" for fd p i
      unfolding view [symmetric] using D(8,9) by blast
    show "n = n'" if "map_find n (gInputs s) = Some inp" "map_find n' (gInputs s) = Some inp'"
        "inp_ptr inp = inp_ptr inp'" for n n' inp inp'
      using D(10) [of n "inp_id inp" "inp_ptr inp" "in_fd (device inp)" n' "inp_id inp'" "in_fd (device inp')"] that
      by (simp add: find_view)
    show "map_find fd (gFDCBs s) = Some CbOutput \<longleftrightarrow> (\<exists>n. map_find n (gOutputs s) = Some fd)" for fd
      using D(12,13) by blast
    show "n = n'" if "map_find n (gOutputs s) = Some fd" "map_find n' (gOutputs s) = Some fd" for n n' fd
      using that by (rule D(14))
    show "map_find fd (gFDCBs s) = Some CbClient \<longleftrightarrow> map_find fd (gCommandClients s) = Some fd" for fd
      using D(15) [of fd] D(16) [of fd] by auto
    show "\<exists>n inp. map_find n (gInputs s) = Some inp \<and> inp_id inp = hk_device key" if "key \<in> fst ` set (gHotkeys s)" for key
      using D(17) [OF that] unfolding view by blast
  qed (fact \<open>closes_ok (history s)\<close>)
qed

text \<open>A kernel that counts descriptors up, and gives the daemon a command file and some events.\<close>

definition next_fd :: "effect list \<Rightarrow> int" where
  "next_fd h = foldl (\<lambda>m e. case fst e of GotFd fd \<Rightarrow> max m (fd + 1) | _ \<Rightarrow> m) 3 h"

definition counting_os :: "string list \<Rightarrow> poll_events list list \<Rightarrow> kernel_event list \<Rightarrow> os" where
  "counting_os lines polls events = quiet_os\<lparr>
     os_open := (\<lambda>h c. Inr (next_fd h)),
     os_pipe := (\<lambda>h. Inr (next_fd h, next_fd h + 1)),
     os_line := (\<lambda>h c. let n = length (filter (\<lambda>e. case fst e of GetLine fd \<Rightarrow> True | _ \<Rightarrow> False) h)
        in if n < length lines then Inr (lines ! n) else Inl 0),
     os_poll := (\<lambda>h fds. let n = length (filter (\<lambda>e. case fst e of Poll fds \<Rightarrow> True | _ \<Rightarrow> False) h)
        in if n < length polls then Inr (polls ! n) else Inl 9),
     os_event := (\<lambda>h c. let n = length (filter (\<lambda>e. case fst e of ReadEvent fd \<Rightarrow> True | _ \<Rightarrow> False) h)
        in if n < length events then Inr (events ! n) else Inl 0)\<rparr>"

lemma next_fd_bound: "fd \<in> fd_table h \<Longrightarrow> fd < next_fd h" "3 \<le> next_fd h"
proof -
  let ?f = "\<lambda>m e. case fst e of GotFd fd \<Rightarrow> max m (fd + 1) | _ \<Rightarrow> (m :: int)"
  have 1: "(\<forall>fd\<in>foldl fd_step F h. fd < foldl ?f m h)" if "\<forall>fd\<in>F. fd < m" for F m
    using that
  proof (induction h arbitrary: F m)
    case (Cons e h)
    have "\<forall>fd\<in>fd_step F e. fd < ?f m e" using Cons.prems by (auto simp: fd_step_def split: call.split)
    with Cons.IH show ?case by simp
  qed simp
  from this [of "{}" 3] show "fd \<in> fd_table h \<Longrightarrow> fd < next_fd h" by (simp add: fd_table_def next_fd_def)
  have "m \<le> foldl ?f m h" for m
  proof (induction h arbitrary: m)
    case (Cons e h)
    have "m \<le> ?f m e" by (simp split: call.split)
    with Cons [of "?f m e"] show ?case by simp
  qed simp
  then show "3 \<le> next_fd h" by (simp add: next_fd_def)
qed

lemma fresh_counting_os: "fresh_fds (counting_os lines polls events)"
proof -
  have "next_fd h \<notin> fd_table h" "next_fd h + 1 \<notin> fd_table h" "0 \<le> next_fd h" for h
    using next_fd_bound(1) [of "next_fd h" h] next_fd_bound(1) [of "next_fd h + 1" h] next_fd_bound(2) [of h] by auto
  then show ?thesis by (auto simp: fresh_fds_def counting_os_def)
qed

definition demo_sys :: "string list \<Rightarrow> poll_events list list \<Rightarrow> kernel_event list \<Rightarrow> sys" where
  "demo_sys lines polls events = \<lparr>sys_os = counting_os lines polls events, sys_uapi = linux_uapi,
     sys_endian = Little, sys_junk = replicate 108 0, sys_fuel = 20, sys_signals = (\<lambda>_. [])\<rparr>"

text \<open>
  C2. Whatever clients, devices and the kernel do, provided the kernel hands out no
  descriptor that is still open: at the head of every round of the daemon's loop, and where
  the loop ends, the callbacks are exactly those of the server, the clients, the inputs and
  the outputs, each of an open descriptor of its own; no two inputs share a device object and
  no two outputs a descriptor; every hotkey belongs to a device that is there; and no
  descriptor was ever closed that was not open.
\<close>

theorem daemon_registry:
  assumes "fresh_fds (sys_os y)" and "daemon_setup y sockname files daemon_init = (Ret (), s)"
  shows "registry s \<and> registry (snd (daemon_loop y n s))"
  using reg_registry [OF daemon_setup_reg [OF assms]]
    reg_registry [OF keeps_daemon_loop [OF assms(1), unfolded keeps_def, rule_format, OF daemon_setup_reg [OF assms]]]
  by blast

text \<open>A run in which a client connects, adds a device and a hotkey, and the device has an event.\<close>

definition demo_lines :: "string list" where
  "demo_lines = [''device add k /dev/input/event7'' @ [NL], ''hotkey add k KEY:30:1 device remove k'' @ [NL]]"

definition readable :: poll_events where
  "readable = \<lparr>pe_err = False, pe_hup = False, pe_in = True\<rparr>"

definition demo :: sys where
  "demo = demo_sys demo_lines
     [[readable], [no_events, readable], [no_events, readable], [no_events, no_events, readable]]
     [\<lparr>ke_sec = 1, ke_usec = 2, ke_type = 1, ke_code = 30, ke_value = 1\<rparr>]"

lemma demo_setup: "fst (daemon_setup demo ''@s'' [] daemon_init) = Ret ()"
  by code_simp

theorem daemon_registry_witness:
  "registry (snd (daemon_loop demo 6 (snd (daemon_setup demo ''@s'' [] daemon_init))))"
proof -
  have "fresh_fds (sys_os demo)" by (simp add: demo_def demo_sys_def fresh_counting_os)
  moreover have "daemon_setup demo ''@s'' [] daemon_init = (Ret (), snd (daemon_setup demo ''@s'' [] daemon_init))"
    by (simp add: prod_eq_iff demo_setup)
  ultimately show ?thesis by (rule daemon_registry [THEN conjunct2])
qed

text \<open>
  C3. No command pulls a device out from under its callback: whatever text is run (and
  whatever event actions and command files it runs in turn), the descriptor of a device that
  had a callback still has it, and the object the callback points to is still the device of
  an input with that id and that open descriptor. Devices leave only in processRemoveQueue.
\<close>

theorem device_outlives_commands:
  assumes "fresh_fds (sys_os y)" and "reg Map.empty {} s"
    and "map_find fd (gFDCBs s) = Some (CbDevice p i)" and "run_text y alive client text s = (r, s')"
  shows "map_find fd (gFDCBs s') = Some (CbDevice p i) \<and> fd \<in> fd_table (history s') \<and>
    (\<exists>name inp. input_at p s' = Some (name, inp) \<and> inp_id inp = i \<and> in_fd (device inp) = fd)"
proof -
  have "reg [fd \<mapsto> CbDevice p i] {} s"
    using assms(2,3) by (rule reg_single)
  then have reg': "reg [fd \<mapsto> CbDevice p i] {} s'"
    using keepsD [OF loop.run_keeps [OF assms(1)] _ assms(4)] by blast
  then have ok: "registry_ok [fd \<mapsto> CbDevice p i] {} (gFDCBs s') (in_view s') (gOutputs s') (gCommandClients s')
      (gHotkeys s') (fd_table (history s')) (next_ptr s')" by (simp add: reg_def)
  have cb: "map_find fd (gFDCBs s') = Some (CbDevice p i)"
    using registry_okD(5) [OF ok] by (force simp: map_le_def)
  with registry_okD(6) [OF ok cb] input_at_registered [OF reg' cb] show ?thesis by blast
qed

definition one_device :: dstate where
  "one_device = daemon_init\<lparr>history := [(GotFd 5, None)], gFDCBs := [(5, CbDevice 0 0)],
     gInputs := [(''k'', \<lparr>inp_id = 0, inp_ptr = 0, device = sample_device\<lparr>in_fd := 5\<rparr>\<rparr>)], next_ptr := 1\<rparr>"

lemma reg_one_device: "reg Map.empty {} one_device"
proof -
  have f: "map_find x [(a, b)] = (if x = a then Some b else None)" for x a :: 'k and b :: 'v
    by (simp add: map_find_def)
  show ?thesis
    unfolding reg_def
  proof
    show "registry_ok Map.empty {} (gFDCBs one_device) (in_view one_device) (gOutputs one_device)
        (gCommandClients one_device) (gHotkeys one_device) (fd_table (history one_device)) (next_ptr one_device)"
      by (rule registry_okI)
        (auto simp: one_device_def daemon_init_def in_view_def f map_ok_def fd_table_def close_step split: if_splits)
  qed (simp add: one_device_def closes_ok_def close_step)
qed

theorem device_outlives_commands_witness:
  "let s' = snd (run_text demo (\<lambda>_. True) 4 ''device remove k; info'' one_device) in
   map_find 5 (gFDCBs s') = Some (CbDevice 0 0) \<and> 5 \<in> fd_table (history s') \<and>
   (\<exists>name inp. input_at 0 s' = Some (name, inp) \<and> inp_id inp = 0 \<and> in_fd (device inp) = 5)"
proof -
  have 1: "fresh_fds (sys_os demo)" by (simp add: demo_def demo_sys_def fresh_counting_os)
  have 2: "map_find 5 (gFDCBs one_device) = Some (CbDevice 0 0)" by (simp add: one_device_def map_find_def)
  obtain r s' where "run_text demo (\<lambda>_. True) 4 ''device remove k; info'' one_device = (r, s')" by fastforce
  with device_outlives_commands [OF 1 reg_one_device 2 this] show ?thesis by simp
qed

end
