(* ===== verification/DaemonProps.thy ===== *)
theory DaemonProps
  imports DaemonInv
begin

text \<open>
  What the operations of the daemon do: how an event is routed, what removing a device and
  failing to add one change, what an action on output-changed can do, and what happens to an
  output that cannot be written to.
\<close>

section \<open>Routing an event\<close>

text \<open>
  The abstract router: a map of hotkeys, the current output and whether events are written.
  An event triggers the command of its hotkey, or goes to the output, or is dropped.
\<close>

record router =
  hotkey :: "HotkeyDef \<Rightarrow> string option"
  target :: int
  writing :: bool

datatype routing = Queue string | Send int "byte list" | Drop

definition route :: "router \<Rightarrow> endian \<Rightarrow> 16 word \<Rightarrow> InputEvent \<Rightarrow> routing" where
  "route r e dev ev =
     (case (if unat (ev_type ev) < EV_CNT
            then hotkey r (HotkeyDef dev (ev_type ev) (ev_code ev) (ev_value ev)) else None) of
        Some cmd \<Rightarrow> Queue cmd
      | None \<Rightarrow> if target r \<noteq> - 1 \<and> writing r then Send (target r) (event_packet e dev ev) else Drop)"

definition router_of :: "dstate \<Rightarrow> router" where
  "router_of s = \<lparr>hotkey = (\<lambda>k. map_find k (gHotkeys s)), target = gCurrentOutput_fd s, writing = gWrite s\<rparr>"

definition routed :: "os \<Rightarrow> routing \<Rightarrow> dstate \<Rightarrow> dstate" where
  "routed os r s = (case r of
     Queue cmd \<Rightarrow> s\<lparr>gCommandQueue := gCommandQueue s @ [(- 1, cmd)]\<rparr>
   | Send fd pkt \<Rightarrow> log_call (Write fd pkt) None s
   | Drop \<Rightarrow> s)"

definition event_read :: "kernel_event \<Rightarrow> InputEvent" where
  "event_read ke = \<lparr>tv_sec = ke_sec ke, tv_usec = ke_usec ke, ev_type = ke_type ke, ev_code = ke_code ke,
     ev_value = ke_value ke, padding = 0\<rparr>"

lemma run_read_event:
  assumes "input_at p s = Some (name, i)" and "map_ok (gInputs s)" and "\<not> eof (device i)"
    and "os_event os (history s) (ReadEvent (in_fd (device i))) = Inr ke"
  shows "read_event os p s =
    (Ret (Some (event_read ke)), log_call (ReadEvent (in_fd (device i))) None s)"
proof -
  have f: "map_find name (gInputs s) = Some i" using assms(1,2) by (simp add: input_at_find)
  then have "map_set name i (gInputs s) = gInputs s" using assms(2) by (simp add: map_set_find_same)
  then have "set_device name (device i) (log_call (ReadEvent (in_fd (device i))) None s) =
      (Ret (), log_call (ReadEvent (in_fd (device i))) None s)"
    using f by (simp add: set_device_def run_simps log_call_def)
  then show ?thesis using assms
    by (simp add: read_event_def InDevice_read_def event_read_def run_simps err_of_def)
qed

lemma run_readFromDevice:
  assumes "input_at p s = Some (name, i)" and "map_ok (gInputs s)" and "\<not> eof (device i)"
    and "os_event os (history s) (ReadEvent (in_fd (device i))) = Inr ke"
    and "writes_ok os (gCurrentOutput_fd s)"
  shows "readFromDevice os e run p dev s =
    (Ret (), routed os (route (router_of s) e dev (event_read ke))
       (log_call (ReadEvent (in_fd (device i))) None s))"
proof -
  let ?s = "log_call (ReadEvent (in_fd (device i))) None s"
  have fields: "gHotkeys ?s = gHotkeys s" "gCommandQueue ?s = gCommandQueue s"
    "gCurrentOutput_fd ?s = gCurrentOutput_fd s" "gWrite ?s = gWrite s"
    by (simp_all add: log_call_def)
  have w: "os_call os h (Write (gCurrentOutput_fd s) bs) = None" for h bs
    using assms(5) by (simp add: writes_ok_def)
  show ?thesis
    by (auto simp: readFromDevice_def run_simps run_read_event [OF assms(1-4)] tryHotkey_def queueCommand_def
        forward_event_def mustWrite_def route_def router_of_def routed_def fields w linorder_not_less
        split: option.split)
qed

text \<open>
  C5. The daemon routes the events of a device as the abstract router says: reading one
  event leads to exactly one of three effects, a command put on the queue, one packet written
  to the current output, or nothing; a hotkey consumes its event, and nothing but the history
  and the queue changes.
\<close>

theorem readFromDevice_routes:
  assumes "input_at p s = Some (name, i)" and "map_ok (gInputs s)" and "\<not> eof (device i)"
    and "os_event os (history s) (ReadEvent (in_fd (device i))) = Inr ke"
    and "writes_ok os (gCurrentOutput_fd s)"
  shows "readFromDevice os e run p dev s =
    (Ret (), routed os (route (router_of s) e dev (event_read ke))
       (log_call (ReadEvent (in_fd (device i))) None s))"
  using assms by (rule run_readFromDevice)

definition one_event :: kernel_event where
  "one_event = \<lparr>ke_sec = 1, ke_usec = 2, ke_type = 1, ke_code = 30, ke_value = 1\<rparr>"

theorem readFromDevice_routes_witness:
  "let s = one_device\<lparr>gCurrentOutput_fd := 9, gWrite := True\<rparr>;
       os = counting_os [] [] [one_event] in
   readFromDevice os Big (\<lambda>_ _ _. undef) 0 7 s =
     (Ret (), log_call (Write 9 (event_packet Big 7 (event_read one_event))) None (log_call (ReadEvent 5) None s))"
proof -
  let ?s = "one_device\<lparr>gCurrentOutput_fd := 9, gWrite := True\<rparr>"
  let ?os = "counting_os [] [] [one_event]"
  have "input_at 0 ?s = Some (''k'', \<lparr>inp_id = 0, inp_ptr = 0, device = sample_device\<lparr>in_fd := 5\<rparr>\<rparr>)"
    by (simp add: input_at_def one_device_def)
  moreover have "map_ok (gInputs ?s)" by (simp add: one_device_def map_ok_def)
  moreover have "\<not> eof (sample_device\<lparr>in_fd := 5\<rparr>)" by (simp add: sample_device_def)
  moreover have "os_event ?os (history ?s) (ReadEvent 5) = Inr one_event"
    by (simp add: counting_os_def one_device_def)
  moreover have "writes_ok ?os 9" by (simp add: writes_ok_def counting_os_def quiet_os_def)
  ultimately have "readFromDevice ?os Big (\<lambda>_ _ _. undef) 0 7 ?s =
      (Ret (), routed ?os (route (router_of ?s) Big 7 (event_read one_event)) (log_call (ReadEvent 5) None ?s))"
    using readFromDevice_routes [of 0 ?s "''k''" "\<lparr>inp_id = 0, inp_ptr = 0, device = sample_device\<lparr>in_fd := 5\<rparr>\<rparr>"
        ?os one_event Big "\<lambda>_ _ _. undef" 7] by simp
  moreover have "route (router_of ?s) Big 7 (event_read one_event) = Send 9 (event_packet Big 7 (event_read one_event))"
    by (simp add: route_def router_of_def one_device_def daemon_init_def)
  ultimately show ?thesis by (simp add: routed_def Let_def)
qed

section \<open>Devices coming and going\<close>

lemma run_announce_removal:
  assumes "\<And>fd. fd \<in> snd ` set outs \<Longrightarrow> writes_ok os fd"
  shows "forP (\<lambda>(name, fd). writeToOutput os fd bs) outs s =
    (Ret (), s\<lparr>history := history s @ map (\<lambda>(name, fd). (Write fd bs, None)) outs\<rparr>)"
  using assms
proof (induction outs arbitrary: s)
  case (Cons x outs)
  obtain name fd where x: "x = (name, fd)" by (cases x)
  have "os_call os h (Write fd bs) = None" for h using Cons.prems by (simp add: x writes_ok_def)
  with Cons show ?case by (simp add: x run_simps writeToOutput_def log_call_def)
qed (simp add: run_simps)

lemma find_filter_keys: "map_find k (filter (\<lambda>(k, v). P k) m) = (if P k then map_find k m else None)"
  by (induction m) (auto simp: map_find_def)

lemma removal_run:
  assumes "input_at p s = Some (name, i)" and "in_fd (device i) \<noteq> - 1"
    and "\<And>fd. fd \<in> snd ` set (gOutputs s) \<Longrightarrow> writes_ok os fd"
  shows "\<exists>s'. finishDeviceRemoval os e p s = (Ret (), s') \<and>
    gInputs s' = map_erase name (gInputs s) \<and>
    (\<forall>key. map_find key (gHotkeys s') = (if hk_device key = inp_id i then None else map_find key (gHotkeys s))) \<and>
    map fst (history s') = map fst (history s) @
      (if persistent (device i) then []
       else map (\<lambda>(n, fd). Write fd (remove_packet e (inp_id i))) (gOutputs s)) @ [Close (in_fd (device i))] \<and>
    gInputIDFreeList s' = gInputIDFreeList s"
  using assms(1,2)
  by (auto simp: finishDeviceRemoval_def announceDeviceRemoval_def cleanupDeviceHotkeys_def InDevice_delete_def
      run_simps run_announce_removal [OF assms(3)] find_filter_keys log_call_def split_beta comp_def)

text \<open>
  C15. Removing a device: its entry goes and its descriptor is closed, after every output was
  sent a removal packet with its id, in the order of the outputs' names, unless the device is
  persistent; the hotkeys of its id are gone and all others stay. The id is not put on the
  list of free ids.
\<close>

theorem finishDeviceRemoval_effect:
  assumes "input_at p s = Some (name, i)" and "in_fd (device i) \<noteq> - 1"
    and "\<And>fd. fd \<in> snd ` set (gOutputs s) \<Longrightarrow> writes_ok os fd"
  shows "\<exists>s'. finishDeviceRemoval os e p s = (Ret (), s') \<and>
    gInputs s' = map_erase name (gInputs s) \<and>
    (\<forall>key. map_find key (gHotkeys s') = (if hk_device key = inp_id i then None else map_find key (gHotkeys s))) \<and>
    map fst (history s') = map fst (history s) @
      (if persistent (device i) then []
       else map (\<lambda>(n, fd). Write fd (remove_packet e (inp_id i))) (gOutputs s)) @ [Close (in_fd (device i))] \<and>
    gInputIDFreeList s' = gInputIDFreeList s"
  using assms by (rule removal_run)

definition input_of :: "16 word \<Rightarrow> nat \<Rightarrow> int \<Rightarrow> Input" where
  "input_of i p fd = \<lparr>inp_id = i, inp_ptr = p, device = sample_device\<lparr>in_fd := fd\<rparr>\<rparr>"

definition two_devices :: dstate where
  "two_devices = daemon_init\<lparr>gInputs := [(''a'', input_of 0 0 5), (''b'', input_of 1 1 6)],
     gOutputs := [(''pc'', 8)], gHotkeys := [(HotkeyDef 0 1 30 1, ''nop''), (HotkeyDef 1 1 30 1, ''quit'')]\<rparr>"

lemma sample_fd: "persistent (sample_device\<lparr>in_fd := fd\<rparr>) = False" "in_fd (sample_device\<lparr>in_fd := fd\<rparr>) = fd"
  by (simp_all add: sample_device_def)

lemma two_devices_facts:
  "input_at 0 two_devices = Some (''a'', input_of 0 0 5)" "in_fd (device (input_of 0 0 5)) \<noteq> - 1"
  "\<And>fd. fd \<in> snd ` set (gOutputs two_devices) \<Longrightarrow> writes_ok quiet_os fd"
  by (simp_all add: input_at_def two_devices_def input_of_def sample_fd writes_ok_def quiet_os_def)

theorem finishDeviceRemoval_effect_witness:
  "\<exists>s'. finishDeviceRemoval quiet_os Little 0 two_devices = (Ret (), s') \<and>
     map fst (gInputs s') = [''b''] \<and> map_find (HotkeyDef 0 1 30 1) (gHotkeys s') = None \<and>
     map fst (history s') = [Write 8 (remove_packet Little 0), Close 5]"
proof -
  from finishDeviceRemoval_effect [OF two_devices_facts, of Little]
  obtain s' where "finishDeviceRemoval quiet_os Little 0 two_devices = (Ret (), s')"
    and "gInputs s' = map_erase ''a'' (gInputs two_devices)"
    and hot: "\<And>key. map_find key (gHotkeys s') =
      (if hk_device key = inp_id (input_of 0 0 5) then None else map_find key (gHotkeys two_devices))"
    and "map fst (history s') = map fst (history two_devices) @
      (if persistent (device (input_of 0 0 5)) then []
       else map (\<lambda>(n, fd). Write fd (remove_packet Little (inp_id (input_of 0 0 5)))) (gOutputs two_devices)) @
      [Close (in_fd (device (input_of 0 0 5)))]" by blast
  with hot [of "HotkeyDef 0 1 30 1"] show ?thesis
    by (simp add: two_devices_def daemon_init_def map_erase_def input_of_def sample_fd)
qed

lemma length_erase:
  assumes "map_ok m" and "map_find k m = Some v"
  shows "length (map_erase k m) = length m - 1"
proof -
  have "distinct (map fst m)" using assms(1) by (auto simp: map_ok_def strict_sorted_iff)
  with assms(2) show ?thesis
  proof (induction m)
    case (Cons x m)
    obtain k' v' where x: "x = (k', v')" by (cases x)
    show ?case
    proof (cases "k' = k")
      case True
      with Cons.prems have "k \<notin> fst ` set m" by (simp add: x)
      then have "filter (\<lambda>(k', v). k' \<noteq> k) m = m" by (intro filter_True) force
      with True show ?thesis by (simp add: x map_erase_def)
    next
      case False
      with Cons have "length (map_erase k m) = length m - 1" by (simp add: x map_find_def)
      moreover have "m \<noteq> []" using False Cons.prems by (auto simp: x map_find_def)
      ultimately show ?thesis using False by (simp add: x map_erase_def)
    qed
  qed (simp add: map_find_def)
qed

text \<open>
  C20. A removal can make the next device share the id of one that is still there: with no
  free ids on the list, if some other device has the id one below the number of inputs, the
  device that is added after the removal gets that same id.
\<close>

theorem removed_id_reused:
  assumes "input_at p s = Some (name, i)" and "map_ok (gInputs s)" and "gInputIDFreeList s = []"
    and "map_find other (gInputs s) = Some j" and "other \<noteq> name" and "length (gInputs s) \<le> 65536"
    and "inp_id j = word_of_nat (length (gInputs s) - 1)"
    and "finishDeviceRemoval os e p s = (Ret (), s')"
  shows "map_find other (gInputs s') = Some j \<and> fst (getNextInputID s') = Ret (inp_id j)"
proof -
  have name: "map_find name (gInputs s) = Some i" using assms(1,2) by (simp add: input_at_find)
  have frame: "gInputs (snd (announceDeviceRemoval os e i s)) = gInputs s \<and>
      gInputIDFreeList (snd (announceDeviceRemoval os e i s)) = gInputIDFreeList s"
  proof -
    have "keeps (\<lambda>t. gInputs t = gInputs s \<and> gInputIDFreeList t = gInputIDFreeList s) (announceDeviceRemoval os e i)"
      unfolding announceDeviceRemoval_def writeToOutput_def removeFD_def split_beta
      by (intro keeps_intro keeps_modify) (auto simp: ignores_history_def log_call_def)
    then show ?thesis by (simp add: keeps_def)
  qed
  have s': "gInputs s' = map_erase name (gInputs s) \<and> gInputIDFreeList s' = []"
    using assms(1,3,8) frame
    by (auto simp: finishDeviceRemoval_def cleanupDeviceHotkeys_def InDevice_delete_def run_simps log_call_def
        split: if_splits prod.splits outcome.splits)
  have n: "length (map_erase name (gInputs s)) = length (gInputs s) - 1"
    using length_erase [OF assms(2) name] .
  have "length (gInputs s) - 1 \<le> 65535" using assms(6) by simp
  with s' n assms(4,5,7) show ?thesis
    by (simp add: getNextInputID_def run_simps map_find_erase)
qed

theorem removed_id_reused_witness:
  "\<exists>s'. finishDeviceRemoval quiet_os Little 0 two_devices = (Ret (), s') \<and>
     map_option inp_id (map_find ''b'' (gInputs s')) = Some 1 \<and> fst (getNextInputID s') = Ret 1"
proof -
  obtain s' where run: "finishDeviceRemoval quiet_os Little 0 two_devices = (Ret (), s')"
    using removal_run [OF two_devices_facts, of Little] by blast
  have "map_ok (gInputs two_devices)" by (simp add: two_devices_def map_ok_def)
  moreover have "gInputIDFreeList two_devices = []" by (simp add: two_devices_def daemon_init_def)
  moreover have "map_find ''b'' (gInputs two_devices) = Some (input_of 1 1 6)"
    by (simp add: two_devices_def map_find_def)
  moreover have "length (gInputs two_devices) = 2" by (simp add: two_devices_def)
  ultimately show ?thesis
    using removed_id_reused [OF two_devices_facts(1), of "''b''" "input_of 1 1 6" quiet_os Little s'] run
    by (simp add: input_of_def)
qed

text \<open>A device that cannot be added.\<close>

definition adding :: "dstate \<Rightarrow> dstate \<Rightarrow> bool" where
  "adding s t \<longleftrightarrow> gInputs t = gInputs s \<and> gFDCBs t = gFDCBs s \<and> gFDAddQueue t = gFDAddQueue s \<and>
     gOutputs t = gOutputs s \<and> gHotkeys t = gHotkeys s \<and> gInputIDFreeList t = gInputIDFreeList s"

lemma ignores_adding: "ignores_history (adding s)"
  by (auto simp: ignores_history_def adding_def log_call_def)

lemma keeps_write_entries:
  "ignores_history I \<Longrightarrow> keeps I (write_entries os u e dfd fd evs entry absbits)"
proof (induction evs arbitrary: entry absbits)
  case (Cons ev evs)
  then show ?case
    unfolding write_entries.simps Let_def in_ctl_def mustWrite_def by (intro keeps_intro; simp)
qed (simp add: keeps_intro)

lemma keeps_writeNE2AddDevice:
  "ignores_history I \<Longrightarrow> keeps I (writeNE2AddDevice os u e d fd dev)"
  unfolding writeNE2AddDevice_def write_axis_def in_ctl_def mustWrite_def
  by (intro keeps_intro keeps_write_entries; simp)

lemma keeps_adding_announce: "keeps (adding s) (announceDevice_all os u e inp)"
  unfolding announceDevice_all_def announceDevice_def removeFD_def split_beta
  by (intro keeps_intro keeps_modify keeps_writeNE2AddDevice ignores_adding)
    (auto simp: adding_def)

lemma keeps_adding_new: "keeps (adding s) (InDevice_new os e path)"
  unfolding InDevice_new_def Let_def in_ctl_def by (intro keeps_intro ignores_adding)

lemma announce_returns: "fst (announceDevice_all os u e i s) \<noteq> Throw ex"
proof -
  have one: "fst (announceDevice os u e i fd s) \<noteq> Throw ex" for fd s ex
    by (cases "writeNE2AddDevice os u e (device i) fd (inp_id i) s")
      (auto simp: announceDevice_def removeFD_def run_simps split: outcome.splits)
  have "fst (forP (\<lambda>(name, fd). bindP (announceDevice os u e i fd) (\<lambda>_. ret ())) outs s) \<noteq> Throw ex"
    for outs :: "(string \<times> int) list" and s
  proof (induction outs arbitrary: s)
    case (Cons x outs)
    obtain name fd where x: "x = (name, fd)" by (cases x)
    with Cons one [of fd s ex] show ?case
      by (auto simp: run_simps split: prod.split outcome.split)
  qed (simp add: run_simps)
  then show ?thesis
    by (simp add: announceDevice_all_def run_simps)
qed

text \<open>A constructor that throws leaves the descriptor it has opened, if it has.\<close>

lemma InDevice_new_throws:
  assumes "InDevice_new os e path s = (Throw ex, t)"
  shows "fd_table (history t) = (case os_open os (history s) (Open (cstr path)) of
     Inl err \<Rightarrow> fd_table (history s) | Inr fd \<Rightarrow> insert fd (fd_table (history s)))"
  using assms
  by (auto simp: InDevice_new_def Let_def in_ctl_def run_simps run_throw_errno log_open_def log_call_def fd_step_def
      split: sum.splits outcome.splits)

lemma addDevice_throws:
  assumes "addDevice os u e name path s = (Throw ex, s')"
    and "map_find name (gInputs s) = None" and "length (gInputs s) \<le> 65535"
  obtains i t where "getNextInputID s = (Ret i, s\<lparr>gInputIDFreeList := butlast (gInputIDFreeList s)\<rparr>)"
    and "InDevice_new os e (cstr path) (s\<lparr>gInputIDFreeList := butlast (gInputIDFreeList s)\<rparr>) = (Throw ex, t)"
    and "s' = t\<lparr>gInputIDFreeList := gInputIDFreeList t @ [i]\<rparr>"
proof -
  let ?s = "s\<lparr>gInputIDFreeList := butlast (gInputIDFreeList s)\<rparr>"
  obtain i where i: "getNextInputID s = (Ret i, ?s)"
    using assms(3) by (cases "gInputIDFreeList s = []"; cases s) (auto simp: getNextInputID_def run_simps)
  obtain r t where t: "InDevice_new os e (cstr path) ?s = (r, t)" by fastforce
  show ?thesis
  proof (cases r)
    case (Ret d)
    obtain q t2 where q: "announceDevice_all os u e \<lparr>inp_id = i, inp_ptr = next_ptr t, device = d\<rparr>
        (t\<lparr>next_ptr := Suc (next_ptr t)\<rparr>) = (q, t2)"
      by fastforce
    then have "q \<noteq> Throw x" for x
      by (metis announce_returns fst_conv)
    with assms i t Ret q have False
      by (cases q) (auto simp: addDevice_def run_simps freeInputID_def Let_def addFD_def set_callbacks_def)
    then show ?thesis ..
  next
    case (Throw x)
    with assms i t have "x = ex" "s' = t\<lparr>gInputIDFreeList := gInputIDFreeList t @ [i]\<rparr>"
      by (simp_all add: addDevice_def run_simps freeInputID_def)
    with i t Throw show ?thesis using that by blast
  qed (use assms i t in \<open>simp_all add: addDevice_def run_simps freeInputID_def\<close>)
qed

text \<open>
  C16. A device that cannot be added: if addDevice throws, because the name is taken, there are
  too many devices or the device cannot be opened or queried, the inputs, callbacks, outputs,
  hotkeys and the descriptors to poll are as before, and the next device gets the id this one
  would have had. What stays behind is at most a descriptor: the one of a device that was opened
  and then could not be queried stays open (InDevice_new_leak); otherwise the open descriptors
  are as before.
\<close>

theorem addDevice_error:
  assumes "addDevice os u e name path s = (Throw ex, s')"
  shows "gInputs s' = gInputs s \<and> gFDCBs s' = gFDCBs s \<and> gFDAddQueue s' = gFDAddQueue s \<and>
    gOutputs s' = gOutputs s \<and> gHotkeys s' = gHotkeys s \<and> fst (getNextInputID s') = fst (getNextInputID s) \<and>
    fd_table (history s') =
      (if map_find name (gInputs s) \<noteq> None \<or> length (gInputs s) > 65535 then fd_table (history s)
       else case os_open os (history s) (Open (cstr (cstr path))) of
         Inl err \<Rightarrow> fd_table (history s) | Inr fd \<Rightarrow> insert fd (fd_table (history s)))"
proof (cases "map_find name (gInputs s) \<noteq> None \<or> length (gInputs s) > 65535")
  case True
  with assms have "s' = s"
    by (cases "map_find name (gInputs s)")
      (auto simp: addDevice_def throw_msg_def getNextInputID_def run_simps split: if_splits)
  with True show ?thesis by simp
next
  case False
  let ?s = "s\<lparr>gInputIDFreeList := butlast (gInputIDFreeList s)\<rparr>"
  obtain i t where i: "getNextInputID s = (Ret i, ?s)" and t: "InDevice_new os e (cstr path) ?s = (Throw ex, t)"
    and s': "s' = t\<lparr>gInputIDFreeList := gInputIDFreeList t @ [i]\<rparr>"
    using addDevice_throws [OF assms] False by auto
  have "adding ?s t"
    by (rule keepsD [OF keeps_adding_new _ t]) (simp add: adding_def)
  moreover have "fst (getNextInputID s') = Ret i"
    using \<open>adding ?s t\<close> False by (simp add: s' adding_def getNextInputID_def run_simps)
  ultimately show ?thesis
    using False InDevice_new_throws [OF t] by (simp add: s' adding_def i split: sum.split)
qed

definition no_device_os :: os where
  "no_device_os = quiet_os\<lparr>os_open := (\<lambda>_ _. Inl ENOENT)\<rparr>"

theorem addDevice_error_witness:
  "\<exists>ex s'. addDevice no_device_os linux_uapi Little ''m'' ''/dev/null'' one_device = (Throw ex, s') \<and>
     gInputs s' = gInputs one_device \<and> fst (getNextInputID s') = Ret 1 \<and>
     fd_table (history s') = fd_table (history one_device)"
proof -
  obtain ex s' where run: "addDevice no_device_os linux_uapi Little ''m'' ''/dev/null'' one_device = (Throw ex, s')"
    by (simp add: addDevice_def run_simps one_device_def daemon_init_def map_find_def getNextInputID_def
        InDevice_new_def Let_def no_device_os_def quiet_os_def log_open_def freeInputID_def throw_errno_def
        ErrnoException_new_Some cstr_def)
  have "fst (getNextInputID one_device) = Ret 1"
    by (simp add: getNextInputID_def run_simps one_device_def daemon_init_def)
  with run addDevice_error [OF run] show ?thesis by (auto simp: no_device_os_def)
qed

section \<open>Running commands\<close>

lemma run_setEnvVar: "\<exists>h. setEnvVar os name v s = (Ret (), s\<lparr>history := history s @ h\<rparr>)"
  by (auto simp: setEnvVar_def run_simps log_call_def split: option.split)

text \<open>
  C18. An action on output-changed whose first command selects an output runs itself without
  end: once the text of the action is any text that begins with the command 'use x' for an output
  that is there, every text that begins with 'use y' for some output that is there never comes
  to its end, whatever the fuel. In the program this is a recursion without end through
  useOutput, fireEvent and parseClientCommand, which any client can set up.
\<close>

theorem output_changed_recursion:
  assumes "map_find ''output-changed'' (gEventCommands s) = Some (action, stamp)"
    and "split_commands action = ([''use'', x], b) # rest" and "map_find x (gOutputs s) \<noteq> None"
    and "split_commands cmd = ([''use'', y], c) # tail" and "map_find y (gOutputs s) \<noteq> None"
  shows "fst (parseClientCommand os u e junk n alive client cmd s) = NoFuel"
  using assms
proof (induction n arbitrary: s alive cmd y c tail)
  case (Suc n)
  let ?run = "parseClientCommand os u e junk n"
  obtain fd where fd: "map_find y (gOutputs s) = Some fd" using Suc.prems(5) by blast
  let ?s = "s\<lparr>gCurrentOutput_fd := fd, gCurrentOutput_name := y\<rparr>"
  obtain h where h: "setEnvVar os ''NETEVENT_OUTPUT_NAME'' y ?s = (Ret (), ?s\<lparr>history := history ?s @ h\<rparr>)"
    using run_setEnvVar by blast
  let ?alive = "\<lambda>s. map_find ''output-changed'' (gEventCommands s) = Some (action, stamp)"
  have "fst (?run ?alive client action (?s\<lparr>history := history ?s @ h\<rparr>)) = NoFuel"
    by (rule Suc.IH [OF _ Suc.prems(2) _ Suc.prems(2)]) (use Suc.prems in simp_all)
  then obtain t where "?run ?alive client action (?s\<lparr>history := history ?s @ h\<rparr>) = (NoFuel, t)"
    by (metis prod.collapse)
  with Suc.prems(1) fd h have "useOutput os ?run client y s = (NoFuel, t)"
    by (simp add: useOutput_def fireEvent_def run_simps)
  then have "clientCommand os u e junk ?run n client [''use'', y] s = (NoFuel, t)"
    by (simp add: clientCommand_def Let_def needs_one_def run_simps)
  then show ?case by (simp add: Suc.prems(4) run_simps)
qed (simp add: run_simps)

lemma split_use:
  "split_commands ''use pc; nop'' = [([''use'', ''pc''], True), ([''nop''], False)]"
  "split_commands ''use tv'' = [([''use'', ''tv''], False)]"
  by code_simp+

theorem output_changed_recursion_witness:
  "\<forall>n. fst (parseClientCommand quiet_os linux_uapi Little [] n (\<lambda>_. True) 4 ''use tv''
     (one_device\<lparr>gOutputs := [(''pc'', 8), (''tv'', 9)],
        gEventCommands := [(''output-changed'', ''use pc; nop'', 0)]\<rparr>)) = NoFuel"
  by (intro allI output_changed_recursion [OF _ split_use(1) _ split_use(2)]) (simp_all add: map_find_def)

section \<open>An output that is lost\<close>

text \<open>Grabbing or releasing all devices, where the kernel allows it.\<close>

definition grabbed :: "bool \<Rightarrow> string \<times> Input \<Rightarrow> string \<times> Input" where
  "grabbed on x = (fst x, (snd x)\<lparr>device := (device (snd x))\<lparr>grabbing := on\<rparr>\<rparr>)"

definition grab_calls :: "bool \<Rightarrow> (string \<times> Input) list \<Rightarrow> effect list" where
  "grab_calls on ins = map (\<lambda>x. (Ioctl (in_fd (device (snd x))) (EVIOCGRAB on), None)) ins"

lemma map_set_in_order:
  "sorted_wrt (<) (map fst (pre @ (k, v) # post)) \<Longrightarrow>
   map_find k (pre @ (k, v) # post) = Some v \<and> map_set k v' (pre @ (k, v) # post) = pre @ (k, v') # post"
  by (induction pre) (auto simp: map_find_def)

lemma run_grab_loop:
  assumes "\<And>h x. x \<in> set ins \<Longrightarrow> os_call os h (Ioctl (in_fd (device (snd x))) (EVIOCGRAB on)) = None"
  shows "gInputs s = pre @ ins \<Longrightarrow> map_ok (pre @ ins) \<Longrightarrow>
    forP (\<lambda>(name, i). bindP (InDevice_grab os on (device i)) (set_device name)) ins s =
    (Ret (), s\<lparr>gInputs := pre @ map (grabbed on) ins, history := history s @ grab_calls on ins\<rparr>)"
  using assms
proof (induction ins arbitrary: s pre)
  case Nil
  then show ?case by (cases s) (simp add: run_simps grab_calls_def)
next
  case (Cons x ins)
  obtain name i where x: "x = (name, i)" by (cases x)
  let ?i = "i\<lparr>device := (device i)\<lparr>grabbing := on\<rparr>\<rparr>"
  let ?c = "Ioctl (in_fd (device i)) (EVIOCGRAB on)"
  let ?t = "s\<lparr>gInputs := (pre @ [(name, ?i)]) @ ins, history := history s @ [(?c, None)]\<rparr>"
  have ok: "os_call os (history s) ?c = None" using Cons.prems(3) [of x] by (simp add: x)
  have put: "map_find name (gInputs s) = Some i" "map_set name ?i (gInputs s) = (pre @ [(name, ?i)]) @ ins"
    using map_set_in_order [of pre name i ins ?i] Cons.prems(1,2) by (simp_all add: x map_ok_def)
  have step: "bindP (InDevice_grab os on (device i)) (set_device name) s = (Ret (), ?t)"
    using ok put by (cases s) (simp add: InDevice_grab_def set_device_def run_simps log_call_def)
  have "map_ok ((pre @ [(name, ?i)]) @ ins)" using Cons.prems(2) by (simp add: x map_ok_def)
  then have "forP (\<lambda>(name, i). bindP (InDevice_grab os on (device i)) (set_device name)) ins ?t =
      (Ret (), ?t\<lparr>gInputs := (pre @ [(name, ?i)]) @ map (grabbed on) ins, history := history ?t @ grab_calls on ins\<rparr>)"
    by (intro Cons.IH) (use Cons.prems(3) in auto)
  then show ?case
    by (simp only: forP.simps x prod.case run_bind(2) step outcome.case)
      (simp add: grabbed_def grab_calls_def)
qed

lemma run_grab_all:
  assumes "\<And>h x. x \<in> set (gInputs s) \<Longrightarrow> os_call os h (Ioctl (in_fd (device (snd x))) (EVIOCGRAB on)) = None"
    and "map_ok (gInputs s)"
  shows "grab_all os on s =
    (Ret (), s\<lparr>gInputs := map (grabbed on) (gInputs s), history := history s @ grab_calls on (gInputs s)\<rparr>)"
  using run_grab_loop [OF assms(1), where pre = "[]" and s = s] assms(2) by (simp add: grab_all_def run_simps)

text \<open>What remains of the current output when it is lost, with no action on the two changes.\<close>

lemma run_lost:
  assumes "gWrite s" and "map_find ''write-changed'' (gEventCommands s) = None" and "map_ok (gInputs s)"
    and "gGrab s \<Longrightarrow> map_find ''grab-changed'' (gEventCommands s) = None"
    and "\<And>h x. gGrab s \<Longrightarrow> x \<in> set (gInputs s) \<Longrightarrow>
      os_call os h (Ioctl (in_fd (device (snd x))) (EVIOCGRAB False)) = None"
  shows "\<exists>h. \<forall>run. lostCurrentOutput os run s =
    (Ret (), s\<lparr>gCurrentOutput_fd := - 1, gCurrentOutput_name := ''<none>'', gWrite := False, gGrab := False,
      gInputs := (if gGrab s then map (grabbed False) (gInputs s) else gInputs s),
      history := history s @ h @ (if gGrab s then grab_calls False (gInputs s) else [])\<rparr>)"
proof -
  let ?v = "s\<lparr>gCurrentOutput_fd := - 1, gCurrentOutput_name := ''<none>'', gWrite := False\<rparr>"
  obtain h where h: "setEnvVar os ''NETEVENT_WRITING'' ''0'' ?v = (Ret (), ?v\<lparr>history := history ?v @ h\<rparr>)"
    using run_setEnvVar by blast
  show ?thesis
  proof (cases "gGrab s")
    case False
    then show ?thesis
      using assms(1,2) h by (intro exI [of _ h]) (cases s; simp add: lostCurrentOutput_def writeEvents_def fireEvent_def run_simps)
  next
    case True
    let ?w = "?v\<lparr>history := history s @ h, gGrab := False\<rparr>"
    obtain h' where h': "setEnvVar os ''NETEVENT_GRABBING'' ''0'' ?w = (Ret (), ?w\<lparr>history := history ?w @ h'\<rparr>)"
      using run_setEnvVar by blast
    let ?x = "?w\<lparr>history := history ?w @ h'\<rparr>"
    have "grab_all os False ?x =
        (Ret (), ?x\<lparr>gInputs := map (grabbed False) (gInputs s), history := history ?x @ grab_calls False (gInputs s)\<rparr>)"
      using run_grab_all [where s = ?x and os = os and on = False] assms(3,5) True by simp
    then show ?thesis
      using assms(1,2,4) True h h'
      by (intro exI [of _ "h @ h'"]) (simp add: lostCurrentOutput_def writeEvents_def grab_def fireEvent_def run_simps)
  qed
qed

text \<open>
  C17. A current output that cannot be written to is lost: when no action is set on
  write-changed, the event is not delivered, the descriptor is queued for removal, no output is
  current any more, writing is off, and later events are not sent anywhere. If the devices were
  grabbed they are all released, in the order of their names; this is for a kernel that lets them
  go, and with no action on grab-changed. No other output takes over, and no command is run: an
  action on output-changed is not.
\<close>

theorem readFromDevice_output_lost:
  assumes "input_at p s = Some (name, i)" and "map_ok (gInputs s)" and "\<not> eof (device i)"
    and "os_event os (history s) (ReadEvent (in_fd (device i))) = Inr ke"
    and "route (router_of s) e dev (event_read ke) = Send fd pkt" and "0 \<le> fd"
    and "\<And>h. os_call os h (Write fd pkt) \<noteq> None"
    and "map_find ''write-changed'' (gEventCommands s) = None"
    and "gGrab s \<Longrightarrow> map_find ''grab-changed'' (gEventCommands s) = None"
    and "\<And>h x. gGrab s \<Longrightarrow> x \<in> set (gInputs s) \<Longrightarrow>
      os_call os h (Ioctl (in_fd (device (snd x))) (EVIOCGRAB False)) = None"
  shows "\<exists>s' h. (\<forall>run. readFromDevice os e run p dev s = (Ret (), s')) \<and> fd \<in> set (gFDRemoveQueue s') \<and>
    gCurrentOutput_fd s' = - 1 \<and> \<not> gWrite s' \<and> \<not> gGrab s' \<and>
    gInputs s' = (if gGrab s then map (grabbed False) (gInputs s) else gInputs s) \<and>
    history s' = history s @ h @ (if gGrab s then grab_calls False (gInputs s) else []) \<and>
    gOutputs s' = gOutputs s \<and> gCommandQueue s' = gCommandQueue s \<and>
    (\<forall>d ev fd' pkt'. route (router_of s') e d ev \<noteq> Send fd' pkt')"
proof -
  let ?s = "log_call (ReadEvent (in_fd (device i))) None s"
  have fields: "gHotkeys ?s = gHotkeys s" "gCommandQueue ?s = gCommandQueue s" "gOutputs ?s = gOutputs s"
    "gCurrentOutput_fd ?s = gCurrentOutput_fd s" "gWrite ?s = gWrite s"
    "gCurrentOutput_name ?s = gCurrentOutput_name s" "gFDRemoveQueue ?s = gFDRemoveQueue s"
    "gEventCommands ?s = gEventCommands s"
    by (simp_all add: log_call_def)
  have hot: "tryHotkey dev (ev_type (event_read ke)) (ev_code (event_read ke)) (ev_value (event_read ke)) ?s = (Ret False, ?s)"
    and fd: "fd = gCurrentOutput_fd s" "fd \<noteq> - 1" "gWrite s" "pkt = event_packet e dev (event_read ke)"
    using assms(5)
    by (auto simp: route_def router_of_def tryHotkey_def run_simps fields split: option.splits if_splits)
  obtain err where err: "os_call os (history ?s) (Write fd pkt) = Some err"
    using assms(7) [of "history ?s"] by blast
  let ?msg = "''error writing to output '' @ cstr (gCurrentOutput_name s) @ '': '' @ os_strerror os err @ [NL]"
  let ?u = "log_call (Write fd pkt) (Some err) ?s"
  let ?t = "log_call (Stderr ?msg) (os_call os (history ?u) (Stderr ?msg)) ?u"
  have run: "readFromDevice os e run p dev s = thenP (removeFD fd) (lostCurrentOutput os run) ?t" for run
  proof -
    have "readFromDevice os e run p dev s = forward_event os e run dev (event_read ke) ?s"
      by (simp add: readFromDevice_def run_simps run_read_event [OF assms(1-4)] hot)
    also have "\<dots> = thenP (do_ignore os (Stderr ?msg)) (thenP (removeFD fd) (lostCurrentOutput os run)) ?u"
      using fd err by (simp add: forward_event_def mustWrite_def fields run_bind run_basic run_calls(1))
    also have "\<dots> = thenP (removeFD fd) (lostCurrentOutput os run) ?t"
      by (simp add: thenP_def run_bind run_calls(9))
    finally show ?thesis .
  qed
  define t where "t = ?t"
  let ?q = "if fd \<in> set (gFDRemoveQueue t) then gFDRemoveQueue t else gFDRemoveQueue t @ [fd]"
  define v where "v = t\<lparr>gFDRemoveQueue := ?q\<rparr>"
  have v: "gWrite v" "gGrab v = gGrab s" "gEventCommands v = gEventCommands s" "gOutputs v = gOutputs s"
    "gCommandQueue v = gCommandQueue s" "gInputs v = gInputs s" "fd \<in> set (gFDRemoveQueue v)"
    "\<exists>h. history v = history s @ h"
    using fd(3) by (simp_all add: v_def t_def log_call_def)
  obtain h where h: "\<And>run. lostCurrentOutput os run v =
    (Ret (), v\<lparr>gCurrentOutput_fd := - 1, gCurrentOutput_name := ''<none>'', gWrite := False, gGrab := False,
      gInputs := (if gGrab s then map (grabbed False) (gInputs s) else gInputs s),
      history := history v @ h @ (if gGrab s then grab_calls False (gInputs s) else [])\<rparr>)"
    using run_lost [where s = v and os = os] assms(2,8-10) unfolding v(2,3,6) using v(1) by blast
  have "removeFD fd t = (Ret (), v)" using assms(6) by (simp add: removeFD_def run_simps v_def)
  then have final: "readFromDevice os e run p dev s = lostCurrentOutput os run v" for run
    unfolding run t_def [symmetric] by (simp add: run_simps)
  obtain h0 where "history v = history s @ h0" using v(8) by blast
  then show ?thesis
    unfolding final h
    by (intro exI [of _ "v\<lparr>gCurrentOutput_fd := - 1, gCurrentOutput_name := ''<none>'', gWrite := False, gGrab := False,
      gInputs := (if gGrab s then map (grabbed False) (gInputs s) else gInputs s),
      history := history v @ h @ (if gGrab s then grab_calls False (gInputs s) else [])\<rparr>"] exI [of _ "h0 @ h"])
      (simp add: v route_def router_of_def split: option.split)
qed

definition full_os :: os where
  "full_os = (counting_os [] [] [one_event])\<lparr>os_call := (\<lambda>h c. case c of Write fd bs \<Rightarrow> Some 28 | _ \<Rightarrow> None)\<rparr>"

theorem readFromDevice_output_lost_witness:
  "\<exists>s'. readFromDevice full_os Big (\<lambda>_ _ _. undef) 0 7
      (one_device\<lparr>gCurrentOutput_fd := 9, gWrite := True, gGrab := True\<rparr>) = (Ret (), s') \<and>
     9 \<in> set (gFDRemoveQueue s') \<and> gCurrentOutput_fd s' = - 1 \<and> \<not> gWrite s' \<and> \<not> gGrab s' \<and>
     last (history s') = (Ioctl 5 (EVIOCGRAB False), None)"
proof -
  let ?s = "one_device\<lparr>gCurrentOutput_fd := 9, gWrite := True, gGrab := True\<rparr>"
  have at: "input_at 0 ?s = Some (''k'', input_of 0 0 5)" and ins: "gInputs ?s = [(''k'', input_of 0 0 5)]"
    by (simp_all add: input_at_def one_device_def input_of_def)
  have ok: "map_ok (gInputs ?s)" by (simp add: one_device_def map_ok_def)
  have eof: "\<not> eof (device (input_of 0 0 5))" by (simp add: sample_device_def input_of_def)
  have ev: "os_event full_os (history ?s) (ReadEvent (in_fd (device (input_of 0 0 5)))) = Inr one_event"
    by (simp add: full_os_def counting_os_def one_device_def)
  have route: "route (router_of ?s) Big 7 (event_read one_event) = Send 9 (event_packet Big 7 (event_read one_event))"
    by (simp add: route_def router_of_def one_device_def daemon_init_def)
  have w: "os_call full_os h (Write 9 bs) \<noteq> None" and g: "os_call full_os h (Ioctl fd r) = None" for h bs fd r
    by (simp_all add: full_os_def)
  have no: "map_find e (gEventCommands ?s) = None" for e by (simp add: one_device_def daemon_init_def)
  from readFromDevice_output_lost [OF at ok eof ev route _ w no no g]
  obtain s' h where "readFromDevice full_os Big (\<lambda>_ _ _. undef) 0 7 ?s = (Ret (), s')" "9 \<in> set (gFDRemoveQueue s')"
    "gCurrentOutput_fd s' = - 1" "\<not> gWrite s'" "\<not> gGrab s'"
    "history s' = history ?s @ h @ (if gGrab ?s then grab_calls False (gInputs ?s) else [])"
    by auto
  moreover have "grab_calls False (gInputs ?s) = [(Ioctl 5 (EVIOCGRAB False), None)]"
    unfolding ins by (simp add: grab_calls_def input_of_def)
  ultimately show ?thesis by auto
qed

end
