(* ===== verification/DaemonFrame.thy ===== *)
theory DaemonFrame
  imports DaemonInv
begin

text \<open>
  What a command text leaves alone: the queue of commands, the descriptors that are polled,
  the server socket and the clients. A daemon that is to quit stays that way. The locale
  \<open>calm_runner\<close> is the contract of the texts, as \<open>registry_runner\<close> is for the registry.
\<close>

type_synonym outer = "(int \<times> string) list \<times> int list \<times> Socket \<times> (int, int) std_map"

definition outer_of :: "dstate \<Rightarrow> outer" where
  "outer_of s = (gCommandQueue s, pfds s, gServer s, gCommandClients s)"

definition frame :: "outer \<Rightarrow> bool \<Rightarrow> dstate \<Rightarrow> bool" where
  "frame c q s \<longleftrightarrow> outer_of s = c \<and> (q \<longrightarrow> gQuit s)"

named_theorems frame_intro \<open>programs that keep the frame\<close>

lemma ignores_frame [frame_intro]: "ignores_history (frame c q)"
  by (auto simp: ignores_history_def frame_def outer_of_def log_call_def)

lemma keeps_frame_modify [frame_intro]:
  assumes "\<And>s. gCommandQueue (f s) = gCommandQueue s" "\<And>s. pfds (f s) = pfds s" "\<And>s. gServer (f s) = gServer s"
    "\<And>s. gCommandClients (f s) = gCommandClients s" "\<And>s. gQuit s \<Longrightarrow> gQuit (f s)"
  shows "keeps (frame c q) (modifyP f)"
  by (rule keeps_modify) (auto simp: frame_def outer_of_def assms)

lemma keeps_prod: "(\<And>a b. z = (a, b) \<Longrightarrow> keeps I (k a b)) \<Longrightarrow> keeps I (case z of (a, b) \<Rightarrow> k a b)"
  by (cases z) simp

lemma keeps_parse:
  "(p = Overflow \<Longrightarrow> keeps I m1) \<Longrightarrow> (p = Rejected \<Longrightarrow> keeps I m2) \<Longrightarrow> (\<And>y. p = Parsed y \<Longrightarrow> keeps I (l y)) \<Longrightarrow>
   keeps I (case p of Parsed y \<Rightarrow> l y | Rejected \<Rightarrow> m2 | Overflow \<Rightarrow> m1)"
  by (cases p) auto

lemmas frame_control = keeps_intro keeps_prod keeps_parse

lemma frame_basic [frame_intro]:
  "keeps (frame c q) (removeFD fd)" "keeps (frame c q) (addFD fd)" "keeps (frame c q) (disconnectClient fd)"
  "keeps (frame c q) (removeOutput name)" "keeps (frame c q) getNextInputID" "keeps (frame c q) (freeInputID i)"
  "keeps (frame c q) (set_callbacks fd cb)"
  unfolding removeFD_def addFD_def disconnectClient_def removeOutput_def getNextInputID_def freeInputID_def
    set_callbacks_def
  by (intro frame_control frame_intro; simp)+

lemma frame_output [frame_intro]:
  "keeps (frame c q) (writeToOutput os fd bs)" "keeps (frame c q) (toClient os fd text)"
  "keeps (frame c q) (setEnvVar os name v)" "keeps (frame c q) (mustWrite os fd bs)"
  "keeps (frame c q) (in_ctl os fd qu msg)" "keeps (frame c q) (writeHello os e fd)"
  unfolding writeToOutput_def toClient_def setEnvVar_def mustWrite_def Let_def in_ctl_def writeHello_def
  by (intro frame_control frame_intro; simp)+

lemma frame_find [frame_intro]:
  "keeps (frame c q) (findDevice name)" "keeps (frame c q) (removeDevice name)" "keeps (frame c q) (closeDevice p)"
  "keeps (frame c q) (parse_hotkey def)" "keeps (frame c q) (addHotkey dev type code w cmd)"
  "keeps (frame c q) (removeHotkey dev type code w)" "keeps (frame c q) (set_device name d)"
  unfolding findDevice_def removeDevice_def closeDevice_def parse_hotkey_def addHotkey_def removeHotkey_def
    set_device_def Let_def
  by (intro frame_control frame_intro; simp split: option.split)+

lemma frame_write_entries [frame_intro]: "keeps (frame c q) (write_entries os u e dfd fd evs entry absbits)"
proof (induction evs arbitrary: entry absbits)
  case (Cons ev evs)
  then show ?case unfolding write_entries.simps Let_def by (intro frame_control frame_intro)
qed (simp add: keeps_intro)

lemma frame_devices [frame_intro]:
  "keeps (frame c q) (writeNE2AddDevice os u e d fd dev)" "keeps (frame c q) (announceDevice os u e i fd)"
  "keeps (frame c q) (announceDevice_all os u e i)" "keeps (frame c q) (InDevice_new os e path)"
  "keeps (frame c q) (InDevice_grab os on d)" "keeps (frame c q) (grab_all os on)"
  unfolding writeNE2AddDevice_def write_axis_def announceDevice_def announceDevice_all_def InDevice_new_def
    InDevice_grab_def grab_all_def Let_def
  by (intro frame_control frame_intro; simp)+

lemma frame_announce_until [frame_intro]: "keeps (frame c q) (announce_until os u e fd ins)"
proof (induction ins)
  case (Cons x ins)
  then show ?case by (cases x) (auto intro!: frame_control frame_intro)
qed (simp add: keeps_intro)

lemma frame_add [frame_intro]:
  "keeps (frame c q) (announceAllDevices os u e fd)" "keeps (frame c q) (addDevice os u e name path)"
  "keeps (frame c q) (addOutput_Finish os u e name fd skip)" "keeps (frame c q) (addOutput_Open os path)"
  "keeps (frame c q) (addOutput_Exec os path)"
  unfolding announceAllDevices_def addDevice_def addOutput_Finish_def addOutput_Open_def addOutput_Exec_def Let_def
  by (intro frame_control frame_intro; simp)+

text \<open>A local \<open>Socket\<close>.\<close>

lemma keeps_local:
  "keeps (\<lambda>x. I (fst x)) m \<Longrightarrow> keeps I (with_obj (\<lambda>_. so) (\<lambda>_ s. s) m)"
  by (rule keeps_with_obj)

lemma frame_addOutput_Unix [frame_intro]: "keeps (frame c q) (addOutput_Unix os junk path)"
  unfolding addOutput_Unix_def finallyP_def connect_to_def connectUnix_def openUnixStream_def Socket_close_def
    Socket_release_def
  by (intro keeps_local keeps_intro keeps_fst_obj keeps_fst_lift ignores_frame)

lemma frame_outputs [frame_intro]: "keeps (frame c q) (addOutput os u e junk clientfd args)"
  unfolding addOutput_def addOutput_named_def addOutput_path_def Let_def
  by (intro frame_control frame_intro; simp)

lemma frame_wait_for [frame_intro]: "keeps (frame c q) (wait_for os pid n)"
  by (induction n) (auto intro!: frame_control frame_intro)

lemma frame_commands [frame_intro]:
  "keeps (frame c q) (clientCommand_Device os u e clientfd args)" "keeps (frame c q) (clientCommand_Hotkey os clientfd args)"
  "keeps (frame c q) (clientCommand_Info os clientfd)" "keeps (frame c q) (clientCommand_Action os clientfd args)"
  "keeps (frame c q) (shellCommand os n cmd background)"
  unfolding clientCommand_Device_def clientCommand_Hotkey_def clientCommand_Info_def clientCommand_Action_def
    shellCommand_def
  by (intro frame_control frame_intro; simp)+

locale calm_runner =
  fixes run :: runner
  assumes run_calm: "keeps (frame c q) (run alive clientfd text)"
begin

lemma calm_events:
  "keeps (frame c q) (fireEvent run clientfd event)"
  "keeps (frame c q) (useOutput os run clientfd name)"
  "keeps (frame c q) (writeEvents os run clientfd on)"
  "keeps (frame c q) (grab os run clientfd on)"
proof -
  show fire: "keeps (frame c q) (fireEvent run clientfd event)" for event
    unfolding fireEvent_def by (intro frame_control frame_intro run_calm)
  show "keeps (frame c q) (useOutput os run clientfd name)"
    unfolding useOutput_def by (intro frame_control frame_intro fire; simp)
  show "keeps (frame c q) (writeEvents os run clientfd on)"
    unfolding writeEvents_def by (intro frame_control frame_intro fire; simp)
  show "keeps (frame c q) (grab os run clientfd on)"
    unfolding grab_def by (intro frame_control frame_intro fire; simp)
qed

lemma calm_switches:
  "keeps (frame c q) (writeCommand os run clientfd state)" "keeps (frame c q) (grabCommand os run clientfd state)"
  "keeps (frame c q) (clientCommand_Output os u e junk run clientfd args)"
  unfolding writeCommand_def grabCommand_def clientCommand_Output_def
  by (intro frame_control frame_intro calm_events; simp)+

lemma calm_source: "keeps (frame c q) (sourceCommandFile os run n clientfd path)"
proof -
  have "keeps (frame c q) (source_lines os run clientfd fd path n)" for fd
    by (induction n) (auto intro!: frame_control frame_intro run_calm)
  then show ?thesis
    unfolding sourceCommandFile_def finallyP_def by (intro frame_control frame_intro)
qed

lemma calm_clientCommand: "keeps (frame c q) (clientCommand os u e junk run n clientfd args)"
  unfolding clientCommand_def Let_def needs_one_def
  by (intro frame_control frame_intro calm_switches calm_events calm_source; simp)

end

lemma calm_runner_parse: "calm_runner (parseClientCommand os u e junk n)"
proof (induction n)
  case 0
  show ?case by unfold_locales (simp add: keeps_intro)
next
  case (Suc n)
  show ?case
    by unfold_locales
      (auto intro!: keeps_bind keeps_then keeps_for keeps_if keeps_basic keeps_prod calm_runner.calm_clientCommand [OF Suc])
qed

interpretation calm: calm_runner "run_text y" for y
  unfolding run_text_def by (rule calm_runner_parse)

interpretation calm_texts: calm_runner "parseClientCommand os u e junk n" for os u e junk n
  by (rule calm_runner_parse)

section \<open>The queue of commands\<close>

lemma run_command_frame: "keeps (frame c q) (run_command y x)"
  unfolding run_command_def by (intro frame_control frame_intro calm.run_calm)

lemma run_commands_frame: "keeps (frame c q) (forP (run_command y) cs)"
  by (intro keeps_for run_command_frame)

text \<open>No reply throws, so nothing a command does escapes from its turn.\<close>

definition contained :: "unit dprog \<Rightarrow> bool" where
  "contained m \<longleftrightarrow> (\<forall>s ex. fst (m s) \<noteq> Throw ex)"

lemma contained_bind: "(\<And>s ex. fst (m s) \<noteq> Throw ex) \<Longrightarrow> (\<And>x. contained (f x)) \<Longrightarrow> contained (bindP m f)"
  unfolding contained_def run_bind by (auto split: prod.split outcome.split) (metis fst_conv)

lemma contained_then: "contained m \<Longrightarrow> contained n \<Longrightarrow> contained (thenP m n)"
  unfolding thenP_def by (rule contained_bind) (simp_all add: contained_def)

lemma contained_catch: "(\<And>e. contained (h e)) \<Longrightarrow> contained (catchP m h)"
  unfolding contained_def run_bind by (auto split: prod.split outcome.split)

lemma contained_basic: "contained (ret ())" "contained undef" "contained (modifyP g)" "contained (do_ignore os c)"
  "contained (whenP b m) = (b \<longrightarrow> contained m)"
  by (auto simp: contained_def run_simps)

lemma contained_toClient: "contained (toClient os fd text)"
  unfolding toClient_def Let_def disconnectClient_def removeFD_def
  by (auto intro!: contained_then contained_bind simp: contained_basic run_simps contained_def split: option.split)

lemma contained_run_commands: "contained (forP (run_command y) cs)"
  by (induction cs) (auto intro!: contained_then contained_catch contained_toClient
      simp: contained_basic run_command_def split: prod.split)

text \<open>
  The turns of a list of commands: each runs in the state the turn before left; one that throws
  is answered with its error, and the turn of the next begins in the state after the answer.
\<close>

inductive turns :: "sys \<Rightarrow> (int \<times> string) list \<Rightarrow> dstate \<Rightarrow> dstate \<Rightarrow> bool" for y where
  turns_none: "turns y [] s s"
| turns_done: "run_text y (\<lambda>_. True) client text s = (Ret (), t) \<Longrightarrow> turns y cs t s' \<Longrightarrow>
    turns y ((client, text) # cs) s s'"
| turns_failed: "run_text y (\<lambda>_. True) client text s = (Throw ex, t) \<Longrightarrow>
    toClient (sys_os y) client (''ERROR: '' @ what ex @ [NL]) t = (Ret (), t') \<Longrightarrow> turns y cs t' s' \<Longrightarrow>
    turns y ((client, text) # cs) s s'"

inductive_simps turns_Nil: "turns y [] s s'"
inductive_simps turns_Cons: "turns y (c # cs) s s'"

text \<open>One turn, and all of them: they come to their end, or stop inside one that does not.\<close>

lemma turn_once:
  "run_command y c s = (Ret (), t) \<longleftrightarrow>
    (run_text y (\<lambda>_. True) (fst c) (snd c) s = (Ret (), t) \<or>
     (\<exists>ex t0. run_text y (\<lambda>_. True) (fst c) (snd c) s = (Throw ex, t0) \<and>
       toClient (sys_os y) (fst c) (''ERROR: '' @ what ex @ [NL]) t0 = (Ret (), t)))"
  by (auto simp: run_command_def run_bind split: prod.splits outcome.splits)

lemma turns_step: "run_command y c s = (Ret (), t) \<Longrightarrow> turns y cs t s' \<Longrightarrow> turns y (c # cs) s s'"
  unfolding turn_once by (cases c) (auto intro: turns_done turns_failed)

lemma turns_run:
  "forP (run_command y) cs s = (r, s') \<Longrightarrow>
    (r = Ret () \<longrightarrow> turns y cs s s') \<and>
    (r \<noteq> Ret () \<longrightarrow> (\<exists>ds c es t. cs = ds @ c # es \<and> turns y ds s t \<and> run_command y c t = (r, s')))"
proof (induction cs arbitrary: s)
  case Nil
  then show ?case by (auto simp: run_simps intro: turns_none)
next
  case (Cons c cs)
  obtain q t where c: "run_command y c s = (q, t)" by fastforce
  show ?case
  proof (cases "q = Ret ()")
    case True
    then have run: "forP (run_command y) cs t = (r, s')" using Cons.prems c by (simp add: run_simps)
    have step: "turns y ds t u \<Longrightarrow> turns y (c # ds) s u" for ds u
      using c True by (simp add: turns_step)
    from Cons.IH [OF run] show ?thesis
      by (metis append_Cons step)
  next
    case False
    then have "r = q \<and> s' = t" using Cons.prems c by (cases q) (auto simp: run_simps)
    with False c show ?thesis by (metis append_Nil turns_none)
  qed
qed

text \<open>A round with a command that fails and one that quits.\<close>

definition a_round :: "sys \<times> dstate" where
  "a_round = (\<lparr>sys_os = quiet_os, sys_uapi = linux_uapi, sys_endian = Little, sys_junk = [], sys_fuel = Suc (Suc 0),
     sys_signals = (\<lambda>_. [])\<rparr>,
     daemon_init\<lparr>gCommandQueue := [(- 1, ''use tv''), (- 1, ''quit'')]\<rparr>)"

lemma split_round:
  "split_commands ''use tv'' = [([''use'', ''tv''], False)]" "split_commands ''quit'' = [([''quit''], False)]"
  by code_simp+

lemma a_round_runs:
  "\<exists>t. processCommandQueue (fst a_round) (snd a_round) = (Ret (), t) \<and> gQuit t \<and> gFDRemoveQueue t = []"
proof -
  have round: "sys_os (fst a_round) = quiet_os" "sys_fuel (fst a_round) = Suc (Suc 0)"
    "gCommandQueue (snd a_round) = [(- 1, ''use tv''), (- 1, ''quit'')]"
    by (simp_all add: a_round_def)
  show ?thesis
    by (simp add: processCommandQueue_def run_command_def run_text_def round split_round run_simps
        clientCommand_def needs_one_def useOutput_def throw_msg_def toClient_def quiet_os_def
        log_call_def a_round_def daemon_init_def Let_def map_find_def MsgException_what cstr_def)
qed

text \<open>
  C9. A round of queued commands never throws, and its commands have their turns in the order
  they were queued: each runs in the state the turn before left, and an exception thrown by one,
  however deep in the actions and files it runs, ends at its own turn as a reply to its client,
  after which the next has its turn. When the round returns all of them have had one, and the
  queue is empty; it does not return only when a command does not (undefined behaviour, or no
  end), with those before it done. What the loop polls, its server socket and its clients are as
  before, and a request to quit stays.
\<close>

theorem processCommandQueue_isolates:
  assumes "processCommandQueue y s = (r, s')"
  shows "(\<forall>ex. r \<noteq> Throw ex) \<and>
    (r = Ret () \<longrightarrow> (\<exists>t. turns y (gCommandQueue s) s t \<and> s' = t\<lparr>gCommandQueue := []\<rparr>)) \<and>
    (r \<noteq> Ret () \<longrightarrow> (\<exists>cs c ds t. gCommandQueue s = cs @ c # ds \<and> turns y cs s t \<and> run_command y c t = (r, s'))) \<and>
    pfds s' = pfds s \<and> gServer s' = gServer s \<and>
    gCommandClients s' = gCommandClients s \<and> (gQuit s \<longrightarrow> gQuit s')"
proof -
  obtain q t where run: "forP (run_command y) (gCommandQueue s) s = (q, t)" by fastforce
  have "processCommandQueue y s = (q, if q = Ret () then t\<lparr>gCommandQueue := []\<rparr> else t)"
    by (cases q) (simp_all add: processCommandQueue_def run_simps run)
  then have res: "r = q" "s' = (if q = Ret () then t\<lparr>gCommandQueue := []\<rparr> else t)"
    unfolding assms by (simp_all only: prod.inject)
  have "frame (outer_of s) (gQuit s) s" by (simp add: frame_def)
  then have "frame (outer_of s) (gQuit s) t" using keepsD [OF run_commands_frame _ run] by blast
  then have "pfds s' = pfds s \<and> gServer s' = gServer s \<and> gCommandClients s' = gCommandClients s \<and> (gQuit s \<longrightarrow> gQuit s')"
    by (simp add: res frame_def outer_of_def)
  moreover have "q \<noteq> Throw ex" for ex
    using contained_run_commands [of y "gCommandQueue s"] run unfolding contained_def by (metis fst_conv)
  ultimately show ?thesis
    using turns_run [OF run] unfolding res by (cases "q = Ret ()") (simp_all only: if_True if_False simp_thms, blast+)
qed

theorem processCommandQueue_isolates_witness:
  "\<exists>t. turns (fst a_round) [(- 1, ''use tv''), (- 1, ''quit'')] (snd a_round) t \<and>
    processCommandQueue (fst a_round) (snd a_round) = (Ret (), t\<lparr>gCommandQueue := []\<rparr>) \<and> gQuit t"
proof -
  obtain s' where run: "processCommandQueue (fst a_round) (snd a_round) = (Ret (), s')" and "gQuit s'"
    using a_round_runs by blast
  moreover from processCommandQueue_isolates [OF run]
  obtain t where "turns (fst a_round) (gCommandQueue (snd a_round)) (snd a_round) t" "s' = t\<lparr>gCommandQueue := []\<rparr>"
    by blast
  moreover have "gCommandQueue (snd a_round) = [(- 1, ''use tv''), (- 1, ''quit'')]" by (simp add: a_round_def)
  ultimately show ?thesis by auto
qed

section \<open>Quitting\<close>

lemma quit_run:
  assumes "split_commands text = [([''quit''], False)]"
    and "run_command y (client, text) s = (Ret (), s')"
  shows "gQuit s'"
proof -
  define n where "n = sys_fuel y"
  let ?run = "parseClientCommand (sys_os y) (sys_uapi y) (sys_endian y) (sys_junk y)"
  have quits: "gQuit (snd (clientCommand os u e junk run m client [''quit''] t))" for os u e junk run m t
  proof -
    have "frame (outer_of t) True (t\<lparr>gQuit := True\<rparr>)" by (simp add: frame_def outer_of_def)
    moreover have "keeps (frame (outer_of t) True) (if client < 0 then ret () else toClient os client (''Ok.'' @ [NL]))"
      by (intro frame_control frame_intro)
    ultimately have "frame (outer_of t) True
        (snd ((if client < 0 then ret () else toClient os client (''Ok.'' @ [NL])) (t\<lparr>gQuit := True\<rparr>)))"
      by (simp add: keeps_def)
    then show ?thesis by (simp add: clientCommand_def run_simps frame_def)
  qed
  obtain r t where run: "run_text y (\<lambda>_. True) client text s = (r, t)" by fastforce
  show ?thesis
  proof (cases n)
    case 0
    with assms(2) show ?thesis by (simp add: run_command_def run_text_def n_def run_simps)
  next
    case (Suc m)
    let ?c = "clientCommand (sys_os y) (sys_uapi y) (sys_endian y) (sys_junk y) (?run m) m client [''quit'']"
    have "run_text y (\<lambda>_. True) client text s = thenP ?c (ret ()) s"
      using assms(1) Suc by (simp add: run_text_def n_def run_simps split: prod.split outcome.split)
    moreover have "gQuit (snd (?c s))" by (rule quits)
    ultimately have "gQuit t" using run by (auto simp: run_simps split: prod.splits outcome.splits)
    then have t: "frame (outer_of t) True t" by (simp add: frame_def)
    show ?thesis
    proof (cases r)
      case (Throw ex)
      with assms(2) run have "toClient (sys_os y) client (''ERROR: '' @ what ex @ [NL]) t = (Ret (), s')"
        by (simp add: run_command_def run_simps)
      from keepsD [OF frame_output(2) t this] show ?thesis by (simp add: frame_def)
    qed (use assms(2) run \<open>gQuit t\<close> in \<open>simp_all add: run_command_def run_simps\<close>)
  qed
qed

lemma queue_quits:
  assumes "split_commands text = [([''quit''], False)]" and "(client, text) \<in> set cs"
    and "forP (run_command y) cs s = (Ret (), s')"
  shows "gQuit s'"
  using assms(2,3)
proof (induction cs arbitrary: s)
  case (Cons c cs)
  then obtain t where t: "run_command y c s = (Ret (), t)" and rest: "forP (run_command y) cs t = (Ret (), s')"
    by (auto simp: run_simps split: prod.splits outcome.splits)
  show ?case
  proof (cases "c = (client, text)")
    case True
    with quit_run [OF assms(1)] t have "frame (outer_of t) True t" by (simp add: frame_def)
    from keepsD [OF run_commands_frame this rest] show ?thesis by (simp add: frame_def)
  qed (use Cons rest in auto)
qed simp

lemma update_pfds_quit: "gQuit (snd (update_pfds s)) = gQuit s"
  by (simp add: update_pfds_def run_simps)

text \<open>The callbacks of the removal queue do not take a request to quit back.\<close>

definition quitting :: "dstate \<Rightarrow> bool" where
  "quitting s \<longleftrightarrow> gQuit s"

lemma keeps_quitting: "(\<And>c. keeps (frame c True) m) \<Longrightarrow> keeps quitting m"
  by (simp add: keeps_def frame_def quitting_def)

lemma frame_removal:
  "keeps (frame c q) (announceDeviceRemoval os e i)" "keeps (frame c q) (cleanupDeviceHotkeys h)"
  unfolding announceDeviceRemoval_def cleanupDeviceHotkeys_def by (intro frame_control frame_intro; simp)+

lemma frame_remove_device: "keeps (frame c q) (finishDeviceRemoval os e p)"
  unfolding finishDeviceRemoval_def InDevice_delete_def
  by (intro frame_control frame_intro frame_removal; simp)

lemma frame_remove_output: "keeps (frame c q) (finishOutputRemoval (sys_os y) (run_text y) fd)"
  unfolding finishOutputRemoval_def lostCurrentOutput_def
  by (intro frame_control frame_intro calm.calm_events; simp)

lemma quitting_onRemove: "keeps quitting (onRemove y fd cb)"
proof (cases cb)
  case CbClient
  have "ignores_history quitting" by (simp add: ignores_history_def quitting_def log_call_def)
  then show ?thesis
    unfolding CbClient onRemove_def finishClientRemoval_def FDCallbacks.case
    by (intro keeps_intro keeps_modify) (simp_all add: quitting_def)
qed (simp_all add: onRemove_def keeps_intro keeps_quitting frame_remove_device frame_remove_output)

lemma quitting_remove_queue: "keeps quitting (processRemoveQueue y)"
proof -
  have set_same: "keeps quitting (modifyP f)" if "\<And>s. gQuit (f s) = gQuit s" for f
    by (rule keeps_modify) (simp add: quitting_def that)
  have "keeps quitting (remove_loop y q fds)" for q fds
    by (induction fds) (auto intro!: keeps_intro set_same quitting_onRemove)
  then show ?thesis
    unfolding processRemoveQueue_def by (intro keeps_intro set_same) auto
qed

lemma frame_deliver: "keeps (frame c q) (deliver y)"
proof -
  have "keeps (frame c q) (reap_zombies os n)" for os n
    by (induction n) (auto intro!: frame_control frame_intro)
  then show ?thesis
    unfolding deliver_def signull_def set_quit_def by (intro frame_control frame_intro; simp)
qed

lemma thenP_assoc: "thenP (thenP a b) c = thenP a (thenP b c)"
  by (simp add: thenP_def bindP_assoc)

lemma then_quits:
  assumes "\<And>x w. thenP m (deliver y) s = (Ret x, w) \<Longrightarrow> gQuit w"
  shows "thenP m (bindP (check_quit y) (\<lambda>q. if q then ret () else k)) s = thenP m (deliver y) s"
  using assms by (auto simp: check_quit_def run_simps split: prod.split outcome.split)

text \<open>
  C10. The command quit ends the daemon in the round it is run in: whatever else is queued
  with it, if the queue of a round holds a text that is a lone quit, the round runs all its
  commands and its removals, and then the loop ends; it does not go back to poll.
\<close>

theorem quit_ends_loop:
  assumes "split_commands text = [([''quit''], False)]" and "(client, text) \<in> set (gCommandQueue s)"
  shows "daemon_loop y (Suc n) s =
    bindP (check_quit y) (\<lambda>q. if q then ret ()
      else thenP (processCommandQueue y) (thenP update_pfds (thenP (processRemoveQueue y) (deliver y)))) s"
proof (cases "deliver y s")
  case (Pair r0 s0)
  then have "frame (outer_of s) False s0"
    using keepsD [OF frame_deliver _ Pair, of "outer_of s" False] by (simp add: frame_def)
  then have queue: "gCommandQueue s0 = gCommandQueue s" by (simp add: frame_def outer_of_def)
  have quits: "gQuit w" if "thenP (processCommandQueue y) (thenP update_pfds (thenP (processRemoveQueue y) (deliver y))) s0 = (Ret x, w)" for x w
  proof -
    from that obtain t v where t: "processCommandQueue y s0 = (Ret (), t)"
      and v: "processRemoveQueue y (snd (update_pfds t)) = (Ret (), v)" and w: "deliver y v = (Ret x, w)"
      by (auto simp: run_simps update_pfds_def split: prod.splits outcome.splits)
    from t obtain t' where "forP (run_command y) (gCommandQueue s) s0 = (Ret (), t')"
      and t: "t = t'\<lparr>gCommandQueue := []\<rparr>"
      by (auto simp: processCommandQueue_def queue run_simps split: prod.splits outcome.splits)
    with queue_quits [OF assms] have "gQuit t" by simp
    then have "quitting (snd (update_pfds t))" by (simp add: update_pfds_quit quitting_def)
    from keepsD [OF quitting_remove_queue this v] have "frame (outer_of v) True v"
      by (simp add: quitting_def frame_def)
    from keepsD [OF frame_deliver this w] show ?thesis by (simp add: frame_def)
  qed
  let ?m = "thenP (processCommandQueue y) (thenP update_pfds (processRemoveQueue y))"
  have "thenP ?m (bindP (check_quit y) (\<lambda>q. if q then ret () else k)) s0 = thenP ?m (deliver y) s0" for k
    using quits by (intro then_quits) (simp add: thenP_assoc)
  moreover have "check_quit y s = (case r0 of Ret u \<Rightarrow> (Ret (gQuit s0), s0) | Throw ex \<Rightarrow> (Throw ex, s0) |
      Undef \<Rightarrow> (Undef, s0) | NoFuel \<Rightarrow> (NoFuel, s0))"
    by (simp add: check_quit_def run_simps Pair split: outcome.split)
  ultimately show ?thesis
    by (simp add: daemon_loop.simps(2) run_bind(1) thenP_assoc split: outcome.split)
qed

theorem quit_ends_loop_witness:
  "\<exists>s'. daemon_loop (fst a_round) (Suc 0) (snd a_round) = (Ret (), s') \<and> gQuit s'"
proof -
  have mem: "(- 1, ''quit'') \<in> set (gCommandQueue (snd a_round))" and run: "\<not> gQuit (snd a_round)"
    by (simp_all add: a_round_def daemon_init_def)
  have quiet: "deliver (fst a_round) s = (Ret (), s)" for s
    by (simp add: deliver_def a_round_def run_simps)
  then have check: "check_quit (fst a_round) s = (Ret (gQuit s), s)" for s
    by (simp add: check_quit_def run_simps)
  obtain t where "processCommandQueue (fst a_round) (snd a_round) = (Ret (), t)" "gQuit t" "gFDRemoveQueue t = []"
    using a_round_runs by blast
  with run show ?thesis
    unfolding quit_ends_loop [OF split_round(2) mem]
    by (simp add: run_bind check run_basic update_pfds_def processRemoveQueue_def quiet)
qed

section \<open>Signals\<close>

text \<open>A kernel that has at most \<open>k\<close> children to hand out in a row.\<close>

definition children_end :: "os \<Rightarrow> nat \<Rightarrow> bool" where
  "children_end os k \<longleftrightarrow> (\<forall>h. os_call os (h @ replicate k (WaitPid (- 1), None)) (WaitPid (- 1)) \<noteq> None)"

definition reaps :: "dstate \<Rightarrow> bool \<Rightarrow> dstate \<Rightarrow> bool" where
  "reaps s q t \<longleftrightarrow> (\<exists>ws. t = s\<lparr>gQuit := gQuit s \<or> q, history := history s @ ws\<rparr> \<and>
     (\<forall>e\<in>set ws. fst e = WaitPid (- 1)))"

lemma reaps_trans: "reaps s p t \<Longrightarrow> reaps t q u \<Longrightarrow> reaps s (p \<or> q) u"
  unfolding reaps_def by (elim exE conjE, rule_tac x = "ws @ wsa" in exI) auto

lemma reaps_none: "reaps s False s" "reaps s True (s\<lparr>gQuit := True\<rparr>)"
  unfolding reaps_def by (rule exI [of _ "[]"], simp)+

lemma reap_zombies_end:
  assumes "children_end os k" and "n + j > k" and "history s = h @ replicate j (WaitPid (- 1), None)" and "j \<le> k"
  shows "\<exists>t. reap_zombies os n s = (Ret (), t) \<and> reaps s False t"
  using assms(2-4)
proof (induction n arbitrary: s j)
  case (Suc n)
  let ?r = "os_call os (history s) (WaitPid (- 1))"
  have step: "reaps s False (log_call (WaitPid (- 1)) ?r s)" by (auto simp: reaps_def log_call_def)
  show ?case
  proof (cases ?r)
    case None
    have "j \<noteq> k"
    proof
      assume "j = k"
      with Suc.prems(2) assms(1) None show False unfolding children_end_def by metis
    qed
    with Suc.prems None have "n + Suc j > k" "history (log_call (WaitPid (- 1)) ?r s) =
        h @ replicate (Suc j) (WaitPid (- 1), None)" "Suc j \<le> k"
      by (simp_all add: log_call_def replicate_append_same)
    from Suc.IH [OF this] reaps_trans [OF step] None show ?thesis by (fastforce simp: run_simps)
  next
    case (Some err)
    with step show ?thesis by (simp add: run_simps)
  qed
qed simp

lemma reap_zombies_ends:
  "children_end os k \<Longrightarrow> k < n \<Longrightarrow> \<exists>t. reap_zombies os n s = (Ret (), t) \<and> reaps s False t"
  using reap_zombies_end [of os k n 0 s "history s"] by simp

lemma signals_run:
  assumes "children_end (sys_os y) k" and "k < sys_fuel y"
  shows "\<exists>t. forP (signull y) sigs s = (Ret (), t) \<and> reaps s (\<exists>sig\<in>set sigs. sig \<noteq> SIGCHLD) t"
proof (induction sigs arbitrary: s)
  case Nil
  show ?case by (simp add: run_simps reaps_none)
next
  case (Cons sig sigs)
  obtain t where t: "signull y sig s = (Ret (), t)" "reaps s (sig \<noteq> SIGCHLD) t"
    using reap_zombies_ends [OF assms, of s]
    by (cases "sig = SIGCHLD") (auto simp: signull_def set_quit_def run_simps reaps_none)
  with Cons [of t] reaps_trans [OF t(2)] show ?case by (fastforce simp: run_simps)
qed

text \<open>
  C11. A signal other than SIGCHLD that has arrived when the loop comes round ends the
  daemon there and then: the loop returns normally, and all that happened to its state is the
  request to quit and the reaping of children. (The kernel has to run out of dead children
  before the bound on their number does.)
\<close>

theorem signal_ends_loop:
  assumes "children_end (sys_os y) k" and "k < sys_fuel y"
    and "sig \<in> set (sys_signals y (history s))" and "sig \<noteq> SIGCHLD"
  shows "\<exists>ws. daemon_loop y (Suc n) s = (Ret (), s\<lparr>gQuit := True, history := history s @ ws\<rparr>) \<and>
    (\<forall>e\<in>set ws. fst e = WaitPid (- 1))"
proof -
  obtain t where t: "forP (signull y) (sys_signals y (history s)) s = (Ret (), t)"
    and "reaps s (\<exists>sig\<in>set (sys_signals y (history s)). sig \<noteq> SIGCHLD) t"
    using signals_run [OF assms(1,2)] by blast
  moreover have "\<exists>sig\<in>set (sys_signals y (history s)). sig \<noteq> SIGCHLD" using assms(3,4) by blast
  ultimately have "reaps s True t" by simp
  with t show ?thesis by (auto simp: check_quit_def deliver_def run_simps reaps_def)
qed

definition signalled :: sys where
  "signalled = (fst a_round)\<lparr>sys_os := quiet_os\<lparr>os_call := (\<lambda>h c. case c of WaitPid p \<Rightarrow> Some 10 | _ \<Rightarrow> None)\<rparr>,
     sys_signals := (\<lambda>h. if h = [] then [SIGCHLD, SIGTERM] else [])\<rparr>"

theorem signal_ends_loop_witness:
  "\<exists>ws. daemon_loop signalled 5 daemon_init = (Ret (), daemon_init\<lparr>gQuit := True, history := ws\<rparr>)"
proof -
  have "children_end (sys_os signalled) 0" "0 < sys_fuel signalled"
    "SIGTERM \<in> set (sys_signals signalled (history daemon_init))"
    by (simp_all add: children_end_def signalled_def a_round_def daemon_init_def)
  moreover have "SIGTERM \<noteq> SIGCHLD" by (simp add: SIGTERM_def SIGCHLD_def)
  ultimately have "\<exists>ws. daemon_loop signalled (Suc 4) daemon_init =
      (Ret (), daemon_init\<lparr>gQuit := True, history := history daemon_init @ ws\<rparr>) \<and> (\<forall>e\<in>set ws. fst e = WaitPid (- 1))"
    by (rule signal_ends_loop)
  then show ?thesis by (auto simp: eval_nat_numeral)
qed

end
