(* ===== verification/CreateSpec.thy ===== *)
theory CreateSpec
  imports Granting Daemon
begin

text \<open>
  What \<open>netevent create\<close> promises, as an abstract machine: a table of devices, changed by the
  messages of the protocol. The loop of \<open>Create\<close>, which reads bytes and talks to the kernel,
  implements it.
\<close>

section \<open>Messages\<close>

text \<open>What the kernel says of a device: its name, the bits of each event type, its axes.\<close>

record caps =
  cap_name :: string
  cap_entries :: "nat \<Rightarrow> byte list"
  cap_axis :: "nat \<Rightarrow> absinfo"

datatype msg =
    Hello
  | KeepAlive
  | Add "16 word" InDevice caps
  | Remove "16 word"
  | Event "16 word" InputEvent

definition msg_bytes :: "uapi \<Rightarrow> endian \<Rightarrow> msg \<Rightarrow> byte list" where
  "msg_bytes u e m = (case m of
     Hello \<Rightarrow> hello_packet e
   | KeepAlive \<Rightarrow> zero_packet
   | Add i d k \<Rightarrow> add_packet u e i @ ne2_add_rest u e d (cap_entries k) (cap_axis k)
   | Remove i \<Rightarrow> remove_packet e i
   | Event i ev \<Rightarrow> event_packet e i ev)"

definition msg_ok :: "uapi \<Rightarrow> msg \<Rightarrow> bool" where
  "msg_ok u m = (case m of Add i d k \<Rightarrow> announceable d (cap_name k) u (cap_entries k) | _ \<Rightarrow> True)"

section \<open>The abstract machine\<close>

type_synonym table = "16 word \<Rightarrow> OutDevice option"

text \<open>
  The machine's state is the table and the calls made so far, all of which succeeded. A step
  gives the new state, or the exception that ends the program.
\<close>

definition new_device :: "int \<Rightarrow> uapi \<Rightarrow> InDevice \<Rightarrow> caps \<Rightarrow> OutDevice" where
  "new_device fd u d k = received_device True fd u d (cap_entries k) (cap_axis k)\<lparr>created := True\<rparr>"

definition new_calls :: "int \<Rightarrow> uapi \<Rightarrow> InDevice \<Rightarrow> caps \<Rightarrow> call list" where
  "new_calls fd u d k = received_calls True fd u d (cap_entries k) (cap_axis k)"

definition gone :: "OutDevice \<Rightarrow> call list" where
  "gone x = [Ioctl (out_fd x) UI_DEV_DESTROY, Close (out_fd x)]"

definition missing :: "16 word \<Rightarrow> exn" where
  "missing i = MsgException_new (''protocol error: missing device '' @ show_nat (unat i))"

definition duplicate :: "16 word \<Rightarrow> exn" where
  "duplicate i = MsgException_new (''protocol error: duplicate device '' @ show_nat (unat i))"

definition logged :: "call list \<Rightarrow> effect list" where
  "logged cs = map (\<lambda>c. (c, None)) cs"

definition machine :: "os \<Rightarrow> uapi \<Rightarrow> DuplicateMode \<Rightarrow> msg \<Rightarrow> table \<times> effect list \<Rightarrow> exn + table \<times> effect list" where
  "machine os u dm m st = (case st of (tbl, h) \<Rightarrow> (case m of
     Hello \<Rightarrow> Inr (tbl, h)
   | KeepAlive \<Rightarrow> Inr (tbl, h)
   | Add i d k \<Rightarrow> (case tbl i of
       None \<Rightarrow> Inr (tbl(i \<mapsto> new_device (given_fd os h) u d k), h @ logged (new_calls (given_fd os h) u d k))
     | Some old \<Rightarrow> (case dm of
         Reject \<Rightarrow> Inl (duplicate i)
       | Resume \<Rightarrow> Inr (tbl, h)
       | Replace \<Rightarrow> Inr (tbl(i \<mapsto> new_device (given_fd os h) u d k),
           h @ logged (new_calls (given_fd os h) u d k @ gone old))))
   | Remove i \<Rightarrow> (case tbl i of
       None \<Rightarrow> Inl (missing i)
     | Some old \<Rightarrow> Inr (tbl(i := None), h @ logged (gone old)))
   | Event i ev \<Rightarrow> (case tbl i of
       None \<Rightarrow> Inl (missing i)
     | Some x \<Rightarrow> Inr (tbl, h @ logged (event_write (out_fd x) ev)))))"

text \<open>A run: the exception it stops at, if any, and the state then.\<close>

fun machine_run :: "os \<Rightarrow> uapi \<Rightarrow> DuplicateMode \<Rightarrow> msg list \<Rightarrow> table \<times> effect list \<Rightarrow> exn option \<times> table \<times> effect list" where
  "machine_run os u dm [] st = (None, st)"
| "machine_run os u dm (m # ms) st = (case machine os u dm m st of
     Inl ex \<Rightarrow> (Some ex, st)
   | Inr st' \<Rightarrow> machine_run os u dm ms st')"

section \<open>The loop implements it\<close>

definition table_of :: "'a cstate_scheme \<Rightarrow> table" where
  "table_of s i = map_find i (devices s)"

text \<open>The packet a message starts with, and what \<open>handle_packet\<close> reads after it.\<close>

definition msg_packet :: "uapi \<Rightarrow> endian \<Rightarrow> msg \<Rightarrow> byte list" where
  "msg_packet u e m = (case m of
     Hello \<Rightarrow> hello_packet e | KeepAlive \<Rightarrow> zero_packet | Add i d k \<Rightarrow> add_packet u e i
   | Remove i \<Rightarrow> remove_packet e i | Event i ev \<Rightarrow> event_packet e i ev)"

definition msg_rest :: "uapi \<Rightarrow> endian \<Rightarrow> msg \<Rightarrow> byte list" where
  "msg_rest u e m = (case m of Add i d k \<Rightarrow> ne2_add_rest u e d (cap_entries k) (cap_axis k) | _ \<Rightarrow> [])"

lemma remove_packet_fields:
  "length (remove_packet e i) = 28"
  "field 0 2 (remove_packet e i) = be_bytes 2 cmd_RemoveDevice"
  "field 2 2 (remove_packet e i) = be_bytes 2 i"
  by (simp_all add: remove_packet_def set16_def Let_def put_def field_def mem_of_hton)

lemma length_msg_packet: "length (msg_packet u e m) = 28"
  by (simp add: msg_packet_def hello_packet_fields add_packet_fields remove_packet_fields event_packet_fields
      split: msg.split)

lemma msg_bytes_split: "msg_bytes u e m = msg_packet u e m @ msg_rest u e m"
  by (simp add: msg_bytes_def msg_packet_def msg_rest_def split: msg.split)

lemma run_hello: "handle_packet os u' e' dm (hello_packet e) s = (Ret (), s)"
proof -
  have "checkHello e' (cmd_to_host e' (hello_packet e)) = None"
    by (simp add: checkHello_swapped hello_packet_fields hello_packet_bytes)
  then show ?thesis
    by (simp add: handle_packet_def Let_def host_fields hello_packet_fields get_be_be_bytes run_simps)
qed

lemma run_keepalive: "handle_packet os u' e' dm zero_packet s = (Ret (), s)"
proof -
  have "field 0 2 zero_packet = be_bytes 2 cmd_KeepAlive"
    by (simp add: zero_packet_def NE2Packet_size_def field_def be_bytes_def cmd_KeepAlive_def
        numeral_2_eq_2)
  then show ?thesis
    by (simp add: handle_packet_def Let_def host_fields get_be_be_bytes cmd_codes run_simps)
qed

lemma run_remove:
  assumes "\<forall>h c. os_call os h c = None"
  shows "handle_packet os u' e' dm (remove_packet e i) s = (case map_find i (devices s) of
     None \<Rightarrow> (Throw (missing i), s)
   | Some x \<Rightarrow> (Ret (), s\<lparr>devices := map_erase i (devices s), history := history s @ logged (gone x)\<rparr>))"
proof -
  have "pkt_cmd e' (cmd_to_host e' (remove_packet e i)) = cmd_RemoveDevice"
    "hton e' 2 (pkt_id e' (cmd_to_host e' (remove_packet e i))) = i"
    by (simp_all add: host_fields remove_packet_fields get_be_be_bytes hton_of_mem_be)
  with assms show ?thesis
    by (simp add: handle_packet_def Let_def cmd_codes handle_RemoveDevice_def run_simps missing_device_def
        throw_msg_def missing_def gone_def OutDevice_delete_def log_call_def logged_def split: option.split)
qed

lemma add_packet_id: "pkt_id e' (add_to_host e' (cmd_to_host e' (add_packet u e i))) = i"
  by (simp add: host_fields add_packet_fields get_be_be_bytes)

text \<open>What a message leads to: the machine's exception, or its calls and its table.\<close>

definition obeys :: "('a cstate_scheme, unit) prog \<Rightarrow> 'a cstate_scheme \<Rightarrow> byte list \<Rightarrow> exn + table \<times> effect list \<Rightarrow> bool" where
  "obeys m s r out = (case out of
     Inl ex \<Rightarrow> m s = (Throw ex, s)
   | Inr (tbl', h') \<Rightarrow> \<exists>ds. m s = (Ret (), s\<lparr>rdata := r, history := h', devices := ds\<rparr>) \<and>
       map_ok ds \<and> (\<forall>j. map_find j ds = tbl' j))"

lemma obeysI:
  "m s = (Ret (), s\<lparr>rdata := r, history := h', devices := ds\<rparr>) \<Longrightarrow>
   map_ok ds \<Longrightarrow> (\<And>j. map_find j ds = tbl' j) \<Longrightarrow> obeys m s r (Inr (tbl', h'))"
  by (auto simp: obeys_def)

lemma obeys_idle:
  "m s = (Ret (), s\<lparr>rdata := r\<rparr>) \<Longrightarrow> map_ok (devices s) \<Longrightarrow> obeys m s r (Inr (table_of s, history s))"
  by (rule obeysI [where ds = "devices s"]) (simp_all add: table_of_def)

lemma obeys_throw: "m s = (Throw ex, s) \<Longrightarrow> obeys m s r (Inl ex)"
  by (simp add: obeys_def)

lemma run_add:
  assumes grants: "granting os" and ok: "msg_ok u (Add i d k)" and lay: "same_layout u u'"
    and s: "rdata s = ne2_add_rest u e d (cap_entries k) (cap_axis k) @ r" "use_setup s" "map_ok (devices s)"
  shows "obeys (handle_packet os u' e' dm (add_packet u e i)) s r (machine os u dm (Add i d k) (table_of s, history s))"
proof -
  let ?p = "add_to_host e' (cmd_to_host e' (add_packet u e i))"
  let ?fd = "given_fd os (history s)"
  let ?x = "new_device ?fd u d k"
  let ?h = "history s @ logged (new_calls ?fd u d k)"
  let ?s = "s\<lparr>rdata := r, history := ?h\<rparr>"
  have ann: "announceable d (cap_name k) u (cap_entries k)"
    using ok by (simp add: msg_ok_def)
  note i = add_packet_id [of e' u e i]
  note add = handle_AddDevice_packet [OF add_packet_fields(1,2)]
  have acc: "accepting (reopened os ?fd) ?fd"
    by (rule reopen_accepts [OF grants])
  have fd: "os_open os (history s) (Open ''/dev/uinput'') = Inr ?fd"
    by (rule granting_given_fd [OF grants])
  have new: "newFromNE2AddCommand os u' e' ?p False s = (Ret (Some ?x), ?s)"
    unfolding run_newFromNE2AddCommand [OF fd]
    using newFromNE2AddCommand_consumes(1) [OF acc ann lay, of True] s(1,2)
    unfolding consumes_def new_device_def new_calls_def logged_def by blast
  have same: "s\<lparr>rdata := r, history := history s @ map (\<lambda>c. (c, None)) []\<rparr> = s\<lparr>rdata := r\<rparr>"
    by (cases s) simp
  have "newFromNE2AddCommand os u' e' ?p True s = (Ret None, s\<lparr>rdata := r, history := history s @ map (\<lambda>c. (c, None)) []\<rparr>)"
    unfolding run_newFromNE2AddCommand [OF fd]
    using newFromNE2AddCommand_consumes(2) [OF acc ann lay, of True] s(1,2) unfolding consumes_def by blast
  then have skip: "newFromNE2AddCommand os u' e' ?p True s = (Ret None, s\<lparr>rdata := r\<rparr>)"
    unfolding same .
  have find: "map_find j (map_set i ?x (devices s)) = ((table_of s)(i \<mapsto> ?x)) j" for j
    using s(3) by (simp add: table_of_def std.find_put)
  have ok': "map_ok (map_set i ?x (devices s))"
    using s(3) by (rule sorted_map_set)
  have okc: "\<forall>h c. os_call os h c = None"
    using grants by (simp add: granting_def)
  show ?thesis
  proof (cases "map_find i (devices s)")
    case None
    then have m: "machine os u dm (Add i d k) (table_of s, history s) = Inr ((table_of s)(i \<mapsto> ?x), ?h)"
      by (simp add: machine_def table_of_def)
    show ?thesis
      unfolding m using None
      by (intro obeysI [OF _ ok' find])
        (cases dm; simp add: add handle_AddDevice_def Let_def i run_simps add_new_def new store_device_def)
  next
    case (Some old)
    show ?thesis
    proof (cases dm)
      case Reject
      have m: "machine os u dm (Add i d k) (table_of s, history s) = Inl (duplicate i)"
        using Some Reject by (simp add: machine_def table_of_def)
      show ?thesis
        unfolding m using Some Reject
        by (intro obeys_throw) (simp add: add handle_AddDevice_def Let_def i run_simps throw_msg_def duplicate_def)
    next
      case Resume
      have m: "machine os u Resume (Add i d k) (table_of s, history s) = Inr (table_of s, history s)"
        using Some by (simp add: machine_def table_of_def)
      show ?thesis
        unfolding Resume m using Some s(3)
        by (intro obeys_idle) (simp_all add: add handle_AddDevice_def Let_def i run_simps skip)
    next
      case Replace
      have m: "machine os u dm (Add i d k) (table_of s, history s) =
          Inr ((table_of s)(i \<mapsto> ?x), history s @ logged (new_calls ?fd u d k @ gone old))"
        using Some Replace by (simp add: machine_def table_of_def)
      show ?thesis
        unfolding m using Some Replace okc
        by (intro obeysI [OF _ ok' find])
          (simp add: add handle_AddDevice_def Let_def i run_simps add_new_def new store_device_def
            OutDevice_delete_def gone_def log_call_def logged_def)
    qed
  qed
qed

text \<open>One message: \<open>handle_packet\<close> on its packet and what follows that in the stream.\<close>

lemma run_message:
  assumes grants: "granting os" and ok: "msg_ok u m" and lay: "same_layout u u'"
    and s: "rdata s = msg_rest u e m @ r" "use_setup s" "map_ok (devices s)"
  shows "obeys (handle_packet os u' e' dm (msg_packet u e m)) s r (machine os u dm m (table_of s, history s))"
proof -
  have okc: "\<forall>h c. os_call os h c = None"
    using grants by (simp add: granting_def)
  have same: "s = s\<lparr>rdata := r\<rparr>" if "msg_rest u e m = []"
    using that s(1) by (cases s) simp
  show ?thesis
  proof (cases m)
    case Hello
    then show ?thesis
      using obeys_idle [of "handle_packet os u' e' dm (hello_packet e)" s r] same s(3)
      by (simp add: machine_def msg_packet_def msg_rest_def run_hello)
  next
    case KeepAlive
    then show ?thesis
      using obeys_idle [of "handle_packet os u' e' dm zero_packet" s r] same s(3)
      by (simp add: machine_def msg_packet_def msg_rest_def run_keepalive)
  next
    case (Add i d k)
    then have "rdata s = ne2_add_rest u e d (cap_entries k) (cap_axis k) @ r"
      using s(1) by (simp add: msg_rest_def)
    from run_add [OF grants _ lay this s(2,3), of i e' dm] ok show ?thesis
      by (simp add: Add msg_packet_def)
  next
    case (Remove i)
    show ?thesis
    proof (cases "map_find i (devices s)")
      case None
      then have "machine os u dm m (table_of s, history s) = Inl (missing i)"
        by (simp add: machine_def Remove table_of_def)
      with None show ?thesis
        by (simp add: Remove msg_packet_def obeys_throw run_remove [OF okc])
    next
      case (Some x)
      then have m: "machine os u dm m (table_of s, history s) = Inr ((table_of s)(i := None), history s @ logged (gone x))"
        by (simp add: machine_def Remove table_of_def)
      have "s\<lparr>devices := map_erase i (devices s), history := history s @ logged (gone x)\<rparr> =
          s\<lparr>rdata := r, history := history s @ logged (gone x), devices := map_erase i (devices s)\<rparr>"
        using s(1) by (cases s) (simp add: Remove msg_rest_def)
      with Some show ?thesis
        unfolding m by (intro obeysI [where ds = "map_erase i (devices s)"])
          (simp_all add: Remove msg_packet_def run_remove [OF okc] map_ok_erase [OF s(3)] map_find_erase table_of_def)
    qed
  next
    case (Event i ev)
    show ?thesis
    proof (cases "map_find i (devices s)")
      case None
      then have "machine os u dm m (table_of s, history s) = Inl (missing i)"
        by (simp add: machine_def Event table_of_def)
      with None show ?thesis
        by (simp add: Event msg_packet_def obeys_throw handle_event_packet missing_def)
    next
      case (Some x)
      then have m: "machine os u dm m (table_of s, history s) = Inr (table_of s, history s @ logged (event_write (out_fd x) ev))"
        by (simp add: machine_def Event table_of_def)
      have "OutDevice_write os x (ev\<lparr>padding := p\<rparr>) s =
          (Ret (), s\<lparr>rdata := r, history := history s @ logged (event_write (out_fd x) ev), devices := devices s\<rparr>)"
        for p
        using s(1) okc by (cases s) (simp add: Event msg_rest_def OutDevice_write_def event_write_def run_simps log_call_def logged_def)
      with Some show ?thesis
        unfolding m by (intro obeysI [where ds = "devices s"])
          (simp_all add: Event msg_packet_def handle_event_packet s(3) table_of_def)
    qed
  qed
qed

lemma create_loop_Cons:
  "rdata s = msg_bytes u e m @ rest \<Longrightarrow> create_loop os u' e' dm (Suc n) s =
   thenP (handle_packet os u' e' dm (msg_packet u e m)) (create_loop os u' e' dm n) (s\<lparr>rdata := msg_rest u e m @ rest\<rparr>)"
  using length_msg_packet [of u e m]
  by (simp add: msg_bytes_split run_simps NE2Packet_size_def)

lemma run_machine:
  assumes grants: "granting os" and lay: "same_layout u u'"
  shows "rdata s = concat (map (msg_bytes u e) ms) \<Longrightarrow> rend s = 0 \<Longrightarrow> use_setup s \<Longrightarrow>
    serversock s = Socket_new \<Longrightarrow> map_ok (devices s) \<Longrightarrow> \<forall>m\<in>set ms. msg_ok u m \<Longrightarrow> length ms < n \<Longrightarrow>
    machine_run os u dm ms (table_of s, history s) = (ex, tbl, h) \<Longrightarrow>
    \<exists>s'. create_loop os u' e' dm n s = ((case ex of Some x \<Rightarrow> Throw x | None \<Rightarrow> Ret (Some 0)), s') \<and>
      history s' = h \<and> table_of s' = tbl \<and> (ex = None \<longrightarrow> rdata s' = [])"
proof (induction ms arbitrary: n s)
  case Nil
  from Nil.prems obtain m where n: "n = Suc m" by (cases n) auto
  have "create_loop os u' e' dm n s = (Ret (Some 0), s)"
    using Nil.prems by (cases s) (simp add: n run_simps NE2Packet_size_def Socket_new_def)
  then show ?case
    using Nil.prems(1,8) by auto
next
  case (Cons m ms)
  from Cons.prems obtain l where n: "n = Suc l" "length ms < l" by (cases n) auto
  let ?rest = "concat (map (msg_bytes u e) ms)"
  let ?s = "s\<lparr>rdata := msg_rest u e m @ ?rest\<rparr>"
  have loop: "create_loop os u' e' dm n s = thenP (handle_packet os u' e' dm (msg_packet u e m))
      (create_loop os u' e' dm l) ?s"
    unfolding n(1) by (rule create_loop_Cons) (use Cons.prems(1) in simp)
  have tbl: "table_of ?s = table_of s"
    by (simp add: table_of_def fun_eq_iff)
  have ob: "obeys (handle_packet os u' e' dm (msg_packet u e m)) ?s ?rest (machine os u dm m (table_of s, history s))"
    using run_message [OF grants _ lay, of m ?s e ?rest e' dm] Cons.prems by (simp add: tbl)
  show ?case
  proof (cases "machine os u dm m (table_of s, history s)")
    case (Inl x)
    then show ?thesis
      using ob Cons.prems(8) by (intro exI [of _ ?s]) (auto simp: obeys_def loop run_simps tbl)
  next
    case (Inr p)
    obtain tbl1 h1 where p: "p = (tbl1, h1)"
      by (cases p)
    obtain ds where ds: "handle_packet os u' e' dm (msg_packet u e m) ?s =
       (Ret (), ?s\<lparr>rdata := ?rest, history := h1, devices := ds\<rparr>)" "map_ok ds" "\<And>j. map_find j ds = tbl1 j"
      using ob by (auto simp: obeys_def Inr p)
    let ?t = "?s\<lparr>rdata := ?rest, history := h1, devices := ds\<rparr>"
    have tt: "table_of ?t = tbl1"
      using ds(3) by (simp add: table_of_def fun_eq_iff)
    have "\<exists>s'. create_loop os u' e' dm l ?t = ((case ex of Some x \<Rightarrow> Throw x | None \<Rightarrow> Ret (Some 0)), s') \<and>
        history s' = h \<and> table_of s' = tbl \<and> (ex = None \<longrightarrow> rdata s' = [])"
      by (rule Cons.IH [of ?t l, unfolded tt]) (use Cons.prems n ds(2) in \<open>simp_all add: Inr p\<close>)
    moreover have "create_loop os u' e' dm n s = create_loop os u' e' dm l ?t"
      by (simp add: loop run_simps ds(1))
    ultimately show ?thesis
      by simp
  qed
qed

text \<open>
  C6. The create loop implements the protocol: for every sequence of messages (hello, keep-alive,
  announcements, removals, events) from a host of any byte order, in every mode for duplicates
  and from every table of devices, on a kernel that grants every request and gives descriptors
  as it likes, the loop makes exactly the calls the abstract machine makes, in order, and ends
  with the machine's table of devices and the exception it stops at (a missing or a duplicate
  device), or, when the stream ends, with 0 and the whole stream read.
\<close>

theorem create_loop_implements:
  assumes "granting os" and "same_layout u u'"
    and "rdata s = concat (map (msg_bytes u e) ms)" and "rend s = 0" and "use_setup s"
    and "serversock s = Socket_new" and "map_ok (devices s)" and "\<forall>m\<in>set ms. msg_ok u m" and "length ms < n"
    and "machine_run os u dm ms (table_of s, history s) = (ex, tbl, h)"
  shows "\<exists>s'. create_loop os u' e' dm n s = ((case ex of Some x \<Rightarrow> Throw x | None \<Rightarrow> Ret (Some 0)), s') \<and>
      history s' = h \<and> table_of s' = tbl \<and> (ex = None \<longrightarrow> rdata s' = [])"
  using assms by (rule run_machine)

text \<open>A device is announced, reports an event, is removed, and reports another one.\<close>

theorem create_loop_implements_witness:
  "\<exists>s'. create_loop quiet_os linux_uapi Big Reject 5 ((sample_cstate [])\<lparr>rdata := concat (map (msg_bytes linux_uapi Little)
      [Add 7 sample_device \<lparr>cap_name = ''pad'', cap_entries = sample_entries, cap_axis = sample_axis\<rparr>,
       Event 7 (event_of 0 sample_event), Remove 7, Event 7 (event_of 0 sample_event)])\<rparr>) = (Throw (missing 7), s') \<and>
    map fst (history s') = received_calls True 3 linux_uapi sample_device sample_entries sample_axis @
      [WriteEvent 3 sample_event, Ioctl 3 UI_DEV_DESTROY, Close 3]"
proof -
  let ?k = "\<lparr>cap_name = ''pad'', cap_entries = sample_entries, cap_axis = sample_axis\<rparr>"
  let ?ms = "[Add 7 sample_device ?k, Event 7 (event_of 0 sample_event), Remove 7, Event 7 (event_of 0 sample_event)]"
  let ?s = "(sample_cstate [])\<lparr>rdata := concat (map (msg_bytes linux_uapi Little) ?ms)\<rparr>"
  have a: "granting quiet_os" by (simp add: granting_def quiet_os_def)
  have l: "same_layout linux_uapi linux_uapi" by (simp add: same_layout_def)
  have s: "rdata ?s = concat (map (msg_bytes linux_uapi Little) ?ms)" "rend ?s = 0" "use_setup ?s"
    "serversock ?s = Socket_new" "map_ok (devices ?s)" "history ?s = []"
    by (simp_all add: sample_cstate_def)
  have ok: "\<forall>m\<in>set ?ms. msg_ok linux_uapi m"
    by (simp add: msg_ok_def sample_announceable)
  have t: "table_of ?s = Map.empty"
    by (simp add: table_of_def sample_cstate_def fun_eq_iff)
  have fd: "out_fd (new_device 3 u d k) = 3" for u d k
    by (simp add: new_device_def received_device_def)
  have fd': "given_fd quiet_os h = 3" for h
    by (simp add: given_fd_def quiet_os_def)
  have run: "machine_run quiet_os linux_uapi Reject ?ms (Map.empty, []) = (Some (missing 7), Map.empty,
      logged (received_calls True 3 linux_uapi sample_device sample_entries sample_axis @
        [WriteEvent 3 sample_event, Ioctl 3 UI_DEV_DESTROY, Close 3]))"
    by (simp add: machine_def new_calls_def gone_def fd fd' logged_def event_write_def event_of_def sample_event_def)
  show ?thesis
    using create_loop_implements [OF a l s(1-5) ok _ run [folded t s(6)], of 5 Big]
    by (auto simp: logged_def comp_def)
qed

section \<open>Devices do not mix\<close>

text \<open>
  A kernel gives no descriptor that is still open, so the devices of the table, which are open,
  have different descriptors: an event that reaches one reaches no other.
\<close>

definition apart :: "table \<times> effect list \<Rightarrow> bool" where
  "apart st = (case st of (tbl, h) \<Rightarrow>
     (\<forall>i x. tbl i = Some x \<longrightarrow> out_fd x \<in> fd_table h) \<and>
     (\<forall>i j x y. tbl i = Some x \<longrightarrow> tbl j = Some y \<longrightarrow> out_fd x = out_fd y \<longrightarrow> i = j))"

lemma fd_table_logged:
  "(\<And>c. c \<in> set cs \<Longrightarrow> case c of GotFd fd \<Rightarrow> False | Close fd \<Rightarrow> False | _ \<Rightarrow> True) \<Longrightarrow>
   foldl fd_step F (logged cs) = F"
proof (induction cs arbitrary: F)
  case (Cons c cs)
  from Cons.prems [of c] have "fd_step F (c, None) = F"
    by (auto simp: fd_step_def split: call.splits)
  moreover have "foldl fd_step F (logged cs) = F"
    by (rule Cons.IH) (use Cons.prems in auto)
  ultimately show ?case
    by (simp add: logged_def)
qed (simp add: logged_def)

lemma logged_append [simp]: "logged (cs @ cs') = logged cs @ logged cs'"
  by (simp add: logged_def)

lemma new_calls_table: "foldl fd_step F (logged (new_calls fd u d k)) = insert fd F"
proof -
  let ?cs = "drop 2 (new_calls fd u d k)"
  have cs: "new_calls fd u d k = Open ''/dev/uinput'' # GotFd fd # ?cs"
    by (simp add: new_calls_def received_calls_def)
  have "foldl fd_step (insert fd F) (logged ?cs) = insert fd F"
    by (rule fd_table_logged) (auto simp: new_calls_def received_calls_def bit_calls_def axis_call_def)
  then show ?thesis
    by (subst cs) (simp add: logged_def fd_step_def)
qed

lemma gone_table: "foldl fd_step F (logged (gone x)) = F - {out_fd x}"
  by (simp add: gone_def logged_def fd_step_def)

lemma event_table: "foldl fd_step F (logged (event_write fd ev)) = F"
  by (rule fd_table_logged) (simp add: event_write_def split: if_splits)

lemma out_fd_new_device [simp]: "out_fd (new_device fd u d k) = fd"
  by (simp add: new_device_def received_device_def)

lemma apart_put:
  assumes "apart (tbl, h)" and "out_fd x \<notin> fd_table h"
    and "fd_table h' = insert (out_fd x) (fd_table h - {out_fd y |y. tbl i = Some y})"
  shows "apart (tbl(i \<mapsto> x), h')"
proof -
  have open_fds: "\<And>i x. tbl i = Some x \<Longrightarrow> out_fd x \<in> fd_table h"
    and one: "\<And>i j x y. tbl i = Some x \<Longrightarrow> tbl j = Some y \<Longrightarrow> out_fd x = out_fd y \<Longrightarrow> i = j"
    using assms(1) by (auto simp: apart_def)
  show ?thesis
    unfolding apart_def prod.case
  proof (intro conjI allI impI)
    fix j z
    assume "(tbl(i \<mapsto> x)) j = Some z"
    then show "out_fd z \<in> fd_table h'"
      using open_fds one unfolding assms(3) by (cases "j = i") auto
  next
    fix j k y z
    assume "(tbl(i \<mapsto> x)) j = Some y" "(tbl(i \<mapsto> x)) k = Some z" "out_fd y = out_fd z"
    then show "j = k"
      using open_fds one assms(2) by (cases "j = i"; cases "k = i") (auto, metis+)
  qed
qed

lemma apart_drop:
  assumes "apart (tbl, h)" and "fd_table h' = fd_table h - {out_fd y |y. tbl i = Some y}"
  shows "apart (tbl(i := None), h')"
proof -
  have "\<And>i x. tbl i = Some x \<Longrightarrow> out_fd x \<in> fd_table h"
    and "\<And>i j x y. tbl i = Some x \<Longrightarrow> tbl j = Some y \<Longrightarrow> out_fd x = out_fd y \<Longrightarrow> i = j"
    using assms(1) by (auto simp: apart_def)
  then show ?thesis
    by (auto simp: apart_def assms(2) split: if_splits)
qed

lemma machine_apart:
  assumes "granting os" and "fresh_fds os" and "apart st" and step: "machine os u dm m st = Inr st'"
  shows "apart st'"
proof -
  obtain tbl h where st: "st = (tbl, h)" by (cases st)
  have "os_open os h (Open ''/dev/uinput'') = Inr (given_fd os h)"
    by (rule granting_given_fd [OF assms(1)])
  then have new: "given_fd os h \<notin> fd_table h"
    using assms(2) unfolding fresh_fds_def by blast
  have ap: "apart (tbl, h)"
    using assms(3) st by simp
  have old: "out_fd y \<noteq> given_fd os h" if "tbl i = Some y" for i y
    using ap that new by (metis (mono_tags, lifting) apart_def prod.case)
  note tables = new_calls_table gone_table event_table
  show ?thesis
  proof (cases m)
    case (Add i d k)
    let ?x = "new_device (given_fd os h) u d k"
    have "st' = (tbl, h) \<or> (\<exists>h'. st' = (tbl(i \<mapsto> ?x), h') \<and>
        fd_table h' = insert (given_fd os h) (fd_table h - {out_fd y |y. tbl i = Some y}))"
      using step old by (auto simp: machine_def st Add tables split: option.splits DuplicateMode.splits) blast+
    then show ?thesis
      using ap apart_put [OF ap, of ?x _ i] new by auto
  next
    case (Remove i)
    then have "\<exists>h'. st' = (tbl(i := None), h') \<and> fd_table h' = fd_table h - {out_fd y |y. tbl i = Some y}"
      using step by (auto simp: machine_def st tables split: option.splits)
    then show ?thesis
      using apart_drop [OF ap] by blast
  qed (use step ap in \<open>auto simp: machine_def st apart_def tables split: option.splits\<close>)
qed

lemma machine_run_apart:
  "granting os \<Longrightarrow> fresh_fds os \<Longrightarrow> apart st \<Longrightarrow> machine_run os u dm ms st = (ex, st') \<Longrightarrow> apart st'"
  by (induction ms arbitrary: st) (auto dest: machine_apart split: sum.splits)

end
