(* ===== verification/Outputs.thy ===== *)
theory Outputs
  imports DaemonLoop CreateSpec
begin

text \<open>
  An output added to the daemon, and \<open>netevent create\<close> at its other end: what the daemon
  writes when the output is added (\<open>addOutput_Finish\<close>, \<^verbatim>\<open>daemon.cpp\<close>) is a stream from
  which \<open>create\<close> makes all the daemon's devices, each under its id.
\<close>

section \<open>What a new output is told\<close>

definition describes :: "os \<Rightarrow> uapi \<Rightarrow> endian \<Rightarrow> caps \<Rightarrow> InDevice \<Rightarrow> bool" where
  "describes os u e k d \<longleftrightarrow> announceable d (cap_name k) u (cap_entries k) \<and>
     steady os e (in_fd d) u (cap_entries k) (cap_axis k)"

definition announcement :: "uapi \<Rightarrow> endian \<Rightarrow> caps \<Rightarrow> Input \<Rightarrow> byte list" where
  "announcement u e k i =
     add_packet u e (inp_id i) @ ne2_add_rest u e (device i) (cap_entries k) (cap_axis k)"

definition announcements :: "uapi \<Rightarrow> endian \<Rightarrow> (string \<Rightarrow> caps) \<Rightarrow> (string \<times> Input) list \<Rightarrow> byte list" where
  "announcements u e ks ins = concat (map (\<lambda>(name, i). announcement u e (ks name) i) ins)"

lemma announcements_Cons [simp]:
  "announcements u e ks [] = []"
  "announcements u e ks ((name, i) # ins) = announcement u e (ks name) i @ announcements u e ks ins"
  by (simp_all add: announcements_def)

lemma emits_catch:
  assumes m: "emits fd m r bs"
  shows "emits fd (catchP m k) r bs"
  unfolding emits_def
proof
  fix s
  from m obtain h where "m s = (Ret r, s\<lparr>history := history s @ h\<rparr>)" "wrote fd h = bs"
    unfolding emits_def by blast
  then show "\<exists>h'. catchP m k s = (Ret r, s\<lparr>history := history s @ h'\<rparr>) \<and> wrote fd h' = bs"
    by (auto simp: run_bind)
qed

lemma emits_announceDevice:
  assumes "describes os u e k (device i)" and "writes_ok os fd"
  shows "emits fd (announceDevice os u e i fd) True (announcement u e k i)"
proof -
  have ok: "InDevice_ok (device i)" "uapi_ok u" using assms(1) by (simp_all add: describes_def announceable_def)
  have "steady os e (in_fd (device i)) u (cap_entries k) (cap_axis k)" using assms(1) by (simp add: describes_def)
  from emits_announce [OF ok(1) this ok(2) assms(2)]
  have "emits fd (writeNE2AddDevice os u e (device i) fd (inp_id i)) () (announcement u e k i)"
    unfolding announcement_def announcement_split [OF ok(1)] .
  from emits_then [OF this emits_ret] show ?thesis
    unfolding announceDevice_def by (intro emits_catch) simp
qed

lemma emits_announce_until:
  assumes "writes_ok os fd" and "\<forall>(name, i)\<in>set ins. describes os u e (ks name) (device i)"
  shows "emits fd (announce_until os u e fd ins) () (announcements u e ks ins)"
  using assms(2)
proof (induction ins)
  case (Cons x ins)
  obtain name i where x: "x = (name, i)" by (cases x)
  from Cons.prems have "emits fd (announceDevice os u e i fd) True (announcement u e (ks name) i)"
    by (intro emits_announceDevice assms(1)) (simp add: x)
  moreover have "emits fd (announce_until os u e fd ins) () (announcements u e ks ins)"
    using Cons by simp
  ultimately show ?case by (auto simp: x intro: emits_bind)
qed (simp add: emits_ret)

lemma addOutput_Finish_run:
  assumes "writes_ok os fd" and "\<forall>(name, i)\<in>set (gInputs s). describes os u e (ks name) (device i)"
  shows "\<exists>h. addOutput_Finish os u e name fd False s =
      (Ret (), s\<lparr>history := history s @ h, gOutputs := map_emplace name fd (gOutputs s),
         gFDCBs := map_emplace fd CbOutput (gFDCBs s)\<rparr>) \<and>
    wrote fd h = hello_packet e @ announcements u e ks (gInputs s)"
proof -
  obtain h1 where h1: "writeHello os e fd s = (Ret (), s\<lparr>history := history s @ h1\<rparr>)" "wrote fd h1 = hello_packet e"
    using emits_hello [OF assms(1), of e] unfolding emits_def by blast
  let ?s = "s\<lparr>history := history s @ h1\<rparr>"
  obtain h2 where h2: "announce_until os u e fd (gInputs s) ?s = (Ret (), ?s\<lparr>history := history ?s @ h2\<rparr>)"
    "wrote fd h2 = announcements u e ks (gInputs s)"
    using emits_announce_until [OF assms] unfolding emits_def by blast
  show ?thesis
    by (rule exI [of _ "h1 @ h2"]) (simp add: addOutput_Finish_def announceAllDevices_def run_simps h1 h2)
qed

section \<open>What create makes of it\<close>

text \<open>The devices, in the order they are made; each gets the descriptor the kernel gives then.\<close>

fun made :: "os \<Rightarrow> uapi \<Rightarrow> (string \<Rightarrow> caps) \<Rightarrow> (string \<times> Input) list \<Rightarrow> effect list \<Rightarrow> (16 word \<times> OutDevice) list" where
  "made os u ks [] h = []"
| "made os u ks ((name, i) # ins) h = (inp_id i, new_device (given_fd os h) u (device i) (ks name)) #
     made os u ks ins (h @ logged (new_calls (given_fd os h) u (device i) (ks name)))"

lemma made_ids: "map fst (made os u ks ins h) = map (\<lambda>(name, i). inp_id i) ins"
  by (induction os u ks ins h rule: made.induct) auto

lemma made_device:
  "(name, i) \<in> set ins \<Longrightarrow> \<exists>fd. (inp_id i, new_device fd u (device i) (ks name)) \<in> set (made os u ks ins h)"
  by (induction os u ks ins h rule: made.induct) auto

text \<open>The announcements as messages of the protocol.\<close>

definition adds :: "(string \<Rightarrow> caps) \<Rightarrow> (string \<times> Input) list \<Rightarrow> msg list" where
  "adds ks ins = map (\<lambda>(name, i). Add (inp_id i) (device i) (ks name)) ins"

lemma announcements_msgs: "announcements u e ks ins = concat (map (msg_bytes u e) (adds ks ins))"
  by (induction ins) (auto simp: adds_def announcement_def msg_bytes_def)

lemma machine_adds:
  "distinct (map (\<lambda>(name, i). inp_id i) ins) \<Longrightarrow> \<forall>(name, i)\<in>set ins. tbl (inp_id i) = None \<Longrightarrow>
   \<exists>h'. machine_run os u dm (adds ks ins) (tbl, h) = (None, tbl ++ map_of (made os u ks ins h), h')"
proof (induction ins arbitrary: tbl h)
  case Nil
  then show ?case by (simp add: adds_def)
next
  case (Cons x ins)
  obtain name i where x: "x = (name, i)" by (cases x)
  let ?d = "new_device (given_fd os h) u (device i) (ks name)"
  let ?h = "h @ logged (new_calls (given_fd os h) u (device i) (ks name))"
  have ids: "inp_id j \<noteq> inp_id i" if "(a, j) \<in> set ins" for a j
    using Cons.prems(1) that by (force simp: x)
  have "\<exists>h'. machine_run os u dm (adds ks ins) (tbl(inp_id i \<mapsto> ?d), ?h) =
      (None, tbl(inp_id i \<mapsto> ?d) ++ map_of (made os u ks ins ?h), h')"
    by (rule Cons.IH) (use Cons.prems ids in \<open>auto simp: x\<close>)
  moreover have "inp_id i \<notin> fst ` set (made os u ks ins ?h)"
    using ids unfolding set_map [symmetric] made_ids by (force simp: split_beta)
  then have "map_of (made os u ks ins ?h) (inp_id i) = None"
    by (simp add: map_of_eq_None_iff)
  then have "tbl(inp_id i \<mapsto> ?d) ++ map_of (made os u ks ins ?h) = tbl ++ map_of (made os u ks (x # ins) h)"
    by (auto simp: fun_eq_iff x map_add_def split: option.split)
  moreover have "machine os u dm (Add (inp_id i) (device i) (ks name)) (tbl, h) = Inr (tbl(inp_id i \<mapsto> ?d), ?h)"
    using Cons.prems(2) by (simp add: x machine_def)
  moreover have "adds ks (x # ins) = Add (inp_id i) (device i) (ks name) # adds ks ins"
    by (simp add: adds_def x)
  ultimately show ?case
    by simp
qed

text \<open>
  C4. An output added to the daemon is told everything: the hello packet and the
  announcement of every device, in the order of their names, is what has been written when
  the output is registered; and a netevent create that reads those bytes, on a host of any
  byte order and with a kernel that grants every request and gives descriptors as it likes, accepts them to their end and has
  then exactly the daemon's devices, each under its id in the daemon with its name,
  identifier, events and axes. (The ids of the devices have to differ, and the headers have
  to agree on the number of axes.)
\<close>

theorem output_recreated:
  assumes "writes_ok os out" and "\<forall>(name, i)\<in>set (gInputs s). describes os u e (ks name) (device i)"
    and "distinct (map (\<lambda>(name, i). inp_id i) (gInputs s))"
    and "granting os'" and "same_layout u u'" and "length (gInputs s) < n"
  shows "\<exists>h bs. addOutput_Finish os u e name out False s =
      (Ret (), s\<lparr>history := history s @ h, gOutputs := map_emplace name out (gOutputs s),
         gFDCBs := map_emplace out CbOutput (gFDCBs s)\<rparr>) \<and>
    wrote out h = bs \<and>
    (\<forall>c :: cstate. rdata c = bs \<longrightarrow> rend c = 0 \<longrightarrow> use_setup c \<longrightarrow> devices c = [] \<longrightarrow> serversock c = Socket_new \<longrightarrow>
      (\<exists>c'. thenP (readHello os' e') (create_loop os' u' e' Reject n) c = (Ret (Some 0), c') \<and>
        (\<forall>j. map_find j (devices c') = map_of (made os' u ks (gInputs s) (history c)) j)))"
proof -
  obtain h where fin: "addOutput_Finish os u e name out False s =
      (Ret (), s\<lparr>history := history s @ h, gOutputs := map_emplace name out (gOutputs s),
         gFDCBs := map_emplace out CbOutput (gFDCBs s)\<rparr>)"
    and h: "wrote out h = hello_packet e @ announcements u e ks (gInputs s)"
    using addOutput_Finish_run [OF assms(1,2)] by blast
  have "\<exists>c'. thenP (readHello os' e') (create_loop os' u' e' Reject n) c = (Ret (Some 0), c') \<and>
      (\<forall>j. map_find j (devices c') = map_of (made os' u ks (gInputs s) (history c)) j)"
    if c: "rdata c = wrote out h" "rend c = 0" "use_setup c" "devices c = []" "serversock c = Socket_new"
    for c :: cstate
  proof -
    let ?c = "c\<lparr>rdata := announcements u e ks (gInputs s)\<rparr>"
    have ann: "\<forall>(name, i)\<in>set (gInputs s). announceable (device i) (cap_name (ks name)) u (cap_entries (ks name))"
      using assms(2) by (auto simp: describes_def)
    have empty: "table_of ?c = Map.empty"
      by (simp add: table_of_def fun_eq_iff c(4))
    obtain h' where run: "machine_run os' u Reject (adds ks (gInputs s)) (table_of ?c, history ?c) =
        (None, map_of (made os' u ks (gInputs s) (history c)), h')"
      using machine_adds [OF assms(3), of Map.empty os' u Reject ks "history c"] by (auto simp: empty)
    have ms: "\<forall>m\<in>set (adds ks (gInputs s)). msg_ok u m" "length (adds ks (gInputs s)) < n"
      using ann assms(6) by (auto simp: adds_def msg_ok_def)
    have pre: "rdata ?c = concat (map (msg_bytes u e) (adds ks (gInputs s)))" "rend ?c = 0" "use_setup ?c"
      "serversock ?c = Socket_new" "map_ok (devices ?c)"
      using c by (simp_all add: announcements_msgs)
    have "\<exists>c'. create_loop os' u' e' Reject n ?c = (Ret (Some 0), c') \<and>
        table_of c' = map_of (made os' u ks (gInputs s) (history c))"
      using run_machine [OF assms(4,5) pre ms run, of e'] by auto
    moreover have "readHello os' e' c = (Ret (), ?c)" by (rule run_readHello) (simp add: c h)
    ultimately show ?thesis by (auto simp: run_bind table_of_def fun_eq_iff)
  qed
  with fin show ?thesis by blast
qed

definition two_pads :: dstate where
  "two_pads = daemon_init\<lparr>gInputs := [(''a'', \<lparr>inp_id = 0, inp_ptr = 0, device = sample_device\<rparr>),
     (''b'', \<lparr>inp_id = 1, inp_ptr = 1, device = sample_device\<rparr>)]\<rparr>"

theorem output_recreated_witness:
  "\<exists>h c'. addOutput_Finish (sample_os Little) linux_uapi Little ''pc'' 9 False two_pads =
      (Ret (), two_pads\<lparr>history := h, gOutputs := [(''pc'', 9)], gFDCBs := [(9, CbOutput)]\<rparr>) \<and>
    thenP (readHello quiet_os Big) (create_loop quiet_os linux_uapi Big Reject 3)
      ((sample_cstate [])\<lparr>rdata := wrote 9 h\<rparr>) = (Ret (Some 0), c') \<and>
    map_find 1 (devices c') =
      Some (received_device True 3 linux_uapi sample_device sample_entries sample_axis\<lparr>created := True\<rparr>)"
proof -
  let ?ks = "\<lambda>_. \<lparr>cap_name = ''pad'', cap_entries = sample_entries, cap_axis = sample_axis\<rparr>"
  have w: "writes_ok (sample_os Little) 9" by (rule sample_ok)
  have fd: "in_fd sample_device = 4" by (simp add: sample_device_def)
  have d: "\<forall>(name, i)\<in>set (gInputs two_pads). describes (sample_os Little) linux_uapi Little (?ks name) (device i)"
    by (simp add: two_pads_def describes_def sample_announceable sample_ok fd)
  have i: "distinct (map (\<lambda>(name, i). inp_id i) (gInputs two_pads))" by (simp add: two_pads_def)
  have a: "granting quiet_os" by (simp add: granting_def quiet_os_def)
  have g: "given_fd quiet_os h = 3" for h by (simp add: given_fd_def quiet_os_def)
  have l: "same_layout linux_uapi linux_uapi" by (simp add: same_layout_def)
  have n: "length (gInputs two_pads) < 3" by (simp add: two_pads_def)
  obtain h where fin: "addOutput_Finish (sample_os Little) linux_uapi Little ''pc'' 9 False two_pads =
      (Ret (), two_pads\<lparr>history := history two_pads @ h, gOutputs := map_emplace ''pc'' 9 (gOutputs two_pads),
         gFDCBs := map_emplace 9 CbOutput (gFDCBs two_pads)\<rparr>)"
    and create: "\<forall>c :: cstate. rdata c = wrote 9 h \<longrightarrow> rend c = 0 \<longrightarrow> use_setup c \<longrightarrow> devices c = [] \<longrightarrow>
      serversock c = Socket_new \<longrightarrow>
      (\<exists>c'. thenP (readHello quiet_os Big) (create_loop quiet_os linux_uapi Big Reject 3) c = (Ret (Some 0), c') \<and>
        (\<forall>j. map_find j (devices c') = map_of (made quiet_os linux_uapi ?ks (gInputs two_pads) (history c)) j))"
    using output_recreated [OF w d i a l n, of "''pc''" Big] by blast
  let ?c = "(sample_cstate [])\<lparr>rdata := wrote 9 h\<rparr>"
  obtain c' where "thenP (readHello quiet_os Big) (create_loop quiet_os linux_uapi Big Reject 3) ?c = (Ret (Some 0), c')"
    "\<forall>j. map_find j (devices c') = map_of (made quiet_os linux_uapi ?ks (gInputs two_pads) (history ?c)) j"
    using create [rule_format, of ?c] by (auto simp: sample_cstate_def)
  with fin show ?thesis
    by (intro exI [of _ h] exI [of _ c'])
      (simp add: two_pads_def daemon_init_def g new_device_def map_emplace_def map_find_def)
qed

end
