(* ===== verification/Relay.thy ===== *)
theory Relay
  imports DaemonProps Outputs
begin

text \<open>
  The events on their way: the daemon reads its devices (\<open>readFromDevice\<close>, as the callbacks
  of its loop do), and \<open>netevent create\<close> at the other end of the current output replays them.
\<close>

section \<open>The daemon's half\<close>

text \<open>A kernel that reports the events \<open>kes\<close> in that order, whichever device is read.\<close>

definition reads_done :: "effect list \<Rightarrow> nat" where
  "reads_done h = length (filter (\<lambda>x. case fst x of ReadEvent fd \<Rightarrow> True | _ \<Rightarrow> False) h)"

definition reports :: "os \<Rightarrow> kernel_event list \<Rightarrow> bool" where
  "reports os kes \<longleftrightarrow> (\<forall>h fd. os_event os h (ReadEvent fd) =
     (if reads_done h < length kes then Inr (kes ! reads_done h) else Inl 0))"

text \<open>The command of the hotkey an event of device \<open>i\<close> hits.\<close>

definition hot_cmd :: "dstate \<Rightarrow> 16 word \<times> kernel_event \<Rightarrow> string option" where
  "hot_cmd s x = (case x of (i, ke) \<Rightarrow>
     if unat (ke_type ke) < EV_CNT
     then map_find (HotkeyDef i (ke_type ke) (ke_code ke) (ke_value ke)) (gHotkeys s) else None)"

definition relayed :: "dstate \<Rightarrow> (16 word \<times> kernel_event) list \<Rightarrow> (16 word \<times> InputEvent) list" where
  "relayed s xs = map (\<lambda>(i, ke). (i, event_read ke)) (filter (\<lambda>x. hot_cmd s x = None) xs)"

definition can_read :: "dstate \<Rightarrow> nat \<Rightarrow> bool" where
  "can_read s p \<longleftrightarrow> (case input_at p s of Some (name, i) \<Rightarrow> \<not> eof (device i) | None \<Rightarrow> False)"

lemma reads_done_append [simp]: "reads_done (h @ h') = reads_done h + reads_done h'"
  by (simp add: reads_done_def)

lemma run_reads:
  assumes rep: "reports os kes" and w: "writes_ok os out" and out: "out \<noteq> - 1"
  shows "gCurrentOutput_fd s = out \<Longrightarrow> gWrite s \<Longrightarrow> map_ok (gInputs s) \<Longrightarrow>
    \<forall>(p, i)\<in>set reads. can_read s p \<Longrightarrow> reads_done (history s) + length reads \<le> length kes \<Longrightarrow>
    \<exists>h. forP (\<lambda>(p, i). readFromDevice os e run p i) reads s =
      (Ret (), s\<lparr>history := history s @ h, gCommandQueue := gCommandQueue s @ map (Pair (- 1))
         (List.map_filter (hot_cmd s) (zip (map snd reads) (drop (reads_done (history s)) kes)))\<rparr>) \<and>
    wrote out h = concat (map (\<lambda>(i, ev). event_packet e i ev)
      (relayed s (zip (map snd reads) (drop (reads_done (history s)) kes))))"
proof (induction reads arbitrary: s)
  case Nil
  show ?case
    by (rule exI [of _ "[]"]) (simp add: run_simps relayed_def List.map_filter_def)
next
  case (Cons x reads)
  obtain p i where x: "x = (p, i)" by (cases x)
  obtain name inp where at: "input_at p s = Some (name, inp)" "\<not> eof (device inp)"
    using Cons.prems(4) by (auto simp: x can_read_def split: option.splits)
  let ?k = "reads_done (history s)"
  let ?ke = "kes ! ?k"
  have k: "?k < length kes"
    using Cons.prems(5) by simp
  have drop: "drop ?k kes = ?ke # drop (Suc ?k) kes"
    using k by (simp add: Cons_nth_drop_Suc)
  have ev: "os_event os (history s) (ReadEvent (in_fd (device inp))) = Inr ?ke"
    using rep k by (simp add: reports_def)
  define cmds where "cmds = (case hot_cmd s (i, ?ke) of None \<Rightarrow> [] | Some c \<Rightarrow> [(- 1 :: int, c)])"
  define h1 :: "effect list" where "h1 = (ReadEvent (in_fd (device inp)), None) #
    (if hot_cmd s (i, ?ke) = None then [(Write out (event_packet e i (event_read ?ke)), None)] else [])"
  let ?s = "s\<lparr>history := history s @ h1, gCommandQueue := gCommandQueue s @ cmds\<rparr>"
  have one: "readFromDevice os e run p i s = (Ret (), ?s)"
    using run_readFromDevice [OF at(1) Cons.prems(3) at(2) ev, of e run i] w out Cons.prems(1,2)
    by (simp add: routed_def route_def router_of_def hot_cmd_def event_read_def h1_def cmds_def log_call_def
        split: option.split)
  have once: "reads_done h1 = 1"
    by (simp add: h1_def reads_done_def)
  have same: "hot_cmd ?s = hot_cmd s"
    by (simp add: hot_cmd_def fun_eq_iff)
  have "\<exists>h. forP (\<lambda>(p, i). readFromDevice os e run p i) reads ?s =
      (Ret (), ?s\<lparr>history := history ?s @ h, gCommandQueue := gCommandQueue ?s @ map (Pair (- 1))
         (List.map_filter (hot_cmd ?s) (zip (map snd reads) (drop (reads_done (history ?s)) kes)))\<rparr>) \<and>
    wrote out h = concat (map (\<lambda>(i, ev). event_packet e i ev)
      (relayed ?s (zip (map snd reads) (drop (reads_done (history ?s)) kes))))"
    by (rule Cons.IH) (use Cons.prems once in \<open>auto simp: can_read_def input_at_def\<close>)
  then obtain h where h: "forP (\<lambda>(p, i). readFromDevice os e run p i) reads ?s =
      (Ret (), ?s\<lparr>history := history ?s @ h, gCommandQueue := gCommandQueue ?s @ map (Pair (- 1))
         (List.map_filter (hot_cmd s) (zip (map snd reads) (drop (Suc ?k) kes)))\<rparr>)"
    "wrote out h = concat (map (\<lambda>(i, ev). event_packet e i ev)
      (relayed s (zip (map snd reads) (drop (Suc ?k) kes))))"
    unfolding relayed_def same by (auto simp: once)
  have cmds: "map (Pair (- 1)) (List.map_filter (hot_cmd s) (zip (map snd (x # reads)) (drop ?k kes))) =
      cmds @ map (Pair (- 1)) (List.map_filter (hot_cmd s) (zip (map snd reads) (drop (Suc ?k) kes)))"
    by (simp add: x drop cmds_def List.map_filter_def split: option.split)
  have "wrote out (h1 @ h) = concat (map (\<lambda>(i, ev). event_packet e i ev)
      (relayed s (zip (map snd (x # reads)) (drop ?k kes))))"
    by (simp add: h(2) h1_def x drop relayed_def)
  then show ?case
    unfolding cmds using one h(1)
    by (intro exI [of _ "h1 @ h"]) (simp add: x run_simps)
qed

section \<open>Both halves\<close>

text \<open>
  C8. Events from the daemon's devices to those of create: with a current output that takes
  every write and writing on, the daemon reads any sequence of events from any of its devices,
  and a netevent create that has a device for each id, reading what was written on a host of
  any byte order, writes to the device of each event's id exactly that event, in the order of
  the reads, force feedback excepted; an event that is a hotkey is not sent, its command is
  queued instead, in the same order, and nothing else of the daemon changes.
\<close>

theorem events_relayed:
  assumes "reports os kes" and "writes_ok os (gCurrentOutput_fd s)" and "gCurrentOutput_fd s \<noteq> - 1"
    and "gWrite s" and "map_ok (gInputs s)" and "\<forall>(p, i)\<in>set reads. can_read s p"
    and "reads_done (history s) = 0" and "length reads \<le> length kes"
    and "\<forall>h c. os_call os' h c = None" and "length reads < n"
  shows "\<exists>h. forP (\<lambda>(p, i). readFromDevice os e run p i) reads s =
      (Ret (), s\<lparr>history := history s @ h, gCommandQueue := gCommandQueue s @
         map (Pair (- 1)) (List.map_filter (hot_cmd s) (zip (map snd reads) kes))\<rparr>) \<and>
    (\<forall>c :: cstate. rdata c = wrote (gCurrentOutput_fd s) h \<longrightarrow> rend c = 0 \<longrightarrow> serversock c = Socket_new \<longrightarrow>
       (\<forall>(i, ev)\<in>set (relayed s (zip (map snd reads) kes)). map_find i (devices c) = Some (dv i)) \<longrightarrow>
       create_loop os' u' e' dm n c = (Ret (Some 0), c\<lparr>rdata := [], history := history c @
         map (\<lambda>c. (c, None)) (concat (map (\<lambda>(i, ev). event_write (out_fd (dv i)) ev)
           (relayed s (zip (map snd reads) kes))))\<rparr>))"
proof -
  have "reads_done (history s) + length reads \<le> length kes"
    using assms(7,8) by simp
  from run_reads [OF assms(1-3) refl assms(4-6) this, of e run]
  obtain h where h: "forP (\<lambda>(p, i). readFromDevice os e run p i) reads s =
      (Ret (), s\<lparr>history := history s @ h, gCommandQueue := gCommandQueue s @
         map (Pair (- 1)) (List.map_filter (hot_cmd s) (zip (map snd reads) kes))\<rparr>)"
    "wrote (gCurrentOutput_fd s) h =
      concat (map (\<lambda>(i, ev). event_packet e i ev) (relayed s (zip (map snd reads) kes)))"
    by (auto simp: assms(7))
  have "length (relayed s (zip (map snd reads) kes)) \<le> length reads"
    unfolding relayed_def length_map by (rule order_trans [OF length_filter_le]) simp
  then have n: "length (relayed s (zip (map snd reads) kes)) < n"
    using assms(10) by simp
  show ?thesis
    by (rule exI [of _ h], intro conjI allI impI, rule h(1), rule run_create_events [OF assms(9) _ _ _ _ n])
      (simp_all add: h(2) Socket_new_def)
qed

text \<open>Two devices report the same event; it is a hotkey of the second.\<close>

definition relay_state :: dstate where
  "relay_state = two_pads\<lparr>gCurrentOutput_fd := 9, gWrite := True,
     gHotkeys := [(HotkeyDef 1 1 30 1, ''nop'')]\<rparr>"

theorem events_relayed_witness:
  "\<exists>h. forP (\<lambda>(p, i). readFromDevice (counting_os [] [] [sample_event, sample_event]) Little (\<lambda>_ _ _. undef) p i)
      [(0, 0), (1, 1)] relay_state =
      (Ret (), relay_state\<lparr>history := h, gCommandQueue := [(- 1, ''nop'')]\<rparr>) \<and>
    create_loop quiet_os linux_uapi Big Reject 3 ((sample_cstate [(0, sample_out)])\<lparr>rdata := wrote 9 h\<rparr>) =
      (Ret (Some 0), (sample_cstate [(0, sample_out)])\<lparr>rdata := [], history := [(WriteEvent 3 sample_event, None)]\<rparr>)"
proof -
  let ?os = "counting_os [] [] [sample_event, sample_event]"
  have r: "reports ?os [sample_event, sample_event]"
    by (simp add: reports_def counting_os_def reads_done_def Let_def)
  have w: "writes_ok ?os (gCurrentOutput_fd relay_state)" and out: "gCurrentOutput_fd relay_state = 9"
    and wr: "gWrite relay_state" and rd: "reads_done (history relay_state) = 0"
    and hist: "history relay_state = []" "gCommandQueue relay_state = []"
    by (simp_all add: writes_ok_def counting_os_def quiet_os_def relay_state_def two_pads_def daemon_init_def
        reads_done_def)
  have ins: "map_ok (gInputs relay_state)" "\<forall>(p, i)\<in>set [(0, 0 :: 16 word), (1, 1)]. can_read relay_state p"
    by (auto simp: relay_state_def two_pads_def map_ok_def can_read_def input_at_def sample_device_def)
  have hot: "hot_cmd relay_state (0, sample_event) = None" "hot_cmd relay_state (1, sample_event) = Some ''nop''"
    by (simp_all add: hot_cmd_def relay_state_def map_find_def sample_event_def)
  have sent: "relayed relay_state (zip (map snd [(0 :: nat, 0), (1, 1)]) [sample_event, sample_event]) =
      [(0, event_read sample_event)]"
    by (simp add: relayed_def hot)
  have cmds: "List.map_filter (hot_cmd relay_state) (zip (map snd [(0 :: nat, 0), (1, 1)]) [sample_event, sample_event]) =
      [''nop'']"
    by (simp add: List.map_filter_def hot)
  have q: "\<forall>h c. os_call quiet_os h c = None"
    by (simp add: quiet_os_def)
  have e: "event_write 3 (event_read sample_event) = [WriteEvent 3 sample_event]"
    by (simp add: event_write_def event_read_def sample_event_def)
  have ne: "gCurrentOutput_fd relay_state \<noteq> - 1"
    by (simp add: out)
  obtain h where h: "forP (\<lambda>(p, i). readFromDevice ?os Little (\<lambda>_ _ _. undef) p i) [(0, 0), (1, 1)] relay_state =
      (Ret (), relay_state\<lparr>history := history relay_state @ h, gCommandQueue := gCommandQueue relay_state @
         map (Pair (- 1)) [''nop'']\<rparr>)"
    and c: "\<forall>c :: cstate. rdata c = wrote 9 h \<longrightarrow> rend c = 0 \<longrightarrow> serversock c = Socket_new \<longrightarrow>
       (\<forall>(i, ev)\<in>set [(0, event_read sample_event)]. map_find i (devices c) = Some sample_out) \<longrightarrow>
       create_loop quiet_os linux_uapi Big Reject 3 c = (Ret (Some 0), c\<lparr>rdata := [], history := history c @
         map (\<lambda>c. (c, None)) (concat (map (\<lambda>(i, ev). event_write (out_fd sample_out) ev)
           [(0, event_read sample_event)]))\<rparr>)"
    using events_relayed [OF r w ne wr ins rd _ q, of 3 Little "\<lambda>_ _ _. undef" "\<lambda>_. sample_out" linux_uapi Big Reject]
    unfolding sent cmds out by auto
  have "create_loop quiet_os linux_uapi Big Reject 3 ((sample_cstate [(0, sample_out)])\<lparr>rdata := wrote 9 h\<rparr>) =
      (Ret (Some 0), (sample_cstate [(0, sample_out)])\<lparr>rdata := [], history := [(WriteEvent 3 sample_event, None)]\<rparr>)"
    using c [rule_format, of "(sample_cstate [(0, sample_out)])\<lparr>rdata := wrote 9 h\<rparr>"]
    by (simp add: sample_cstate_def map_find_def sample_out_def e)
  with h show ?thesis
    by (auto simp: hist)
qed

end
