(* ===== verification/Mirror.thy ===== *)
theory Mirror
  imports Relay CreateSpec
begin

text \<open>
  What an output of the daemon is told is what its inputs are: what the operations on devices
  write to it, while no id is given out twice, no persistent device goes and no write fails, are
  messages after which \<open>netevent create\<close> at the other end has exactly the daemon's devices.
\<close>

section \<open>The relation\<close>

definition ids :: "dstate \<Rightarrow> 16 word set" where
  "ids s = (\<lambda>(name, i). inp_id i) ` set (gInputs s)"

text \<open>The table has a device for each id of the daemon's and no other, made from its description.\<close>

definition mirrors :: "os \<Rightarrow> uapi \<Rightarrow> endian \<Rightarrow> dstate \<Rightarrow> table \<Rightarrow> bool" where
  "mirrors os u e s tbl \<longleftrightarrow> dom tbl = ids s \<and>
     (\<forall>name i. map_find name (gInputs s) = Some i \<longrightarrow>
       (\<exists>fd k. describes os u e k (device i) \<and> tbl (inp_id i) = Some (new_device fd u (device i) k)))"

text \<open>The state is orderly: one entry per name and per id, \<open>out\<close> is an output, once.\<close>

definition serving :: "int \<Rightarrow> dstate \<Rightarrow> bool" where
  "serving out s \<longleftrightarrow> map_ok (gInputs s) \<and>
     (\<forall>n m i j. map_find n (gInputs s) = Some i \<longrightarrow> map_find m (gInputs s) = Some j \<longrightarrow>
       inp_id i = inp_id j \<longrightarrow> n = m) \<and>
     distinct (map snd (gOutputs s)) \<and> out \<in> snd ` set (gOutputs s)"

text \<open>
  From \<open>s\<close> to \<open>s'\<close> the daemon wrote messages to \<open>out\<close> that take the machine from any table that
  mirrors \<open>s\<close> to one that mirrors \<open>s'\<close>.
\<close>

definition told :: "os \<Rightarrow> uapi \<Rightarrow> endian \<Rightarrow> int \<Rightarrow> os \<Rightarrow> DuplicateMode \<Rightarrow> dstate \<Rightarrow> dstate \<Rightarrow> bool" where
  "told os u e out os' dm s s' \<longleftrightarrow> (\<exists>h ms. history s' = history s @ h \<and>
     wrote out h = concat (map (msg_bytes u e) ms) \<and> (\<forall>x\<in>set ms. msg_ok u x) \<and>
     (\<forall>tbl h0. mirrors os u e s tbl \<longrightarrow>
       (\<exists>tbl' h'. machine_run os' u dm ms (tbl, h0) = (None, tbl', h') \<and> mirrors os u e s' tbl')))"

lemma toldI:
  "history s' = history s @ h \<Longrightarrow> wrote out h = concat (map (msg_bytes u e) ms) \<Longrightarrow>
   (\<And>x. x \<in> set ms \<Longrightarrow> msg_ok u x) \<Longrightarrow>
   (\<And>tbl h0. mirrors os u e s tbl \<Longrightarrow>
     \<exists>tbl' h'. machine_run os' u dm ms (tbl, h0) = (None, tbl', h') \<and> mirrors os u e s' tbl') \<Longrightarrow>
   told os u e out os' dm s s'"
  unfolding told_def by blast

lemma told_silent:
  "history s' = history s @ h \<Longrightarrow> wrote out h = [] \<Longrightarrow> gInputs s' = gInputs s \<Longrightarrow> told os u e out os' dm s s'"
  by (rule toldI [where h = h and ms = "[]"]) (simp_all add: mirrors_def ids_def)

lemma machine_run_append:
  "machine_run os' u dm (ms @ ms') st = (case machine_run os' u dm ms st of
     (Some ex, st') \<Rightarrow> (Some ex, st')
   | (None, st') \<Rightarrow> machine_run os' u dm ms' st')"
  by (induction ms arbitrary: st) (auto split: sum.split)

lemma told_trans:
  assumes "told os u e out os' dm s t" and "told os u e out os' dm t s'"
  shows "told os u e out os' dm s s'"
proof -
  obtain h ms where 1: "history t = history s @ h" "wrote out h = concat (map (msg_bytes u e) ms)"
    "\<forall>x\<in>set ms. msg_ok u x" "\<And>tbl h0. mirrors os u e s tbl \<Longrightarrow>
      \<exists>tbl' h'. machine_run os' u dm ms (tbl, h0) = (None, tbl', h') \<and> mirrors os u e t tbl'"
    using assms(1) unfolding told_def by blast
  obtain h' ms' where 2: "history s' = history t @ h'" "wrote out h' = concat (map (msg_bytes u e) ms')"
    "\<forall>x\<in>set ms'. msg_ok u x" "\<And>tbl h0. mirrors os u e t tbl \<Longrightarrow>
      \<exists>tbl' h'. machine_run os' u dm ms' (tbl, h0) = (None, tbl', h') \<and> mirrors os u e s' tbl'"
    using assms(2) unfolding told_def by blast
  show ?thesis
  proof (rule toldI [where h = "h @ h'" and ms = "ms @ ms'"])
    fix tbl h0
    assume "mirrors os u e s tbl"
    from 1(4) [OF this] obtain tbl1 h1 where a: "machine_run os' u dm ms (tbl, h0) = (None, tbl1, h1)" "mirrors os u e t tbl1"
      by blast
    from 2(4) [OF this(2)] obtain tbl2 h2 where b: "machine_run os' u dm ms' (tbl1, h1) = (None, tbl2, h2)" "mirrors os u e s' tbl2"
      by blast
    show "\<exists>tbl' h'. machine_run os' u dm (ms @ ms') (tbl, h0) = (None, tbl', h') \<and> mirrors os u e s' tbl'"
      by (simp add: machine_run_append a b)
  qed (use 1 2 in auto)
qed

section \<open>Events\<close>

lemma ids_find: "map_ok (gInputs s) \<Longrightarrow> ids s = {k. \<exists>name i. map_find name (gInputs s) = Some i \<and> inp_id i = k}"
  by (force simp: ids_def std.entries_find [symmetric])

lemma told_event:
  assumes ok: "map_ok (gInputs s)" and at: "input_at p s = Some (name, inp)" and "\<not> eof (device inp)"
    and "os_event os (history s) (ReadEvent (in_fd (device inp))) = Inr ke"
    and "writes_ok os (gCurrentOutput_fd s)"
    and run: "readFromDevice os e run p (inp_id inp) s = (Ret (), s')"
  shows "told os u e out os' dm s s' \<and> gInputs s' = gInputs s \<and> gOutputs s' = gOutputs s"
proof -
  let ?ev = "event_read ke"
  let ?r = "route (router_of s) e (inp_id inp) ?ev"
  have s': "s' = routed os ?r (log_call (ReadEvent (in_fd (device inp))) None s)"
    using run_readFromDevice [OF at ok assms(3-5), of e run "inp_id inp"] run by simp
  have same: "gInputs s' = gInputs s" "gOutputs s' = gOutputs s"
    by (simp_all add: s' routed_def log_call_def split: routing.split)
  have "told os u e out os' dm s s'"
  proof (cases "?r = Send out (event_packet e (inp_id inp) ?ev)")
    case True
    let ?h = "[(ReadEvent (in_fd (device inp)), None), (Write out (event_packet e (inp_id inp) ?ev), None)]"
    show ?thesis
    proof (rule toldI [where ms = "[Event (inp_id inp) ?ev]" and h = ?h])
      show "history s' = history s @ ?h"
        unfolding s' True by (simp add: routed_def log_call_def)
      fix tbl h0
      assume m: "mirrors os u e s tbl"
      have "inp_id inp \<in> dom tbl"
        using m input_at_find [OF ok at, THEN conjunct1] ids_find [OF ok] by (auto simp: mirrors_def)
      then obtain x where "tbl (inp_id inp) = Some x"
        by blast
      then have "machine_run os' u dm [Event (inp_id inp) ?ev] (tbl, h0) =
          (None, tbl, h0 @ logged (event_write (out_fd x) ?ev))"
        by (simp add: machine_def)
      moreover have "mirrors os u e s' tbl"
        using m by (simp add: mirrors_def ids_def same)
      ultimately show "\<exists>tbl' h'. machine_run os' u dm [Event (inp_id inp) ?ev] (tbl, h0) = (None, tbl', h') \<and> mirrors os u e s' tbl'"
        by blast
    qed (simp_all add: msg_bytes_def msg_ok_def)
  next
    case False
    then have "\<exists>h. history s' = history s @ h \<and> wrote out h = []"
      unfolding s' by (cases ?r) (auto simp: routed_def log_call_def route_def split: option.splits if_splits)
    then obtain h where "history s' = history s @ h" "wrote out h = []"
      by blast
    then show ?thesis
      using same(1) by (rule told_silent)
  qed
  with same show ?thesis
    by blast
qed

section \<open>Removals\<close>

lemma wrote_removals:
  "distinct (map snd outs) \<Longrightarrow> wrote out (map (\<lambda>(name, fd). (Write fd bs, None)) outs) =
     (if out \<in> snd ` set outs then bs else [])"
  by (induction outs) force+

lemma run_finish:
  assumes at: "input_at p s = Some (name, inp)" and np: "\<not> persistent (device inp)"
    and w: "\<And>fd. writes_ok os fd" and run: "finishDeviceRemoval os e p s = (Ret (), s')"
  shows "gInputs s' = map_erase name (gInputs s)" "gOutputs s' = gOutputs s"
    "\<exists>h. history s' = history s @ map (\<lambda>(name, fd). (Write fd (remove_packet e (inp_id inp)), None)) (gOutputs s) @ h \<and>
      wrote out h = []"
  using run at np
  by (auto simp: finishDeviceRemoval_def announceDeviceRemoval_def cleanupDeviceHotkeys_def InDevice_delete_def
      run_simps run_announce_removal [OF w] log_call_def split: if_splits)

lemma told_removal:
  assumes sv: "serving out s" and at: "input_at p s = Some (name, inp)" and np: "\<not> persistent (device inp)"
    and w: "\<And>fd. writes_ok os fd" and run: "finishDeviceRemoval os e p s = (Ret (), s')"
  shows "told os u e out os' dm s s' \<and> serving out s'"
proof -
  let ?i = "inp_id inp"
  have ok: "map_ok (gInputs s)" and outs: "distinct (map snd (gOutputs s))" "out \<in> snd ` set (gOutputs s)"
    and one: "\<And>n m i j. map_find n (gInputs s) = Some i \<Longrightarrow> map_find m (gInputs s) = Some j \<Longrightarrow>
      inp_id i = inp_id j \<Longrightarrow> n = m"
    using sv by (simp_all add: serving_def)
  note fin = run_finish [OF at np w run]
  obtain h where h: "history s' = history s @ map (\<lambda>(name, fd). (Write fd (remove_packet e ?i), None)) (gOutputs s) @ h"
    "wrote out h = []"
    using fin(3) [of out] by blast
  have find: "map_find n (gInputs s') = (if n = name then None else map_find n (gInputs s))" for n
    by (simp add: fin(1) map_find_erase)
  have ok': "map_ok (gInputs s')"
    unfolding fin(1) by (rule map_ok_erase [OF ok])
  have here: "map_find name (gInputs s) = Some inp"
    by (rule input_at_find [OF ok at, THEN conjunct1])
  have "serving out s'"
    using one outs by (auto simp: serving_def ok' find fin(2))
  moreover have "told os u e out os' dm s s'"
  proof (rule toldI [where ms = "[Remove ?i]", OF h(1)])
    show "wrote out (map (\<lambda>(name, fd). (Write fd (remove_packet e ?i), None)) (gOutputs s) @ h) =
        concat (map (msg_bytes u e) [Remove ?i])"
      using outs by (simp add: wrote_removals h(2) msg_bytes_def)
    fix tbl h0
    assume m: "mirrors os u e s tbl"
    then obtain x where x: "tbl ?i = Some x"
      using here unfolding mirrors_def by blast
    then have "machine_run os' u dm [Remove ?i] (tbl, h0) = (None, tbl(?i := None), h0 @ logged (gone x))"
      by (simp add: machine_def)
    moreover have "mirrors os u e s' (tbl(?i := None))"
      unfolding mirrors_def
    proof (intro conjI allI impI)
      have "dom tbl = {k. \<exists>name i. map_find name (gInputs s) = Some i \<and> inp_id i = k}"
        using m ids_find [OF ok] by (simp add: mirrors_def)
      then show "dom (tbl(?i := None)) = ids s'"
        using one here by (auto simp: ids_find [OF ok'] find) (metis option.inject)
    next
      fix n i
      assume n: "map_find n (gInputs s') = Some i"
      then have "inp_id i \<noteq> ?i"
        using one here by (auto simp: find split: if_splits)
      then show "\<exists>fd k. describes os u e k (device i) \<and> (tbl(?i := None)) (inp_id i) = Some (new_device fd u (device i) k)"
        using m n by (auto simp: find mirrors_def split: if_splits)
    qed
    ultimately show "\<exists>tbl' h'. machine_run os' u dm [Remove ?i] (tbl, h0) = (None, tbl', h') \<and> mirrors os u e s' tbl'"
      by blast
  qed (simp add: msg_ok_def)
  ultimately show ?thesis
    by blast
qed

section \<open>Additions\<close>

text \<open>A device that is opened and described to another output writes nothing to \<open>out\<close>.\<close>

definition silent :: "int \<Rightarrow> effect list \<Rightarrow> 'a world_scheme \<Rightarrow> bool" where
  "silent out h0 s \<longleftrightarrow> (\<exists>h. history s = h0 @ h \<and> wrote out h = [])"

lemma silent_log: "silent out h0 s \<Longrightarrow> wrote out [(c, r)] = [] \<Longrightarrow> silent out h0 (log_call c r s)"
  unfolding silent_def log_call_def by (force intro: exI [of _ "h @ [(c, r)]" for h])

lemma silent_start: "silent out (history s) s"
  by (simp add: silent_def)

lemma keeps_silent_calls [keeps_intro]:
  "keeps (silent out h0) (do_query os (Query dfd q))" "keeps (silent out h0) (do_ignore os (Stderr msg))"
  "keeps (silent out h0) (do_open os (Open path))"
  by (auto intro!: keeps_logged keeps_logged_open silent_log simp: log_open_def split: sum.split)

lemma keeps_silent_write [keeps_intro]: "fd \<noteq> out \<Longrightarrow> keeps (silent out h0) (mustWrite os fd bs)"
  unfolding mustWrite_def
proof (rule keeps_logged, rule silent_log)
  fix r :: "errno option"
  show "fd \<noteq> out \<Longrightarrow> wrote out [(Write fd bs, r)] = []"
    by (cases r) simp_all
qed

lemma keeps_silent_ctl [keeps_intro]: "keeps (silent out h0) (in_ctl os dfd q msg)"
  unfolding in_ctl_def by (intro keeps_intro)

lemma keeps_silent_new: "keeps (silent out h0) (InDevice_new os e path)"
  unfolding InDevice_new_def Let_def by (intro keeps_intro)

lemma keeps_silent_entries [keeps_intro]:
  "fd \<noteq> out \<Longrightarrow> keeps (silent out h0) (write_entries os u e dfd fd evs entry absbits)"
proof (induction evs arbitrary: entry absbits)
  case (Cons ev evs)
  then show ?case
    unfolding write_entries.simps Let_def by (intro keeps_intro; simp)
qed (simp add: keeps_intro)

lemma keeps_silent_announce:
  assumes "fd \<noteq> out"
  shows "keeps (silent out h0) (announceDevice os u e i fd)"
  unfolding announceDevice_def writeNE2AddDevice_def write_axis_def removeFD_def
  by (intro keeps_intro keeps_modify assms) (simp add: silent_def)

lemma emits_announce_one:
  assumes d: "describes os u e k (device i)" and w: "\<And>fd. writes_ok os fd"
  shows "emits out (announceDevice os u e i fd) True (if fd = out then announcement u e k i else [])"
proof (cases "fd = out")
  case False
  show ?thesis
    unfolding emits_def
  proof
    fix s :: dstate
    obtain h where h: "announceDevice os u e i fd s = (Ret True, s\<lparr>history := history s @ h\<rparr>)"
      using emits_announceDevice [OF d w] unfolding emits_def by blast
    have "silent out (history s) (s\<lparr>history := history s @ h\<rparr>)"
      by (rule keepsD [OF keeps_silent_announce [OF False] silent_start h])
    then have "wrote out h = []"
      by (simp add: silent_def)
    with h False show "\<exists>h. announceDevice os u e i fd s = (Ret True, s\<lparr>history := history s @ h\<rparr>) \<and>
        wrote out h = (if fd = out then announcement u e k i else [])"
      by auto
  qed
qed (use emits_announceDevice [OF d w] in simp)

lemma once: "distinct (map snd outs) \<Longrightarrow>
  concat (map (\<lambda>(name, fd). if fd = out then bs else []) outs) = (if out \<in> snd ` set outs then bs else [])"
  by (induction outs) force+

lemma emits_announce_all:
  assumes d: "describes os u e k (device i)" and w: "\<And>fd. writes_ok os fd"
    and outs: "distinct (map snd (gOutputs s))" "out \<in> snd ` set (gOutputs s)"
  shows "\<exists>h. announceDevice_all os u e i s = (Ret (), s\<lparr>history := history s @ h\<rparr>) \<and>
    wrote out h = announcement u e k i"
proof -
  have "emits out (case x of (name, fd) \<Rightarrow> bindP (announceDevice os u e i fd) (\<lambda>_. ret ())) ()
      (case x of (name, fd) \<Rightarrow> if fd = out then announcement u e k i else [])" for x :: "string \<times> int"
    using emits_bind [OF emits_announce_one [OF d w, of out "snd x"] emits_ret, of "\<lambda>_. ()"] by (cases x) simp
  then have "emits out (forP (\<lambda>(name, fd). bindP (announceDevice os u e i fd) (\<lambda>_. ret ())) (gOutputs s)) ()
      (concat (map (\<lambda>(name, fd). if fd = out then announcement u e k i else []) (gOutputs s)))"
    by (rule emits_for)
  then show ?thesis
    using outs unfolding once [OF outs(1)] emits_def announceDevice_all_def by (simp add: run_simps)
qed

text \<open>How \<open>addDevice\<close> returns.\<close>

lemma run_addDevice:
  assumes "addDevice os u e name path s = (Ret (), s')"
  shows "\<exists>i d t t2. map_find name (gInputs s) = None \<and>
    InDevice_new os e (cstr path) (s\<lparr>gInputIDFreeList := butlast (gInputIDFreeList s)\<rparr>) = (Ret d, t) \<and>
    announceDevice_all os u e \<lparr>inp_id = i, inp_ptr = next_ptr t, device = d\<rparr> (t\<lparr>next_ptr := Suc (next_ptr t)\<rparr>) = (Ret (), t2) \<and>
    s' = t2\<lparr>gFDAddQueue := gFDAddQueue t2 @ [in_fd d], gFDCBs := map_set (in_fd d) (CbDevice (next_ptr t) i) (gFDCBs t2),
      gInputs := map_emplace name \<lparr>inp_id = i, inp_ptr = next_ptr t, device = d\<rparr> (gInputs t2)\<rparr>"
proof -
  let ?s = "s\<lparr>gInputIDFreeList := butlast (gInputIDFreeList s)\<rparr>"
  have new: "map_find name (gInputs s) = None"
    using assms by (cases "map_find name (gInputs s)") (auto simp: addDevice_def throw_msg_def run_simps)
  have "length (gInputs s) \<le> 65535"
    using assms new by (auto simp: addDevice_def getNextInputID_def run_simps split: if_splits)
  then obtain i where i: "getNextInputID s = (Ret i, ?s)"
    by (cases "gInputIDFreeList s = []") (auto simp: getNextInputID_def run_simps)
  obtain r t where t: "InDevice_new os e (cstr path) ?s = (r, t)"
    by fastforce
  obtain d where d: "r = Ret d"
    using assms new i t by (cases r) (simp_all add: addDevice_def run_simps freeInputID_def)
  let ?inp = "\<lparr>inp_id = i, inp_ptr = next_ptr t, device = d\<rparr>"
  obtain q t2 where q: "announceDevice_all os u e ?inp (t\<lparr>next_ptr := Suc (next_ptr t)\<rparr>) = (q, t2)"
    by fastforce
  have "q = Ret ()"
    using assms new i t d q by (cases q) (simp_all add: addDevice_def run_simps freeInputID_def Let_def)
  with assms new i t d q show ?thesis
    by (intro exI [of _ i] exI [of _ d] exI [of _ t] exI [of _ t2])
      (simp add: addDevice_def run_simps Let_def addFD_def set_callbacks_def)
qed

lemma told_refused:
  assumes run: "addDevice os u e name path s = (Throw ex, s')"
  shows "told os u e out os' dm s s' \<and> gInputs s' = gInputs s \<and> gOutputs s' = gOutputs s"
proof (cases "map_find name (gInputs s) \<noteq> None \<or> length (gInputs s) > 65535")
  case True
  with run have "s' = s"
    by (cases "map_find name (gInputs s)")
      (auto simp: addDevice_def throw_msg_def getNextInputID_def run_simps split: if_splits)
  then show ?thesis
    using told_silent [of s s "[]"] by simp
next
  case False
  let ?s = "s\<lparr>gInputIDFreeList := butlast (gInputIDFreeList s)\<rparr>"
  obtain i t where t: "InDevice_new os e (cstr path) ?s = (Throw ex, t)"
    and s': "s' = t\<lparr>gInputIDFreeList := gInputIDFreeList t @ [i]\<rparr>"
    using addDevice_throws [OF run] False by (metis linorder_not_less)
  have "silent out (history s) t"
    by (rule keepsD [OF keeps_silent_new _ t]) (simp add: silent_def)
  then obtain h where "history s' = history s @ h" "wrote out h = []"
    by (auto simp: silent_def s')
  moreover have "adding ?s t"
    by (rule keepsD [OF keeps_adding_new _ t]) (simp add: adding_def)
  then have "gInputs s' = gInputs s" "gOutputs s' = gOutputs s"
    by (simp_all add: adding_def s')
  ultimately show ?thesis
    using told_silent by blast
qed

lemma told_added:
  assumes sv: "serving out s" and w: "\<And>fd. writes_ok os fd" and run: "addDevice os u e name path s = (Ret (), s')"
    and new: "map_find name (gInputs s') = Some inp" "inp_id inp \<notin> ids s" "describes os u e k (device inp)"
  shows "told os u e out os' dm s s' \<and> serving out s'"
proof -
  have ok: "map_ok (gInputs s)" and outs: "distinct (map snd (gOutputs s))" "out \<in> snd ` set (gOutputs s)"
    and one: "\<And>n m i j. map_find n (gInputs s) = Some i \<Longrightarrow> map_find m (gInputs s) = Some j \<Longrightarrow>
      inp_id i = inp_id j \<Longrightarrow> n = m"
    using sv by (simp_all add: serving_def)
  obtain i d t t2 where free: "map_find name (gInputs s) = None"
    and t: "InDevice_new os e (cstr path) (s\<lparr>gInputIDFreeList := butlast (gInputIDFreeList s)\<rparr>) = (Ret d, t)"
    and t2: "announceDevice_all os u e \<lparr>inp_id = i, inp_ptr = next_ptr t, device = d\<rparr> (t\<lparr>next_ptr := Suc (next_ptr t)\<rparr>) = (Ret (), t2)"
    and s': "s' = t2\<lparr>gFDAddQueue := gFDAddQueue t2 @ [in_fd d], gFDCBs := map_set (in_fd d) (CbDevice (next_ptr t) i) (gFDCBs t2),
      gInputs := map_emplace name \<lparr>inp_id = i, inp_ptr = next_ptr t, device = d\<rparr> (gInputs t2)\<rparr>"
    using run_addDevice [OF run] by blast
  let ?inp = "\<lparr>inp_id = i, inp_ptr = next_ptr t, device = d\<rparr>"
  have "silent out (history s) t"
    by (rule keepsD [OF keeps_silent_new _ t]) (simp add: silent_def)
  then obtain h1 where h1: "history t = history s @ h1" "wrote out h1 = []"
    by (auto simp: silent_def)
  have "adding (s\<lparr>gInputIDFreeList := butlast (gInputIDFreeList s)\<rparr>) t"
    by (rule keepsD [OF keeps_adding_new _ t]) (simp add: adding_def)
  then have same: "gInputs t = gInputs s" "gOutputs t = gOutputs s"
    by (simp_all add: adding_def)
  have "adding t t2"
    by (rule keepsD [OF keeps_adding_announce _ t2]) (simp add: adding_def)
  then have same2: "gInputs t2 = gInputs s" "gOutputs t2 = gOutputs s"
    by (simp_all add: adding_def same)
  have find: "map_find n (gInputs s') = (if n = name then Some ?inp else map_find n (gInputs s))" for n
    using free ok by (simp add: s' map_emplace_def same2 std.find_put)
  have inp: "inp = ?inp"
    using new(1) find by simp
  have ok': "map_ok (gInputs s')"
    by (simp add: s' same2 map_ok_emplace [OF ok])
  have outs': "gOutputs s' = gOutputs s"
    by (simp add: s' same2)
  have fresh: "inp_id j \<noteq> inp_id inp" if "map_find n (gInputs s) = Some j" for n j
    using new(2) that by (auto simp: ids_find [OF ok])
  obtain h2 where h2: "history t2 = history t @ h2" "wrote out h2 = announcement u e k ?inp"
    using emits_announce_all [OF new(3) [unfolded inp] w, of "t\<lparr>next_ptr := Suc (next_ptr t)\<rparr>" out] outs t2
    by (auto simp: same)
  have "serving out s'"
    using one fresh outs by (auto simp: serving_def ok' find outs' inp split: if_splits) blast+
  moreover have "told os u e out os' dm s s'"
  proof (rule toldI [where h = "h1 @ h2" and ms = "[Add (inp_id inp) (device inp) k]"])
    show "history s' = history s @ h1 @ h2"
      by (simp add: s' h1(1) h2(1))
    show "wrote out (h1 @ h2) = concat (map (msg_bytes u e) [Add (inp_id inp) (device inp) k])"
      by (simp add: h1(2) h2(2) announcement_def msg_bytes_def inp)
    show "msg_ok u x" if "x \<in> set [Add (inp_id inp) (device inp) k]" for x
      using that new(3) by (simp add: msg_ok_def describes_def)
    fix tbl h0
    assume m: "mirrors os u e s tbl"
    let ?x = "new_device (given_fd os' h0) u (device inp) k"
    have "tbl (inp_id inp) = None"
      using m new(2) by (auto simp: mirrors_def)
    then have "machine_run os' u dm [Add (inp_id inp) (device inp) k] (tbl, h0) =
        (None, tbl(inp_id inp \<mapsto> ?x), h0 @ logged (new_calls (given_fd os' h0) u (device inp) k))"
      by (simp add: machine_def)
    moreover have "mirrors os u e s' (tbl(inp_id inp \<mapsto> ?x))"
      unfolding mirrors_def
    proof (intro conjI allI impI)
      have "ids s' = insert (inp_id inp) (ids s)"
        using free by (auto simp: ids_find [OF ok] ids_find [OF ok'] find inp split: if_splits) (metis option.distinct(1))
      then show "dom (tbl(inp_id inp \<mapsto> ?x)) = ids s'"
        using m by (simp add: mirrors_def)
    next
      fix n j
      assume n: "map_find n (gInputs s') = Some j"
      then show "\<exists>fd k. describes os u e k (device j) \<and>
          (tbl(inp_id inp \<mapsto> ?x)) (inp_id j) = Some (new_device fd u (device j) k)"
        using m new(3) fresh [of n j] by (cases "n = name") (auto simp: find inp mirrors_def)
    qed
    ultimately show "\<exists>tbl' h'. machine_run os' u dm [Add (inp_id inp) (device inp) k] (tbl, h0) = (None, tbl', h') \<and>
        mirrors os u e s' tbl'"
      by blast
  qed
  ultimately show ?thesis
    by blast
qed

section \<open>Sessions\<close>

text \<open>
  What happens to the devices while an output is served: one of them reports an event, one that
  is not persistent goes, one is added under an id that is not in use, one cannot be added.
\<close>

inductive session :: "os \<Rightarrow> uapi \<Rightarrow> endian \<Rightarrow> runner \<Rightarrow> dstate \<Rightarrow> dstate \<Rightarrow> bool" for os u e run s where
  start: "session os u e run s s"
| event: "session os u e run s t \<Longrightarrow> input_at p t = Some (name, inp) \<Longrightarrow> \<not> eof (device inp) \<Longrightarrow>
    os_event os (history t) (ReadEvent (in_fd (device inp))) = Inr ke \<Longrightarrow>
    readFromDevice os e run p (inp_id inp) t = (Ret (), t') \<Longrightarrow> session os u e run s t'"
| removed: "session os u e run s t \<Longrightarrow> input_at p t = Some (name, inp) \<Longrightarrow> \<not> persistent (device inp) \<Longrightarrow>
    finishDeviceRemoval os e p t = (Ret (), t') \<Longrightarrow> session os u e run s t'"
| added: "session os u e run s t \<Longrightarrow> addDevice os u e name path t = (Ret (), t') \<Longrightarrow>
    map_find name (gInputs t') = Some inp \<Longrightarrow> inp_id inp \<notin> ids t \<Longrightarrow> describes os u e k (device inp) \<Longrightarrow>
    session os u e run s t'"
| refused: "session os u e run s t \<Longrightarrow> addDevice os u e name path t = (Throw ex, t') \<Longrightarrow> session os u e run s t'"

lemma serving_cong: "gInputs s' = gInputs s \<Longrightarrow> gOutputs s' = gOutputs s \<Longrightarrow> serving out s' = serving out s"
  by (simp add: serving_def)

lemma session_told:
  assumes w: "\<And>fd. writes_ok os fd"
  shows "session os u e run s s' \<Longrightarrow> serving out s \<Longrightarrow> told os u e out os' dm s s' \<and> serving out s'"
proof (induction rule: session.induct)
  case start
  then show ?case
    using told_silent [of s s "[]"] by simp
next
  case (event t p name inp ke t')
  then have t: "told os u e out os' dm s t" "serving out t"
    by blast+
  then have "map_ok (gInputs t)"
    by (simp add: serving_def)
  from told_event [OF this event.hyps(2-4) w event.hyps(5), of u out os' dm] t show ?case
    using told_trans serving_cong by blast
next
  case (removed t p name inp t')
  with told_removal [of out t p name inp os e t' u os' dm, OF _ _ _ w] told_trans show ?case
    by blast
next
  case (added t name path t' inp k)
  with told_added [of out t os u e name path t' inp k os' dm, OF _ w] told_trans show ?case
    by blast
next
  case (refused t name path ex t')
  with told_refused [of os u e name path t ex t' out os' dm] told_trans serving_cong show ?case
    by blast
qed

text \<open>The start of a session: an output has been added.\<close>

lemma snd_map_set: "map_find k m = None \<Longrightarrow> snd ` set (map_set k v m) = insert v (snd ` set m)"
  by (induction k v m rule: map_set.induct) (auto simp: map_find_def split: if_splits)

lemma distinct_map_set:
  "map_find k m = None \<Longrightarrow> v \<notin> snd ` set m \<Longrightarrow> distinct (map snd m) \<Longrightarrow> distinct (map snd (map_set k v m))"
proof (induction k v m rule: map_set.induct)
  case (2 k v k' v' m)
  then have "map_find k m = None"
    by (simp add: map_find_def split: if_splits)
  with 2 show ?case
    using snd_map_set [of k m v] by (auto simp: map_find_def)
qed simp

lemma serving_start:
  assumes "map_ok (gInputs s)" and "distinct (map (\<lambda>(name, i). inp_id i) (gInputs s))"
    and "map_find name (gOutputs s) = None" and "out \<notin> snd ` set (gOutputs s)" and "distinct (map snd (gOutputs s))"
  shows "serving out (s\<lparr>history := h, gOutputs := map_emplace name out (gOutputs s), gFDCBs := cbs\<rparr>)"
proof -
  have "inj_on (\<lambda>(name, i). inp_id i) (set (gInputs s))"
    using assms(2) by (simp add: distinct_map)
  then have "n = m" if "map_find n (gInputs s) = Some i" "map_find m (gInputs s) = Some j" "inp_id i = inp_id j" for n m i j
    using that std.entries_find [OF assms(1)] by (auto dest!: inj_onD [where x = "(n, i)" and y = "(m, j)"])
  with assms show ?thesis
    by (auto simp: serving_def map_emplace_def snd_map_set distinct_map_set)
qed

lemma mirrors_start:
  assumes "map_ok (gInputs s)" and "distinct (map (\<lambda>(name, i). inp_id i) (gInputs s))"
    and "\<forall>(name, i)\<in>set (gInputs s). describes os u e (ks name) (device i)"
  shows "mirrors os u e s (map_of (made os' u ks (gInputs s) h))"
  unfolding mirrors_def
proof (intro conjI allI impI)
  have "fst ` set (made os' u ks (gInputs s) h) = ids s"
    unfolding set_map [symmetric] made_ids by (simp add: ids_def)
  then show "dom (map_of (made os' u ks (gInputs s) h)) = ids s"
    by (simp add: dom_map_of_conv_image_fst)
next
  fix name i
  assume "map_find name (gInputs s) = Some i"
  then have i: "(name, i) \<in> set (gInputs s)"
    by (simp add: std.entries_find assms(1))
  obtain fd where "(inp_id i, new_device fd u (device i) (ks name)) \<in> set (made os' u ks (gInputs s) h)"
    using made_device [OF i, of u ks os' h] by blast
  moreover have "distinct (map fst (made os' u ks (gInputs s) h))"
    using assms(2) by (simp add: made_ids)
  ultimately have "map_of (made os' u ks (gInputs s) h) (inp_id i) = Some (new_device fd u (device i) (ks name))"
    by simp
  with assms(3) i show "\<exists>fd k. describes os u e k (device i) \<and>
      map_of (made os' u ks (gInputs s) h) (inp_id i) = Some (new_device fd u (device i) k)"
    by blast
qed

lemma msgs_short: "length ms \<le> length (concat (map (msg_bytes u e) ms))"
proof (induction ms)
  case (Cons m ms)
  then show ?case
    using length_msg_packet [of u e m] by (simp add: msg_bytes_split)
qed simp

text \<open>
  C7. As long as no id is given out twice, the devices of create are those of the daemon: after
  an output has been added to a daemon whose devices have different ids, and any sequence of
  steps of these four kinds, in any order: an event is read from a device and routed; a device
  that is not persistent is removed; a device is added under an id no other device has; a device
  cannot be added. A netevent create on a host of any byte order, whatever its mode for
  duplicates, whose kernel grants every request, accepts everything that has then been written
  to the output, and has a device for exactly the ids of the daemon's devices, each with the
  name, identifier, events and axes of the daemon's; and if its kernel gives no descriptor that
  is open, they all have different descriptors. This is said of sequences without a write of
  the daemon that fails, and of no others: the daemon itself also adds a device under an id in
  use when one was removed before (removed_id_reused), and does not tell an output that a
  persistent device is gone, so that create keeps it.
\<close>

theorem session_mirrored:
  assumes "\<And>fd. writes_ok os fd" and "map_ok (gInputs s)" and "distinct (map (\<lambda>(name, i). inp_id i) (gInputs s))"
    and "\<forall>(name, i)\<in>set (gInputs s). describes os u e (ks name) (device i)"
    and "map_find name (gOutputs s) = None" and "out \<notin> snd ` set (gOutputs s)" and "distinct (map snd (gOutputs s))"
    and "addOutput_Finish os u e name out False s = (Ret (), s1)" and "session os u e run s1 s'"
    and "granting os'" and "same_layout u u'"
  shows "\<exists>h. history s' = history s @ h \<and>
    (\<forall>n. \<forall>c :: cstate. rdata c = wrote out h \<longrightarrow> rend c = 0 \<longrightarrow> use_setup c \<longrightarrow> devices c = [] \<longrightarrow>
       serversock c = Socket_new \<longrightarrow> length (wrote out h) < n \<longrightarrow>
       (\<exists>c'. thenP (readHello os' e') (create_loop os' u' e' dm n) c = (Ret (Some 0), c') \<and>
         rdata c' = [] \<and> mirrors os u e s' (table_of c') \<and>
         (fresh_fds os' \<longrightarrow> apart (table_of c', history c'))))"
proof -
  obtain h1 where s1: "s1 = s\<lparr>history := history s @ h1, gOutputs := map_emplace name out (gOutputs s),
      gFDCBs := map_emplace out CbOutput (gFDCBs s)\<rparr>"
    and h1: "wrote out h1 = hello_packet e @ announcements u e ks (gInputs s)"
    using addOutput_Finish_run [OF assms(1,4), where fd = out and name = name] assms(8) by auto
  have "serving out s1"
    unfolding s1 by (rule serving_start [OF assms(2,3,5-7)])
  from session_told [OF assms(1,9) this, of os' dm] have "told os u e out os' dm s1 s'" ..
  then obtain h2 ms where h2: "history s' = history s1 @ h2" "wrote out h2 = concat (map (msg_bytes u e) ms)"
    "\<forall>x\<in>set ms. msg_ok u x" and mirror: "\<And>tbl h0. mirrors os u e s1 tbl \<Longrightarrow>
      \<exists>tbl' h'. machine_run os' u dm ms (tbl, h0) = (None, tbl', h') \<and> mirrors os u e s' tbl'"
    unfolding told_def by blast
  let ?ms = "adds ks (gInputs s) @ ms"
  have out: "wrote out (h1 @ h2) = hello_packet e @ concat (map (msg_bytes u e) ?ms)"
    by (simp add: h1 h2 announcements_msgs)
  have ok: "\<forall>m\<in>set ?ms. msg_ok u m"
    using assms(4) h2(3) by (auto simp: adds_def msg_ok_def describes_def)
  have "\<exists>c'. thenP (readHello os' e') (create_loop os' u' e' dm n) c = (Ret (Some 0), c') \<and>
      rdata c' = [] \<and> mirrors os u e s' (table_of c') \<and> (fresh_fds os' \<longrightarrow> apart (table_of c', history c'))"
    if c: "rdata c = wrote out (h1 @ h2)" "rend c = 0" "use_setup c" "devices c = []" "serversock c = Socket_new"
      "length (wrote out (h1 @ h2)) < n" for n and c :: cstate
  proof -
    let ?c = "c\<lparr>rdata := concat (map (msg_bytes u e) ?ms)\<rparr>"
    let ?t = "map_of (made os' u ks (gInputs s) (history c))"
    have n: "length ?ms < n"
      using msgs_short [of ?ms u e] c(6) unfolding out by simp
    have empty: "table_of ?c = Map.empty"
      by (simp add: table_of_def fun_eq_iff c(4))
    obtain h where "machine_run os' u dm (adds ks (gInputs s)) (Map.empty, history c) = (None, ?t, h)"
      using machine_adds [OF assms(3), of Map.empty os' u dm ks "history c"] by auto
    moreover have "mirrors os u e s1 ?t"
      using mirrors_start [OF assms(2-4), of os' "history c"] by (simp add: s1 mirrors_def ids_def)
    from mirror [OF this] obtain tbl h' where fin: "machine_run os' u dm ms (?t, h) = (None, tbl, h')"
      "mirrors os u e s' tbl"
      by blast
    ultimately have run: "machine_run os' u dm ?ms (table_of ?c, history ?c) = (None, tbl, h')"
      unfolding empty by (simp add: machine_run_append)
    have pre: "rdata ?c = concat (map (msg_bytes u e) ?ms)" "rend ?c = 0" "use_setup ?c"
      "serversock ?c = Socket_new" "map_ok (devices ?c)"
      using c by simp_all
    have "\<exists>c'. create_loop os' u' e' dm n ?c = (Ret (Some 0), c') \<and> rdata c' = [] \<and> table_of c' = tbl \<and> history c' = h'"
      using run_machine [OF assms(10,11) pre ok n run, of e'] by auto
    moreover have "readHello os' e' c = (Ret (), ?c)"
      by (rule run_readHello) (use c(1) out in simp)
    moreover have "fresh_fds os' \<longrightarrow> apart (tbl, h')"
      using machine_run_apart [OF assms(10) _ _ run] unfolding empty by (simp add: apart_def)
    ultimately show ?thesis
      using fin(2) by (auto simp: run_bind)
  qed
  then show ?thesis
    by (intro exI [of _ "h1 @ h2"]) (simp add: h2(1) s1)
qed

text \<open>
  Two devices and an output; the first reports an event, the second is removed, and a third
  gets its id.
\<close>

definition session_os :: os where
  "session_os = (cat_os Little)\<lparr>os_event := (\<lambda>_ _. Inr sample_event)\<rparr>"

definition session_state :: dstate where
  "session_state = two_pads\<lparr>gCurrentOutput_fd := 9, gWrite := True\<rparr>"

lemma session_os_ok:
  "writes_ok session_os fd" "steady session_os Little 4 linux_uapi sample_entries sample_axis"
  using sample_ok(2) [of Little]
  by (simp_all add: writes_ok_def steady_def session_os_def cat_os_def sample_os_def quiet_os_def)

lemma session_describes:
  "describes session_os linux_uapi Little \<lparr>cap_name = ''pad'', cap_entries = sample_entries, cap_axis = sample_axis\<rparr> sample_device"
  using session_os_ok(2) by (simp add: describes_def sample_announceable, simp add: sample_device_def)

lemma session_opens:
  "\<exists>h. InDevice_new session_os Little ''/dev/input/event4'' s = (Ret sample_device, s\<lparr>history := history s @ h\<rparr>)"
  by (subst sample_opens) (auto simp: session_os_def cat_os_def sample_os_def)

lemma finish_returns:
  assumes "input_at p s = Some (name, inp)" and "\<not> persistent (device inp)" and w: "\<And>fd. writes_ok os fd"
  shows "\<exists>s'. finishDeviceRemoval os e p s = (Ret (), s') \<and> gInputIDFreeList s' = gInputIDFreeList s"
  using assms(1,2)
  by (auto simp: finishDeviceRemoval_def announceDeviceRemoval_def cleanupDeviceHotkeys_def InDevice_delete_def
      run_simps run_announce_removal [OF w] log_call_def split: if_splits)

lemma session_adds:
  assumes "gInputs s = [(''a'', i)]" and "gOutputs s = [(''pc'', 9)]" and "gInputIDFreeList s = []"
  shows "\<exists>s' p. addDevice session_os linux_uapi Little ''c'' ''/dev/input/event4'' s = (Ret (), s') \<and>
    gInputs s' = [(''a'', i), (''c'', \<lparr>inp_id = 1, inp_ptr = p, device = sample_device\<rparr>)]"
proof -
  obtain h where new: "InDevice_new session_os Little ''/dev/input/event4'' s = (Ret sample_device, s\<lparr>history := history s @ h\<rparr>)"
    using session_opens by blast
  let ?d = "\<lparr>inp_id = 1, inp_ptr = next_ptr s, device = sample_device\<rparr>"
  let ?s = "s\<lparr>history := history s @ h, next_ptr := Suc (next_ptr s)\<rparr>"
  obtain h2 where ann: "announceDevice_all session_os linux_uapi Little ?d ?s = (Ret (), ?s\<lparr>history := history ?s @ h2\<rparr>)"
    using emits_announce_all [of session_os linux_uapi Little _ ?d ?s 9, OF _ session_os_ok(1)] session_describes
    by (force simp: assms(2))
  have path: "cstr ''/dev/input/event4'' = ''/dev/input/event4''" by (simp add: cstr_def)
  show ?thesis
    by (auto simp: addDevice_def run_simps assms map_find_def getNextInputID_def path new Let_def ann addFD_def
        set_callbacks_def map_emplace_def)
qed

text \<open>The three steps.\<close>

lemma session_runs:
  assumes s: "gInputs s = gInputs session_state" "gOutputs s = [(''pc'', 9)]" "gInputIDFreeList s = []"
  shows "\<exists>s'. session session_os linux_uapi Little run s s' \<and> ids s' = {0, 1} \<and> map_find ''b'' (gInputs s') = None"
proof -
  let ?in = "\<lambda>i. \<lparr>inp_id = i, inp_ptr = unat i, device = sample_device\<rparr>"
  have ins: "gInputs s = [(''a'', ?in 0), (''b'', ?in 1)]"
    by (simp add: s(1) session_state_def two_pads_def)
  have ok: "map_ok (gInputs s)"
    by (simp add: ins map_ok_def)
  have dev: "\<not> eof sample_device" "\<not> persistent sample_device"
    by (simp_all add: sample_device_def)
  have at: "input_at 0 s = Some (''a'', ?in 0)"
    by (simp add: input_at_def ins)
  have ev: "os_event session_os h c = Inr sample_event" for h c
    by (simp add: session_os_def)
  let ?s2 = "routed session_os (route (router_of s) Little 0 (event_read sample_event))
    (log_call (ReadEvent (in_fd sample_device)) None s)"
  have read: "readFromDevice session_os Little run 0 0 s = (Ret (), ?s2)"
    using run_readFromDevice [OF at ok _ ev session_os_ok(1), of Little run 0] dev by simp
  have same: "gInputs ?s2 = gInputs s" "gOutputs ?s2 = gOutputs s" "gInputIDFreeList ?s2 = gInputIDFreeList s"
    by (simp_all add: routed_def log_call_def split: routing.split)
  have at2: "input_at 1 ?s2 = Some (''b'', ?in 1)"
    by (simp add: input_at_def same ins)
  obtain s3 where fin: "finishDeviceRemoval session_os Little 1 ?s2 = (Ret (), s3)" "gInputIDFreeList s3 = []"
    using finish_returns [OF at2 _ session_os_ok(1)] dev same s(3) by auto
  have s3: "gInputs s3 = [(''a'', ?in 0)]" "gOutputs s3 = [(''pc'', 9)]"
    using run_finish(1,2) [OF at2 _ session_os_ok(1) fin(1)] dev same s(2) by (simp_all add: ins map_erase_def)
  obtain s4 p where add: "addDevice session_os linux_uapi Little ''c'' ''/dev/input/event4'' s3 = (Ret (), s4)"
    and s4: "gInputs s4 = [(''a'', ?in 0), (''c'', \<lparr>inp_id = 1, inp_ptr = p, device = sample_device\<rparr>)]"
    using session_adds [OF s3 fin(2)] by blast
  have "session session_os linux_uapi Little run s ?s2"
    by (rule session.event [OF session.start at]) (use dev ev read in simp_all)
  then have "session session_os linux_uapi Little run s s3"
    by (rule session.removed [OF _ at2 _ fin(1)]) (use dev in simp)
  then have "session session_os linux_uapi Little run s s4"
    by (rule session.added [OF _ add, where inp = "\<lparr>inp_id = 1, inp_ptr = p, device = sample_device\<rparr>"])
      (use session_describes in \<open>auto simp: s4 map_find_def ids_def s3\<close>)
  then show ?thesis
    by (rule exI [of _ s4, OF conjI]) (auto simp: ids_def s4 map_find_def)
qed

theorem session_mirrored_witness:
  "\<exists>s1 s' h c'. addOutput_Finish session_os linux_uapi Little ''pc'' 9 False session_state = (Ret (), s1) \<and>
    session session_os linux_uapi Little (\<lambda>_ _ _. undef) s1 s' \<and> history s' = h \<and>
    thenP (readHello (counting_os [] [] []) Big)
      (create_loop (counting_os [] [] []) linux_uapi Big Reject (Suc (length (wrote 9 h))))
      ((sample_cstate [])\<lparr>rdata := wrote 9 h\<rparr>) = (Ret (Some 0), c') \<and> dom (table_of c') = {0, 1} \<and>
    out_fd (the (table_of c' 0)) \<noteq> out_fd (the (table_of c' 1))"
proof -
  let ?k = "\<lparr>cap_name = ''pad'', cap_entries = sample_entries, cap_axis = sample_axis\<rparr>"
  let ?s = session_state
  let ?os = "counting_os [] [] []"
  have f: "map_ok (gInputs ?s)" "distinct (map (\<lambda>(name, i). inp_id i) (gInputs ?s))"
    "\<forall>(name, i)\<in>set (gInputs ?s). describes session_os linux_uapi Little ?k (device i)"
    "map_find ''pc'' (gOutputs ?s) = None" "9 \<notin> snd ` set (gOutputs ?s)" "distinct (map snd (gOutputs ?s))"
    "history ?s = []"
    using session_describes by (simp_all add: session_state_def two_pads_def daemon_init_def map_ok_def)
  have a: "granting ?os" by (simp add: granting_def counting_os_def quiet_os_def)
  have l: "same_layout linux_uapi linux_uapi" by (simp add: same_layout_def)
  obtain h1 where add: "addOutput_Finish session_os linux_uapi Little ''pc'' 9 False ?s =
      (Ret (), ?s\<lparr>history := h1, gOutputs := [(''pc'', 9)], gFDCBs := map_emplace 9 CbOutput (gFDCBs ?s)\<rparr>)"
    using addOutput_Finish_run [OF session_os_ok(1) f(3), where fd = 9 and name = "''pc''"]
    by (auto simp: session_state_def two_pads_def daemon_init_def map_emplace_def)
  let ?s1 = "?s\<lparr>history := h1, gOutputs := [(''pc'', 9)], gFDCBs := map_emplace 9 CbOutput (gFDCBs ?s)\<rparr>"
  obtain s' where run: "session session_os linux_uapi Little (\<lambda>_ _ _. undef) ?s1 s'" "ids s' = {0, 1}"
    using session_runs [of ?s1] by (auto simp: session_state_def two_pads_def daemon_init_def)
  obtain h where h: "history s' = h" and create: "\<forall>n. \<forall>c :: cstate. rdata c = wrote 9 h \<longrightarrow> rend c = 0 \<longrightarrow>
      use_setup c \<longrightarrow> devices c = [] \<longrightarrow> serversock c = Socket_new \<longrightarrow> length (wrote 9 h) < n \<longrightarrow>
      (\<exists>c'. thenP (readHello ?os Big) (create_loop ?os linux_uapi Big Reject n) c = (Ret (Some 0), c') \<and>
        rdata c' = [] \<and> mirrors session_os linux_uapi Little s' (table_of c') \<and>
        (fresh_fds ?os \<longrightarrow> apart (table_of c', history c')))"
    using session_mirrored [OF session_os_ok(1) f(1-6) add run(1) a l, of Big Reject] by (auto simp: f(7))
  obtain c' where c': "thenP (readHello ?os Big) (create_loop ?os linux_uapi Big Reject (Suc (length (wrote 9 h))))
      ((sample_cstate [])\<lparr>rdata := wrote 9 h\<rparr>) = (Ret (Some 0), c')"
    "mirrors session_os linux_uapi Little s' (table_of c')" "apart (table_of c', history c')"
    using create [rule_format, of "(sample_cstate [])\<lparr>rdata := wrote 9 h\<rparr>" "Suc (length (wrote 9 h))"] fresh_counting_os
    by (auto simp: sample_cstate_def)
  have dom: "dom (table_of c') = {0, 1}"
    using c'(2) run(2) by (simp add: mirrors_def)
  then obtain x y where xy: "table_of c' 0 = Some x" "table_of c' 1 = Some y"
    by (metis domD insertI1 insertI2)
  have "out_fd x = out_fd y \<Longrightarrow> (0 :: 16 word) = 1"
    using c'(3) xy unfolding apart_def prod.case by blast
  then have "out_fd (the (table_of c' 0)) \<noteq> out_fd (the (table_of c' 1))"
    by (auto simp: xy)
  with add run h c'(1) dom show ?thesis
    by blast
qed

end
