(* ===== verification/Client.thy ===== *)
theory Client
  imports Commands DaemonProps Cmdline DaemonLoop
begin

text \<open>
  A command on its way: \<open>netevent command\<close> writes it to the socket, the daemon reads it line
  by line from a buffered file (\<open>readCommand\<close>), queues it, and splits it into commands.

  The buffered file is the one of the C library: \<open>getline\<close> takes the bytes up to the end of
  the next line from the buffer, and reads from the kernel as long as the buffer has no end of
  a line; a read gives the next piece of the stream, whatever its length.
\<close>

section \<open>Buffered files\<close>

definition nl :: byte where "nl = 10"

fun file_line :: "byte list \<Rightarrow> byte list list \<Rightarrow> byte list \<times> byte list \<times> byte list list" where
  "file_line buf [] =
     (if nl \<in> set buf then (takeWhile (\<lambda>b. b \<noteq> nl) buf @ [nl], tl (dropWhile (\<lambda>b. b \<noteq> nl) buf), [])
      else (buf, [], []))"
| "file_line buf (p # ps) =
     (if nl \<in> set buf then (takeWhile (\<lambda>b. b \<noteq> nl) buf @ [nl], tl (dropWhile (\<lambda>b. b \<noteq> nl) buf), p # ps)
      else file_line (buf @ p) ps)"

text \<open>The file after some lines have been taken.\<close>

fun file_after :: "nat \<Rightarrow> byte list \<Rightarrow> byte list list \<Rightarrow> byte list \<times> byte list list" where
  "file_after 0 buf ps = (buf, ps)"
| "file_after (Suc n) buf ps = (case file_line buf ps of (line, buf', ps') \<Rightarrow> file_after n buf' ps')"

text \<open>The lines of a text, each with its end.\<close>

fun lines_of :: "byte list \<Rightarrow> byte list list" where
  "lines_of [] = []"
| "lines_of (b # bs) = (if b = nl then [b] # lines_of bs
     else case lines_of bs of [] \<Rightarrow> [[b]] | l # ls \<Rightarrow> (b # l) # ls)"

lemma lines_of_line: "nl \<notin> set a \<Longrightarrow> lines_of (a @ nl # bs) = (a @ [nl]) # lines_of bs"
  by (induction a) (auto split: list.split)

lemma lines_of_end: "nl \<notin> set a \<Longrightarrow> a \<noteq> [] \<Longrightarrow> lines_of a = [a]"
proof (induction a)
  case (Cons b a)
  then show ?case by (cases "a = []") auto
qed simp

lemma lines_of_Nil_iff [simp]: "lines_of bs = [] \<longleftrightarrow> bs = []"
  by (cases bs) (auto split: list.split)

lemma lines_of_nonempty: "l \<in> set (lines_of bs) \<Longrightarrow> l \<noteq> []"
  by (induction bs arbitrary: l) (auto split: list.splits if_splits)

lemma concat_lines_of: "concat (lines_of bs) = bs"
proof (induction bs)
  case (Cons b bs)
  then show ?case by (cases "lines_of bs") auto
qed simp

lemma first_line:
  assumes "nl \<in> set buf"
  shows "lines_of (buf @ r) =
    (takeWhile (\<lambda>b. b \<noteq> nl) buf @ [nl]) # lines_of (tl (dropWhile (\<lambda>b. b \<noteq> nl) buf) @ r)"
proof -
  let ?a = "takeWhile (\<lambda>b. b \<noteq> nl) buf" and ?d = "dropWhile (\<lambda>b. b \<noteq> nl) buf"
  have ne: "?d \<noteq> []" using assms by (simp add: dropWhile_eq_Nil_conv)
  then have "hd ?d = nl" using hd_dropWhile [of "\<lambda>b. b \<noteq> nl" buf] by blast
  with ne have "buf = ?a @ nl # tl ?d"
    by (metis list.collapse takeWhile_dropWhile_id)
  then have "lines_of (buf @ r) = lines_of (?a @ nl # tl ?d @ r)"
    by (metis append.assoc append_Cons)
  moreover have "nl \<notin> set ?a" by (auto dest: set_takeWhileD)
  ultimately show ?thesis by (simp add: lines_of_line)
qed

lemma file_line_lines:
  "file_line buf ps = (l, buf', ps') \<Longrightarrow>
   (if buf @ concat ps = [] then l = [] \<and> buf' @ concat ps' = []
    else lines_of (buf @ concat ps) = l # lines_of (buf' @ concat ps'))"
proof (induction buf ps rule: file_line.induct)
  case (1 buf)
  then show ?case
    using first_line [of buf "[]"] lines_of_end [of buf] by (auto split: if_splits)
next
  case (2 buf p ps)
  show ?case
  proof (cases "nl \<in> set buf")
    case True
    with 2(2) have "lines_of (buf @ p @ concat ps) = l # lines_of (buf' @ concat ps')"
      using first_line [OF True, of "p @ concat ps"] by auto
    with True show ?thesis by auto
  next
    case False
    with 2(2) have "file_line (buf @ p) ps = (l, buf', ps')" by simp
    from 2(1) [OF False this] show ?thesis
      unfolding concat.simps append_assoc .
  qed
qed

lemma file_after_lines:
  "file_after n buf ps = (buf', ps') \<Longrightarrow> lines_of (buf' @ concat ps') = drop n (lines_of (buf @ concat ps))"
proof (induction n arbitrary: buf ps)
  case (Suc n)
  obtain l b p where f: "file_line buf ps = (l, b, p)" by (cases "file_line buf ps")
  with Suc.prems have "file_after n b p = (buf', ps')" by simp
  then have "lines_of (buf' @ concat ps') = drop n (lines_of (b @ concat p))" by (rule Suc.IH)
  moreover have "lines_of (b @ concat p) = drop 1 (lines_of (buf @ concat ps))"
    using file_line_lines [OF f]
    by (cases "buf @ concat ps = []") (simp_all del: concat_eq_Nil_conv append_is_Nil_conv)
  ultimately show ?case by simp
qed simp

text \<open>
  The kernel has nothing left to read, but the buffer has a line: a loop that takes one line
  whenever \<open>poll\<close> reports the descriptor gets to it only when more arrives.
\<close>

theorem second_line_waits:
  "nl \<notin> set a \<Longrightarrow> file_line [] [a @ nl # b] = (a @ [nl], b, [])"
proof -
  assume a: "nl \<notin> set a"
  have "takeWhile (\<lambda>x. x \<noteq> nl) (a @ nl # b) = a" "dropWhile (\<lambda>x. x \<noteq> nl) (a @ nl # b) = nl # b"
    using a by (induction a) auto
  then show "file_line [] [a @ nl # b] = (a @ [nl], b, [])"
    by simp
qed

section \<open>A client of the daemon\<close>

text \<open>
  A client that sends the pieces \<open>ps\<close> and then nothing more: the answer to \<open>getline\<close> depends
  on how often it was called, and the end of the file leaves \<open>errno\<close> at 0.
\<close>

definition gets :: "int \<Rightarrow> effect list \<Rightarrow> nat" where
  "gets fd h = length (filter (\<lambda>x. fst x = GetLine fd) h)"

definition sends :: "os \<Rightarrow> int \<Rightarrow> byte list list \<Rightarrow> bool" where
  "sends os fd ps \<longleftrightarrow> (\<forall>h. os_line os h (GetLine fd) =
     (case file_after (gets fd h) [] ps of (buf, ps') \<Rightarrow>
        case file_line buf ps' of (l, _) \<Rightarrow> if l = [] then Inl 0 else Inr (bytes_str l)))"

lemma sends_lines:
  assumes "sends os fd ps"
  shows "os_line os h (GetLine fd) =
    (if gets fd h < length (lines_of (concat ps)) then Inr (bytes_str (lines_of (concat ps) ! gets fd h)) else Inl 0)"
proof -
  let ?L = "lines_of (concat ps)"
  obtain buf ps' where a: "file_after (gets fd h) [] ps = (buf, ps')" by (cases "file_after (gets fd h) [] ps")
  obtain l b p where f: "file_line buf ps' = (l, b, p)" by (cases "file_line buf ps'")
  have d: "lines_of (buf @ concat ps') = drop (gets fd h) ?L"
    using file_after_lines [OF a] by simp
  have os: "os_line os h (GetLine fd) = (if l = [] then Inl 0 else Inr (bytes_str l))"
    using assms by (simp add: sends_def a f)
  show ?thesis
  proof (cases "gets fd h < length ?L")
    case True
    then have "lines_of (buf @ concat ps') \<noteq> []" unfolding d by simp
    then have "buf @ concat ps' \<noteq> []" by simp
    then have dl: "drop (gets fd h) ?L = l # lines_of (b @ concat p)"
      using file_line_lines [OF f] d by (simp split: if_splits)
    then have "l = ?L ! gets fd h"
      using Cons_nth_drop_Suc [OF True] by simp
    moreover have "l \<noteq> []"
      using dl lines_of_nonempty [of l "concat ps"] by (metis in_set_dropD list.set_intros(1))
    ultimately show ?thesis using True os by simp
  next
    case False
    then have "buf @ concat ps' = []" using d by simp
    then have "l = []" using file_line_lines [OF f] by simp
    with False os show ?thesis by simp
  qed
qed

definition queued :: "int \<Rightarrow> byte list list \<Rightarrow> (int \<times> string) list" where
  "queued fd ls = map (\<lambda>l. (fd, cstr (bytes_str l))) ls"

lemma gets_append [simp]: "gets fd (h @ h') = gets fd h + gets fd h'"
  by (simp add: gets_def)

lemma run_lines:
  assumes "sends os fd ps"
  shows "gets fd (history s) + n \<le> length (lines_of (concat ps)) \<Longrightarrow>
    forP (\<lambda>_. readCommand os fd) [0..<n] s = (Ret (), s\<lparr>history := history s @ replicate n (GetLine fd, None),
      gCommandQueue := gCommandQueue s @ queued fd (take n (drop (gets fd (history s)) (lines_of (concat ps))))\<rparr>)"
proof (induction n)
  case 0
  then show ?case by (simp add: run_simps queued_def)
next
  case (Suc n)
  let ?L = "lines_of (concat ps)" and ?k = "gets fd (history s)"
  let ?s = "s\<lparr>history := history s @ replicate n (GetLine fd, None),
      gCommandQueue := gCommandQueue s @ queued fd (take n (drop ?k ?L))\<rparr>"
  have k: "?k + n < length ?L" using Suc.prems by simp
  let ?h = "history s @ replicate n (GetLine fd, None)"
  have g: "gets fd ?h = ?k + n" by (simp add: gets_def)
  have line: "os_line os ?h (GetLine fd) = Inr (bytes_str (?L ! (?k + n)))"
    using sends_lines [OF assms, of ?h] k unfolding g by simp
  have "?L ! (?k + n) \<in> set ?L" using k by simp
  then have "bytes_str (?L ! (?k + n)) \<noteq> []"
    using lines_of_nonempty by (auto simp: bytes_str_def)
  then have "readCommand os fd ?s = (Ret (), ?s\<lparr>history := history ?s @ [(GetLine fd, None)],
      gCommandQueue := gCommandQueue ?s @ [(fd, cstr (bytes_str (?L ! (?k + n))))]\<rparr>)"
    by (simp add: readCommand_def run_simps line err_of_def queueCommand_def log_call_def)
  moreover have "queued fd (take (Suc n) (drop ?k ?L)) = queued fd (take n (drop ?k ?L)) @ [(fd, cstr (bytes_str (?L ! (?k + n))))]"
    using k by (simp add: take_Suc_conv_app_nth queued_def)
  ultimately show ?case
    using Suc by (simp add: forP_append run_simps replicate_append_same)
qed

text \<open>All the lines of a client, and the end of its stream.\<close>

lemma run_client:
  assumes sends: "sends os fd ps" and s: "gets fd (history s) = 0" "0 \<le> fd" "fd \<notin> set (gFDRemoveQueue s)"
  shows "forP (\<lambda>_. readCommand os fd) [0..<Suc (length (lines_of (concat ps)))] s =
    (Ret (), s\<lparr>history := history s @ replicate (length (lines_of (concat ps))) (GetLine fd, None) @ [(GetLine fd, Some 0)],
       gCommandQueue := gCommandQueue s @ queued fd (lines_of (concat ps)),
       gFDRemoveQueue := gFDRemoveQueue s @ [fd]\<rparr>)"
proof -
  let ?L = "lines_of (concat ps)"
  let ?h = "history s @ replicate (length ?L) (GetLine fd, None)"
  let ?s = "s\<lparr>history := ?h, gCommandQueue := gCommandQueue s @ queued fd ?L\<rparr>"
  have "forP (\<lambda>_. readCommand os fd) [0..<length ?L] s = (Ret (), ?s)"
    using run_lines [OF sends, of s "length ?L"] s(1) by simp
  moreover have "os_line os ?h (GetLine fd) = Inl 0"
    using sends_lines [OF sends, of ?h] s(1) by (simp add: gets_def)
  then have "readCommand os fd ?s = (Ret (), ?s\<lparr>history := ?h @ [(GetLine fd, Some 0)], gFDRemoveQueue := gFDRemoveQueue s @ [fd]\<rparr>)"
    using s(2,3) by (simp add: readCommand_def run_simps err_of_def disconnectClient_def removeFD_def log_call_def)
  ultimately show ?thesis
    by (simp add: forP_append run_simps)
qed

text \<open>Once there are no more lines, every call sees the end and asks for the removal, once.\<close>

lemma run_ended:
  assumes sends: "sends os fd ps" and fd: "0 \<le> fd"
  shows "length (lines_of (concat ps)) \<le> gets fd (history s) \<Longrightarrow>
    forP (\<lambda>_. readCommand os fd) [0..<n] s = (Ret (), s\<lparr>history := history s @ replicate n (GetLine fd, Some 0),
      gFDRemoveQueue := (if n = 0 \<or> fd \<in> set (gFDRemoveQueue s) then gFDRemoveQueue s
        else gFDRemoveQueue s @ [fd])\<rparr>)"
proof (induction n)
  case 0
  then show ?case by (simp add: run_simps)
next
  case (Suc n)
  let ?h = "history s @ replicate n (GetLine fd, Some 0)"
  have line: "os_line os ?h (GetLine fd) = Inl 0"
    using sends_lines [OF sends, of ?h] Suc.prems by (simp add: gets_def)
  show ?case
    using Suc line fd
    by (cases "n = 0"; cases "fd \<in> set (gFDRemoveQueue s)"; simp add: forP_append run_simps readCommand_def
        err_of_def disconnectClient_def removeFD_def log_call_def replicate_append_same)
qed

lemma forP_twice: "forP (\<lambda>_. m) [0..<a + b] = thenP (forP (\<lambda>_. m) [0..<a]) (forP (\<lambda>_. m) [0..<b])"
  by (induction b) (simp_all add: forP_append fun_eq_iff run_simps split: prod.split outcome.split)

text \<open>
  C14. The commands of a client are the lines of what it sends, however the kernel splits that
  into reads: each call of readCommand queues the next line, with the client's descriptor and
  up to its first NUL, and every call after the last line finds the end of the stream and asks
  for the client's removal, once; so n more calls, at any time, queue the next n lines, or as
  many as there are, and change no other state of the daemon. How often readCommand is called is
  the business of the loop, which calls it once each time poll reports the descriptor: lines
  already in the buffer then wait for the next report (second_line_waits).
\<close>

theorem readCommand_lines:
  assumes "sends os fd ps" and "0 \<le> fd" and "fd \<notin> set (gFDRemoveQueue s)"
    and "ls = drop (gets fd (history s)) (lines_of (concat ps))"
  shows "forP (\<lambda>_. readCommand os fd) [0..<n] s =
    (Ret (), s\<lparr>history := history s @ replicate (min n (length ls)) (GetLine fd, None) @
         replicate (n - length ls) (GetLine fd, Some 0),
       gCommandQueue := gCommandQueue s @ queued fd (take n ls),
       gFDRemoveQueue := gFDRemoveQueue s @ (if length ls < n then [fd] else [])\<rparr>)"
proof -
  let ?L = "lines_of (concat ps)" and ?k = "gets fd (history s)"
  let ?a = "min n (length ls)" and ?b = "n - length ls"
  let ?t = "s\<lparr>history := history s @ replicate ?a (GetLine fd, None),
      gCommandQueue := gCommandQueue s @ queued fd (take n ls)\<rparr>"
  have n: "n = ?a + ?b" by simp
  have "forP (\<lambda>_. readCommand os fd) [0..<?a] s = (Ret (), ?t)"
  proof (cases "ls = []")
    case True
    then show ?thesis by (cases s) (simp add: run_simps queued_def)
  next
    case False
    then have "?k + ?a \<le> length ?L" using assms(4) by simp
    from run_lines [OF assms(1) this] show ?thesis
      unfolding assms(4) [symmetric] by (simp add: min_def)
  qed
  moreover have "forP (\<lambda>_. readCommand os fd) [0..<?b] ?t = (Ret (), ?t\<lparr>history := history ?t @
      replicate ?b (GetLine fd, Some 0),
      gFDRemoveQueue := gFDRemoveQueue s @ (if length ls < n then [fd] else [])\<rparr>)"
  proof (cases "length ls < n")
    case True
    then have "length ?L \<le> gets fd (history ?t)" using assms(4) by (simp add: gets_def)
    from run_ended [OF assms(1,2) this, of ?b] True assms(3) show ?thesis by simp
  next
    case False
    then show ?thesis by (simp add: run_simps)
  qed
  ultimately show ?thesis
    by (subst n, subst forP_twice) (simp add: run_simps)
qed

definition talking_os :: "byte list list \<Rightarrow> os" where
  "talking_os ps = quiet_os\<lparr>os_line := (\<lambda>h c. case c of
     GetLine fd \<Rightarrow> (case file_after (gets fd h) [] ps of (buf, ps') \<Rightarrow>
        case file_line buf ps' of (l, _) \<Rightarrow> if l = [] then Inl 0 else Inr (bytes_str l))
   | _ \<Rightarrow> Inl 0)\<rparr>"

lemma talking_sends: "sends (talking_os ps) fd ps"
  by (simp add: sends_def talking_os_def)

theorem readCommand_lines_witness:
  "let r = forP (\<lambda>_. readCommand (talking_os [str_bytes ''no'', str_bytes ''p'' @ [nl] @ str_bytes ''qu'', str_bytes ''it'']) 5)
    in gCommandQueue (snd (r [0..<1] daemon_init)) = [(5, ''nop'' @ [NL])] \<and>
       gFDRemoveQueue (snd (r [0..<1] daemon_init)) = [] \<and>
       gCommandQueue (snd (r [0..<4] daemon_init)) = [(5, ''nop'' @ [NL]), (5, ''quit'')] \<and>
       gFDRemoveQueue (snd (r [0..<4] daemon_init)) = [5]"
proof -
  let ?ps = "[str_bytes ''no'', str_bytes ''p'' @ [nl] @ str_bytes ''qu'', str_bytes ''it'']"
  let ?ls = "[str_bytes ''nop'' @ [nl], str_bytes ''quit'']"
  have s: "gets 5 (history daemon_init) = 0" "5 \<notin> set (gFDRemoveQueue daemon_init)"
    "gCommandQueue daemon_init = []" "gFDRemoveQueue daemon_init = []"
    by (simp_all add: gets_def daemon_init_def)
  have lines: "?ls = drop (gets 5 (history daemon_init)) (lines_of (concat ?ps))"
    unfolding s(1) by code_simp
  have q: "queued 5 (take 1 ?ls) = [(5, ''nop'' @ [NL])]" "queued 5 (take 4 ?ls) = [(5, ''nop'' @ [NL]), (5, ''quit'')]"
    by code_simp+
  note run = readCommand_lines [OF talking_sends _ s(2) lines, simplified]
  show ?thesis
    unfolding Let_def using run [of 1] run [of 4] q s(3,4) by simp
qed

section \<open>The command\<close>

lemma run_print_response:
  assumes "\<forall>h c. os_call os h c = None" and "fd \<noteq> 1"
  shows "\<exists>r h. print_response os rs w = (Ret r, w\<lparr>history := history w @ h\<rparr>) \<and> wrote fd h = []"
proof (induction rs arbitrary: w)
  case Nil
  show ?case
    by (rule exI, rule exI [of _ "[]"]) (simp add: run_simps)
next
  case (Cons x rs)
  show ?case
  proof (cases x)
    case (RErr err)
    then show ?thesis
      using assms(1) by (auto simp: run_simps log_call_def)
  next
    case (RData bs)
    let ?w = "w\<lparr>history := history w @ [(Write 1 bs, None)]\<rparr>"
    obtain r h where "print_response os rs ?w = (Ret r, ?w\<lparr>history := history ?w @ h\<rparr>)" "wrote fd h = []"
      using Cons.IH by blast
    then show ?thesis
      using RData assms
      by (cases "bs = []", force simp: run_simps intro: exI [of _ "[]"])
        (auto simp: run_simps mustWrite_def log_call_def intro!: exI [of _ "(Write 1 bs, None) # h"])
  qed
qed

text \<open>A run of \<open>netevent command\<close> on a kernel that grants every call.\<close>

lemma run_cmd_command:
  assumes ok: "\<forall>h c. os_call os h c = None" and sock: "os_open os (history w) NewSocket = Inr fd" "fd \<noteq> - 1" "fd \<noteq> 1"
    and name: "cstr sock \<noteq> []" "length sock < sun_path_size" and cmd: "join CHR '' '' words \<noteq> []"
  shows "\<exists>r h. cmd_command os junk (''command'' # sock # words) rs w = (Ret r, w\<lparr>history := history w @ h\<rparr>) \<and>
    wrote fd h = str_bytes (join CHR '' '' words)"
proof -
  have words: "words \<noteq> []"
    using cmd by auto
  define abstract where "abstract \<longleftrightarrow> deref sock = CHR ''@''"
  define path where "path = (if abstract then tl sock else sock)"
  have ne: "sock \<noteq> []"
    using name(1) by (auto simp: cstr_def)
  have conn: "connect_to os junk sock = connectUnix os junk abstract path"
    by (simp add: connect_to_def abstract_def path_def)
  have "\<not> sun_path_size < length path + (if abstract then 2 else 1)"
    using name(2) ne by (cases sock) (auto simp: path_def)
  then obtain addr where addr: "sun_address junk abstract path = Some addr"
    using sun_address_None [of junk abstract path] by (cases "sun_address junk abstract path") auto
  have short: "\<not> length path \<ge> sun_path_size"
    using name(2) by (simp add: path_def) linarith
  let ?h1 = "[(NewSocket, None), (GotFd fd, None), (Connect fd addr, None), (Write fd (str_bytes (join CHR '' '' words)), None),
     (Shutdown fd False, None)]"
  obtain r h where print: "print_response os rs (w\<lparr>history := history w @ ?h1\<rparr>) =
      (Ret r, w\<lparr>history := history w @ ?h1 @ h\<rparr>)" "wrote fd h = []"
    using run_print_response [OF ok sock(3), of rs "w\<lparr>history := history w @ ?h1\<rparr>"] by auto
  have "cmd_command os junk (''command'' # sock # words) rs w = (Ret r, w\<lparr>history := history w @ ?h1 @ h @ [(Close fd, None)]\<rparr>)"
    using words cmd ok sock(2) short
    by (simp add: cmd_command_def name Let_def run_simps conn connectUnix_def
        run_openUnixStream [where fd = fd] sock(1) addr Socket_new_def mustWrite_def Socket_shutdown_def print
        Socket_close_def log_call_def)
  then show ?thesis
    using print(2) by (intro exI [of _ r] exI [of _ "?h1 @ h @ [(Close fd, None)]"]) simp
qed

section \<open>In the daemon\<close>

text \<open>Words that need no quoting are read back as they are.\<close>

definition literal :: "char \<Rightarrow> bool" where
  "literal c \<longleftrightarrow> c \<noteq> NUL \<and> \<not> isWhite c \<and> \<not> special c \<and> \<not> isQuote c"

definition plain_word :: "string \<Rightarrow> bool" where
  "plain_word w \<longleftrightarrow> w \<noteq> [] \<and> (\<forall>c\<in>set w. literal c)"

lemma bare_body_plain: "\<forall>c\<in>set w. literal c \<Longrightarrow> bare_body w = w"
  by (induction w) (auto simp: literal_def)

lemma split_plain_word:
  assumes w: "plain_word w" and r: "r = [] \<or> isWhite (hd r)"
  shows "split_loop False args (w @ r) = split_loop False (args @ [w]) r"
proof -
  obtain c v where cv: "w = c # v" using w by (cases w) (auto simp: plain_word_def)
  with w have c: "literal c" and v: "\<forall>c\<in>set v. literal c" by (auto simp: plain_word_def)
  have "word_loop False (v @ r) = (v, r)"
    using word_loop_bare_body [of v r] r v unfolding bare_body_plain [OF v] literal_def by blast
  with c have "parseWord (w @ r) = (w, r)"
    by (auto simp: parseWord_def cv literal_def special_def)
  moreover have "skipWhite (w @ r) = w @ r"
    using c by (simp add: skipWhite_def cv literal_def)
  ultimately show ?thesis
    using c by (subst split_loop.simps) (simp add: cv literal_def special_def)
qed

lemma split_white: "isWhite c \<Longrightarrow> split_loop False args (c # s) = split_loop False args s"
proof (cases s)
  case Nil
  then show "isWhite c \<Longrightarrow> ?thesis"
    by (simp add: split_loop.simps skipWhite_def)
next
  case (Cons d t)
  assume c: "isWhite c"
  have "skipWhite (c # s) = skipWhite s"
    using c by (simp add: skipWhite_def)
  with Cons show ?thesis
    by (subst split_loop.simps [of _ _ "c # s"], subst split_loop.simps [of _ _ s]) simp
qed

lemma split_plain_words:
  "\<forall>w\<in>set ws. plain_word w \<Longrightarrow> args \<noteq> [] \<Longrightarrow>
   split_loop False args (concat (map (\<lambda>w. CHR '' '' # w) ws)) = [(args @ ws, False)]"
proof (induction ws arbitrary: args)
  case Nil
  then show ?case by (simp add: split_loop.simps skipWhite_def)
next
  case (Cons w ws)
  let ?r = "concat (map (\<lambda>w. CHR '' '' # w) ws)"
  have "?r = [] \<or> isWhite (hd ?r)"
    by (cases ws) (simp_all add: isWhite_def)
  then have "split_loop False args (w @ ?r) = split_loop False (args @ [w]) ?r"
    using Cons.prems by (intro split_plain_word) simp_all
  with Cons show ?case
    by (simp add: split_white isWhite_def)
qed

lemma split_plain:
  assumes "words \<noteq> []" and "\<forall>w\<in>set words. plain_word w"
  shows "split_commands (join CHR '' '' words) = [(words, False)]"
proof -
  obtain w ws where ws: "words = w # ws" using assms(1) by (cases words) auto
  let ?r = "concat (map (\<lambda>w. CHR '' '' # w) ws)"
  have "?r = [] \<or> isWhite (hd ?r)"
    by (cases ws) (simp_all add: isWhite_def)
  then have "split_loop False [] (w @ ?r) = split_loop False [w] ?r"
    using assms(2) split_plain_word [of w ?r "[]"] by (simp add: ws)
  with assms(2) show ?thesis
    using split_plain_words [of ws "[w]"]
    by (simp add: split_commands_loop ws join_Cons plain_word_def)
qed

lemma plain_text: "\<forall>w\<in>set words. plain_word w \<Longrightarrow> c \<in> set (join CHR '' '' words) \<Longrightarrow> c \<noteq> NUL \<and> c \<noteq> NL"
proof (cases words)
  case (Cons w ws)
  assume "\<forall>w\<in>set words. plain_word w" "c \<in> set (join CHR '' '' words)"
  with Cons have "c = CHR '' '' \<or> literal c"
    by (auto simp: join_Cons plain_word_def split: if_splits)
  then show ?thesis
    by (auto simp: literal_def isWhite_def)
qed simp

lemma nl_of_str: "nl \<in> set (str_bytes s) \<Longrightarrow> NL \<in> set s"
proof -
  assume "nl \<in> set (str_bytes s)"
  then have "char_of (unat nl) \<in> set (bytes_str (str_bytes s))"
    unfolding bytes_str_def set_map by blast
  moreover have "(char_of (10 :: nat) :: char) = NL"
    by code_simp
  ultimately show "NL \<in> set s"
    by (simp add: nl_def)
qed

lemma plain_line:
  assumes "\<forall>w\<in>set words. plain_word w" and "words \<noteq> []"
  shows "lines_of (str_bytes (join CHR '' '' words)) = [str_bytes (join CHR '' '' words)]"
    "cstr (join CHR '' '' words) = join CHR '' '' words" "join CHR '' '' words \<noteq> []"
proof -
  show ne: "join CHR '' '' words \<noteq> []"
    using assms by (cases words) (auto simp: join_Cons plain_word_def)
  show "cstr (join CHR '' '' words) = join CHR '' '' words"
    using plain_text [OF assms(1)] by (intro cstr_id) blast
  have "nl \<notin> set (str_bytes (join CHR '' '' words))"
    using plain_text [OF assms(1)] nl_of_str by blast
  moreover have "str_bytes (join CHR '' '' words) \<noteq> []"
    using ne by (simp add: str_bytes_def)
  ultimately show "lines_of (str_bytes (join CHR '' '' words)) = [str_bytes (join CHR '' '' words)]"
    by (rule lines_of_end)
qed

lemma run_plain_command:
  assumes "words \<noteq> []" and "\<forall>w\<in>set words. plain_word w"
  shows "parseClientCommand os u e junk (Suc n) (\<lambda>_. True) fd (join CHR '' '' words) =
    clientCommand os u e junk (parseClientCommand os u e junk n) n fd words"
proof -
  have "thenP m (ret ()) = m" for m :: "unit dprog"
    by (simp add: thenP_def fun_eq_iff run_simps split: prod.split outcome.split)
  then show ?thesis
    by (simp add: split_plain [OF assms])
qed

text \<open>
  C13. A command arrives: netevent command with words that need no quoting sends them, on a
  kernel that grants every call, to the daemon; there, however the stream is split, it is the
  one line of the client, after which the client is removed, and processing it executes
  clientCommand with exactly those words, an exception being reported to the client.
\<close>

theorem command_executed:
  assumes "\<forall>h c. os_call os h c = None" and "os_open os (history w) NewSocket = Inr fd" and "fd \<noteq> - 1" and "fd \<noteq> 1"
    and "cstr sock \<noteq> []" and "length sock < sun_path_size" and "words \<noteq> []" and "\<forall>v\<in>set words. plain_word v"
  shows "\<exists>r h. cmd_command os junk (''command'' # sock # words) rs w = (Ret r, w\<lparr>history := history w @ h\<rparr>) \<and>
    (\<forall>y n cl ps s. concat ps = wrote fd h \<longrightarrow> sends (sys_os y) cl ps \<longrightarrow> gets cl (history s) = 0 \<longrightarrow> 0 \<le> cl \<longrightarrow>
       cl \<notin> set (gFDRemoveQueue s) \<longrightarrow> sys_fuel y = Suc n \<longrightarrow>
       (\<exists>h' line. forP (\<lambda>_. readCommand (sys_os y) cl) [0 :: nat, 1] s =
          (Ret (), s\<lparr>history := history s @ h', gCommandQueue := gCommandQueue s @ [(cl, line)],
             gFDRemoveQueue := gFDRemoveQueue s @ [cl]\<rparr>) \<and>
        run_command y (cl, line) =
          catchP (clientCommand (sys_os y) (sys_uapi y) (sys_endian y) (sys_junk y)
              (parseClientCommand (sys_os y) (sys_uapi y) (sys_endian y) (sys_junk y) n) n cl words)
            (\<lambda>ex. toClient (sys_os y) cl (''ERROR: '' @ what ex @ [NL]))))"
proof -
  let ?t = "join CHR '' '' words"
  note line = plain_line [OF assms(8,7)]
  obtain r h where h: "cmd_command os junk (''command'' # sock # words) rs w = (Ret r, w\<lparr>history := history w @ h\<rparr>)"
    "wrote fd h = str_bytes ?t"
    using run_cmd_command [OF assms(1-6) line(3), of junk rs] by blast
  have "forP (\<lambda>_. readCommand (sys_os y) cl) [0 :: nat, 1] s =
      (Ret (), s\<lparr>history := history s @ [(GetLine cl, None), (GetLine cl, Some 0)],
         gCommandQueue := gCommandQueue s @ [(cl, ?t)], gFDRemoveQueue := gFDRemoveQueue s @ [cl]\<rparr>)"
    if "concat ps = wrote fd h" "sends (sys_os y) cl ps" "gets cl (history s) = 0" "0 \<le> cl" "cl \<notin> set (gFDRemoveQueue s)"
    for y cl ps s
    using run_client [OF that(2-5)] unfolding that(1) h(2) line(1) by (simp add: queued_def line(2))
  moreover have "run_command y (cl, ?t) = catchP (clientCommand (sys_os y) (sys_uapi y) (sys_endian y) (sys_junk y)
      (parseClientCommand (sys_os y) (sys_uapi y) (sys_endian y) (sys_junk y) n) n cl words)
      (\<lambda>ex. toClient (sys_os y) cl (''ERROR: '' @ what ex @ [NL]))" if "sys_fuel y = Suc n" for y n cl
    unfolding run_command_def run_text_def prod.case that run_plain_command [OF assms(7,8)] ..
  ultimately show ?thesis
    using h(1) by (intro exI [of _ r] exI [of _ h]) blast
qed

definition talking_sys :: "byte list list \<Rightarrow> sys" where
  "talking_sys ps = \<lparr>sys_os = talking_os ps, sys_uapi = linux_uapi, sys_endian = Little, sys_junk = [],
     sys_fuel = 1, sys_signals = (\<lambda>_. [])\<rparr>"

theorem command_executed_witness:
  "\<exists>h. history (snd (cmd_command quiet_os [] [''command'', ''/run/ne'', ''use'', ''pc''] [] \<lparr>history = []\<rparr>)) = h \<and>
    (\<forall>ps. concat ps = wrote 3 h \<longrightarrow> (\<exists>line s'.
       forP (\<lambda>_. readCommand (talking_os ps) 5) [0 :: nat, 1] daemon_init = (Ret (), s') \<and> gCommandQueue s' = [(5, line)] \<and>
       run_command (talking_sys ps) (5, line) =
         catchP (clientCommand (talking_os ps) linux_uapi Little [] (parseClientCommand (talking_os ps) linux_uapi Little [] 0) 0 5
            [''use'', ''pc''])
           (\<lambda>ex. toClient (talking_os ps) 5 (''ERROR: '' @ what ex @ [NL]))))"
proof -
  have q: "\<forall>h c. os_call quiet_os h c = None" "os_open quiet_os (history \<lparr>history = []\<rparr>) NewSocket = Inr 3"
    by (simp_all add: quiet_os_def)
  have name: "cstr ''/run/ne'' \<noteq> []" "length ''/run/ne'' < sun_path_size"
    by (simp_all add: cstr_def sun_path_size_def)
  have words: "\<forall>v\<in>set [''use'', ''pc'']. plain_word v"
    by (simp add: plain_word_def literal_def isWhite_def special_def isQuote_def)
  obtain r h where h: "cmd_command quiet_os [] [''command'', ''/run/ne'', ''use'', ''pc''] [] \<lparr>history = []\<rparr> = (Ret r, \<lparr>history = h\<rparr>)"
    and all: "\<forall>y n cl ps s. concat ps = wrote 3 h \<longrightarrow> sends (sys_os y) cl ps \<longrightarrow> gets cl (history s) = 0 \<longrightarrow> 0 \<le> cl \<longrightarrow>
       cl \<notin> set (gFDRemoveQueue s) \<longrightarrow> sys_fuel y = Suc n \<longrightarrow>
       (\<exists>h' line. forP (\<lambda>_. readCommand (sys_os y) cl) [0 :: nat, 1] s =
          (Ret (), s\<lparr>history := history s @ h', gCommandQueue := gCommandQueue s @ [(cl, line)],
             gFDRemoveQueue := gFDRemoveQueue s @ [cl]\<rparr>) \<and>
        run_command y (cl, line) =
          catchP (clientCommand (sys_os y) (sys_uapi y) (sys_endian y) (sys_junk y)
              (parseClientCommand (sys_os y) (sys_uapi y) (sys_endian y) (sys_junk y) n) n cl [''use'', ''pc''])
            (\<lambda>ex. toClient (sys_os y) cl (''ERROR: '' @ what ex @ [NL])))"
    using command_executed [OF q _ _ name _ words, of "[]" "[]"] by auto
  have "\<exists>line s'. forP (\<lambda>_. readCommand (talking_os ps) 5) [0 :: nat, 1] daemon_init = (Ret (), s') \<and> gCommandQueue s' = [(5, line)] \<and>
       run_command (talking_sys ps) (5, line) =
         catchP (clientCommand (talking_os ps) linux_uapi Little [] (parseClientCommand (talking_os ps) linux_uapi Little [] 0) 0 5
            [''use'', ''pc''])
           (\<lambda>ex. toClient (talking_os ps) 5 (''ERROR: '' @ what ex @ [NL]))" if "concat ps = wrote 3 h" for ps
    using all [rule_format, of ps "talking_sys ps" 5 daemon_init 0] that talking_sends [of ps 5]
    by (auto simp: talking_sys_def gets_def daemon_init_def)
  with h show ?thesis
    by auto
qed

end
