(* ===== verification/Netevent.thy ===== *)
theory Netevent
  imports DaemonLoop Create
begin

text \<open>
  \<open>main\<close> of \<^verbatim>\<open>main.cpp\<close>: it runs the subcommand its first argument names and turns
  exceptions into an exit status. \<open>env\<close> is what a process finds: the system it runs on,
  the results of \<open>getopt_long\<close> for its arguments and the arguments left, its standard input,
  the clients that will connect to it and what its connections answer.
\<close>

record env =
  env_sys :: sys
  env_version :: string
  env_getopt :: "string list \<Rightarrow> getopt \<times> string list"
  env_stdin :: "byte list \<times> errno"
  env_reads :: "read_result list"
  env_clients :: "(byte list \<times> errno) list"
  env_piped :: "byte list \<times> errno"
  env_rounds :: nat

text \<open>
  A subcommand starts with its own state, of which the rest of the process sees the history.
  \<open>gUse_UI_DEV_SETUP\<close> starts true, the static objects of the daemon empty.
\<close>

definition within :: "'s world_scheme \<Rightarrow> ('s world_scheme, 'a) prog \<Rightarrow> (world, 'a) prog" where
  "within s0 m = (\<lambda>w. case m (s0\<lparr>history := history w\<rparr>) of (r, t) \<Rightarrow> (r, \<lparr>history = history t\<rparr>))"

definition create_init :: "env \<Rightarrow> cstate" where
  "create_init v = \<lparr>history = [], rdata = fst (env_stdin v), rend = snd (env_stdin v), use_setup = True,
     devices = [], serversock = Socket_new, inhandle = - 1, clients = env_clients v\<rparr>"

definition subcommands :: "string list" where
  "subcommands = [''show'', ''cat'', ''create'', ''daemon'', ''command'']"

definition run_subcommand :: "env \<Rightarrow> string list \<Rightarrow> (world, status) prog" where
  "run_subcommand v argv =
     (let y = env_sys v; os = sys_os y; u = sys_uapi y; e = sys_endian y; junk = sys_junk y; n = env_rounds v;
          (opts, args) = env_getopt v argv; cmd = argv ! 0
      in if cmd = ''show'' then cmd_show os e 0 opts args
         else if cmd = ''cat'' then cmd_cat os u e 0 n opts args
         else if cmd = ''create'' then
           within (create_init v) (cmd_create os u e junk opts args (env_reads v) (env_piped v) n)
         else if cmd = ''daemon'' then within daemon_init (cmd_daemon y opts args n)
         else bindP (cmd_command os junk argv (env_reads v)) (\<lambda>n. ret (Status n)))"

text \<open>
  The two handlers of \<open>main\<close>: the first is for \<open>Exception\<close> and its subclasses, which are all
  the program throws itself; the second is for the other classes of the C++ library.
\<close>

fun is_Exception :: "exn \<Rightarrow> bool" where
  "is_Exception (Exception m) = True"
| "is_Exception (DeviceException m) = True"
| "is_Exception (MsgException m) = True"
| "is_Exception (ErrnoException m err) = True"

lemma is_Exception_all [simp]: "is_Exception ex"
  by (cases ex) simp_all

definition netevent_main :: "env \<Rightarrow> string list \<Rightarrow> (world, status) prog" where
  "netevent_main v argv =
     (let os = sys_os (env_sys v); cmd = argv ! 1
      in if length argv < 2 then usage os EXIT_FAILURE
         else if cmd = ''-V'' \<or> cmd = ''--version'' then show_version os (env_version v) EXIT_SUCCESS
         else if cmd = ''-h'' \<or> cmd = ''-?'' \<or> cmd = ''--help'' then usage os EXIT_SUCCESS
         else if cmd \<in> set subcommands then
           catchP (run_subcommand v (drop 1 argv))
             (\<lambda>ex. if is_Exception ex
                then thenP (do_ignore os (Stderr (''error: '' @ what ex @ [NL]))) (ret (Status 2))
                else thenP (do_ignore os (Stderr (''unhandled error: '' @ what ex @ [NL]))) (ret (Status 2)))
         else thenP (do_ignore os (Stderr (''unknown command: '' @ cmd @ [NL]))) (usage os EXIT_FAILURE))"

text \<open>
  The status \<open>main\<close> ends with, as its parent sees it: eight bits. \<open>None\<close>: the process does
  not end.
\<close>

definition exit_code :: "status \<Rightarrow> 8 word option" where
  "exit_code st = (case st of Status n \<Rightarrow> Some (word_of_int n) | Exited n \<Rightarrow> Some (word_of_int n) | Blocked \<Rightarrow> None)"

section \<open>The statuses\<close>

definition known :: "status \<Rightarrow> bool" where
  "known st \<longleftrightarrow> st \<in> {Status 0, Status 2, Status 3, Status (- 1), Exited EXIT_SUCCESS, Exited EXIT_FAILURE, Blocked}"

lemma returns_usage:
  assumes "n \<in> {EXIT_SUCCESS, EXIT_FAILURE}"
  shows "returns known (usage os n)" "returns known (usage_show os n)" "returns known (usage_cat os n)"
    "returns known (usage_create os n)" "returns known (usage_daemon os n)" "returns known (show_version os v n)"
proof -
  have "returns known (usage_exit os ls n)" for ls
    using assms unfolding usage_exit_def by (intro returns_intro) (auto simp: known_def)
  then show "returns known (usage os n)" "returns known (usage_show os n)" "returns known (usage_cat os n)"
    "returns known (usage_create os n)" "returns known (usage_daemon os n)" "returns known (show_version os v n)"
    unfolding usage_def usage_show_def usage_cat_def usage_create_def usage_daemon_def show_version_def
    by blast+
qed

definition option_exit :: "'o parsed \<Rightarrow> bool" where
  "option_exit p \<longleftrightarrow> (\<forall>msg n. p = Exit msg n \<longrightarrow> n \<in> {EXIT_SUCCESS, EXIT_FAILURE}) \<and> (\<forall>n. p = Return n \<longrightarrow> n = - 1)"

lemma parse_options_exit: "(\<And>o1 c arg. option_exit (step o1 c arg)) \<Longrightarrow> option_exit (parse_options step o1 os1)"
proof (induction os1 arbitrary: o1)
  case (Cons x os1)
  obtain c arg where x: "x = (c, arg)" by (cases x)
  have "option_exit (step o1 c arg)" "option_exit (parse_options step o2 os1)" for o2
    using Cons.prems by (rule Cons.IH | blast)+
  then show ?case by (cases "step o1 c arg") (simp_all add: x)
qed (simp add: option_exit_def)

lemma option_exit_intro:
  "option_exit p \<Longrightarrow> option_exit q \<Longrightarrow> option_exit (if b then p else q)"
  "option_exit (Options o1)" "option_exit (Exit msg EXIT_SUCCESS)" "option_exit (Exit msg EXIT_FAILURE)"
  "option_exit (Return (- 1))"
  by (simp_all add: option_exit_def)

lemma steps_exit:
  "option_exit (show_step g c arg)" "option_exit (cat_step o1 c arg)" "option_exit (daemon_step fs c arg)"
  unfolding show_step_def cat_step_def daemon_step_def by (rule option_exit_intro)+

lemma create_step_exit: "option_exit (create_step o2 c arg)"
  unfolding create_step_def Let_def by (rule option_exit_intro)+

lemma returns_with_options:
  assumes "option_exit p" and "\<And>n. n \<in> {EXIT_SUCCESS, EXIT_FAILURE} \<Longrightarrow> returns known (help n)"
    and "\<And>o1. returns known (m o1)"
  shows "returns known (with_options os p help m)"
  using assms by (cases p) (auto simp: with_options_def option_exit_def known_def intro!: returns_intro)

lemma returns_finally: "returns Q m \<Longrightarrow> returns Q (finallyP m c)"
  unfolding returns_def by (auto simp: run_simps split: prod.splits outcome.splits)

lemma returns_when: "returns Q m \<Longrightarrow> Q () \<Longrightarrow> returns Q (whenP b m)"
  by (auto simp: returns_def run_simps)

lemma returns_obj: "returns Q m \<Longrightarrow> returns Q (with_obj rd wr m)" "returns Q n \<Longrightarrow> returns Q (lift_world n)"
  by (auto simp: returns_def with_obj_def lift_world_def split: prod.splits) (metis prod.collapse)?

lemma returns_case_parse:
  "(\<And>x. returns Q (f x)) \<Longrightarrow> returns Q m \<Longrightarrow> returns Q n \<Longrightarrow>
   returns Q (case p of Parsed x \<Rightarrow> f x | Rejected \<Rightarrow> m | Overflow \<Rightarrow> n)"
  by (cases p) auto

lemma returns_case_prod: "(\<And>a b. returns Q (f a b)) \<Longrightarrow> returns Q (case x of (a, b) \<Rightarrow> f a b)"
  by (cases x) simp

lemmas status_intro = returns_intro returns_finally returns_obj returns_case_parse returns_case_prod
  returns_usage returns_with_options parse_options_exit steps_exit create_step_exit

lemma known_status [simp]:
  "known (Status 0)" "known (Status 2)" "known (Status 3)" "known (Status (- 1))" "known Blocked"
  "known (Exited EXIT_SUCCESS)" "known (Exited EXIT_FAILURE)"
  by (simp_all add: known_def)

lemma returns_show: "returns known (cmd_show os e pad opts args)"
  unfolding cmd_show_def by (intro status_intro; simp)

lemma returns_cat_loops: "returns known (cat_legacy os e pad n d)" "returns known (cat_events os e pad n d)"
  by (induction n arbitrary: pad d) (auto intro!: status_intro simp: write_failed_def Let_def)

lemma returns_cat: "returns known (cmd_cat os u e pad n opts args)"
  unfolding cmd_cat_def by (intro status_intro returns_cat_loops; simp)

lemma returns_daemon: "returns known (cmd_daemon y opts args n)"
  unfolding cmd_daemon_def by (intro status_intro; simp)

lemma returns_cat_copy: "returns (\<lambda>n. n = 0) (cat os dst rs)"
  by (induction os dst rs rule: cat.induct) (auto intro!: returns_intro)

lemma returns_create_loops:
  "returns (\<lambda>r. r \<in> {None, Some 0}) (create_loop os u e dm n)"
  "returns (\<lambda>r. r \<in> {None, Some 0}) (legacy_loop os e d n)"
  by (induction n) (auto intro!: status_intro simp: returns_intro)

lemma returns_create_connect: "returns (\<lambda>r. r \<in> {None, Some 0}) (create_connect os junk daemonize name reads piped)"
proof -
  have copy: "returns (\<lambda>r. r \<in> {None, Some 0}) (finallyP (bindP (cat os fd reads) (\<lambda>r. ret (Some r))) c)" for fd c
  proof (rule returns_finally)
    show "returns (\<lambda>r. r \<in> {None, Some 0}) (bindP (cat os fd reads) (\<lambda>r. ret (Some r)))"
      using returnsD [OF returns_cat_copy] by (auto simp: returns_def run_simps split: prod.splits outcome.splits)
  qed
  show ?thesis
    unfolding create_connect_def by (intro status_intro copy) simp_all
qed

lemma returns_create_run: "returns (\<lambda>r. r \<in> {None, Some 0}) (create_run os u e junk o1 reads piped n)"
  unfolding create_run_def
  by (rule returns_bind_from [of "\<lambda>r. r \<in> {None, Some 0}"];
      intro status_intro returns_create_connect returns_create_loops; simp)

lemma returns_cmd_create: "returns known (cmd_create os u e junk opts args reads piped n)"
proof -
  have legacy: "returns (\<lambda>r. r \<in> {None, Some 0}) (cmd_create_legacy os u e n)"
    unfolding cmd_create_legacy_def by (intro status_intro returns_create_loops)
  have old: "returns known (bindP (cmd_create_legacy os u e n) (\<lambda>r. ret (case r of None \<Rightarrow> Blocked | Some n \<Rightarrow> Status n)))"
    by (rule returns_bind_from [OF legacy]) (auto intro!: status_intro)
  have run: "returns (\<lambda>r. r \<in> {None, Some 0}) (catchP (create_run os u e junk o1 reads piped n)
      (\<lambda>ex. thenP (create_cleanup os) (raise ex)))" for o1
    by (intro status_intro returns_create_run)
  have new: "returns known (bindP (catchP (create_run os u e junk o1 reads piped n)
      (\<lambda>ex. thenP (create_cleanup os) (raise ex))) (\<lambda>r. case r of
        None \<Rightarrow> ret Blocked
      | Some n \<Rightarrow> thenP (create_cleanup os) (ret (Status n))))" for o1
    by (rule returns_bind_from [OF run]) (auto intro!: status_intro)
  show ?thesis
    unfolding cmd_create_def by (intro status_intro old new; simp)
qed

lemma returns_command: "returns (\<lambda>n. known (Status n)) (cmd_command os junk args rs)"
proof -
  have "returns (\<lambda>n. known (Status n)) (print_response os rs)"
    by (induction os rs rule: print_response.induct) (auto intro!: returns_intro)
  then show ?thesis
    unfolding cmd_command_def Let_def by (intro status_intro; simp)
qed

lemma returns_within: "returns Q m \<Longrightarrow> returns Q (within s0 m)"
  by (auto simp: returns_def within_def split: prod.splits)

lemma returns_subcommand: "returns known (run_subcommand v argv)"
proof -
  have command: "returns known (bindP (cmd_command os junk argv rs) (\<lambda>n. ret (Status n)))" for os junk rs
    by (rule returns_bind_from [OF returns_command]) (simp add: returns_intro)
  show ?thesis
    unfolding run_subcommand_def Let_def
    by (intro status_intro command returns_within returns_show returns_cat returns_cmd_create returns_daemon)
qed

lemma returns_main: "returns known (netevent_main v argv)"
  unfolding netevent_main_def Let_def by (intro status_intro returns_subcommand; simp)

lemma usage_runs: "fst (usage os n w) = Ret (Exited n)" "fst (show_version os v n w) = Ret (Exited n)"
  by (simp_all add: usage_def show_version_def usage_exit_def run_simps)

lemma main_contained: "fst (netevent_main v argv w) \<noteq> Throw ex"
  by (auto simp: netevent_main_def Let_def usage_runs run_simps split: prod.split outcome.split)

text \<open>
  C12. How netevent ends: no exception leaves main; whatever the arguments, the system and
  the streams do, the exit status the parent sees is 0, 1, 2, 3 or 255; and if a subcommand
  throws, main prints its message last, on standard error, and the status is 2.
\<close>

theorem netevent_main_ends:
  assumes "netevent_main v argv w = (r, w')"
  shows "(\<forall>ex. r \<noteq> Throw ex) \<and>
    (\<forall>st c. r = Ret st \<longrightarrow> exit_code st = Some c \<longrightarrow> c \<in> {0, 1, 2, 3, 255}) \<and>
    (\<forall>ex t. 2 \<le> length argv \<longrightarrow> argv ! 1 \<in> set subcommands \<longrightarrow>
       run_subcommand v (drop 1 argv) w = (Throw ex, t) \<longrightarrow>
       r = Ret (Status 2) \<and> map fst (history w') = map fst (history t) @ [Stderr (''error: '' @ what ex @ [NL])])"
proof (intro conjI allI impI)
  show "r \<noteq> Throw ex" for ex using main_contained [of v argv w ex] assms by simp
  show "c \<in> {0, 1, 2, 3, 255}" if "r = Ret st" "exit_code st = Some c" for st c
  proof -
    have "known st" using returnsD [OF returns_main] assms that by blast
    with that(2) show ?thesis
      by (auto simp: known_def exit_code_def EXIT_SUCCESS_def EXIT_FAILURE_def)
  qed
  assume "2 \<le> length argv" and sub: "argv ! 1 \<in> set subcommands"
  fix ex t assume run: "run_subcommand v (drop 1 argv) w = (Throw ex, t)"
  have "argv ! 1 \<notin> {''-V'', ''--version'', ''-h'', ''-?'', ''--help''}"
    using sub by (auto simp: subcommands_def)
  with assms sub run \<open>2 \<le> length argv\<close>
  have "(r, w') = thenP (do_ignore (sys_os (env_sys v)) (Stderr (''error: '' @ what ex @ [NL]))) (ret (Status 2)) t"
    by (simp add: netevent_main_def Let_def run_simps)
  then show "r = Ret (Status 2)" "map fst (history w') = map fst (history t) @ [Stderr (''error: '' @ what ex @ [NL])]"
    by (simp_all add: run_simps log_call_def)
qed

definition lost_env :: env where
  "lost_env = \<lparr>env_sys = \<lparr>sys_os = quiet_os\<lparr>os_open := (\<lambda>_ _. Inl ENOENT)\<rparr>, sys_uapi = linux_uapi, sys_endian = Little,
       sys_junk = [], sys_fuel = 5, sys_signals = (\<lambda>_. [])\<rparr>, env_version = ''2.2.1'', env_getopt = (\<lambda>argv. ([], drop 1 argv)),
     env_stdin = ([], 0), env_reads = [], env_clients = [], env_piped = ([], 0), env_rounds = 5\<rparr>"

theorem netevent_main_ends_witness:
  "\<exists>w'. netevent_main lost_env [''netevent'', ''show'', ''/dev/null''] \<lparr>history = []\<rparr> = (Ret (Status 2), w')"
proof -
  let ?argv = "[''netevent'', ''show'', ''/dev/null'']"
  obtain r w' where main: "netevent_main lost_env ?argv \<lparr>history = []\<rparr> = (r, w')" by fastforce
  obtain ex t where "run_subcommand lost_env (drop 1 ?argv) \<lparr>history = []\<rparr> = (Throw ex, t)"
    by (simp add: run_subcommand_def Let_def lost_env_def cmd_show_def InDevice_new_def quiet_os_def run_simps
        log_open_def throw_errno_def ErrnoException_new_Some cstr_def)
  with netevent_main_ends [OF main] main show ?thesis
    by (auto simp: subcommands_def)
qed

end
