(* ===== verification/Faults.thy ===== *)
theory Faults
  imports Netevent
begin

text \<open>
  What the code does where that can hardly be meant, beyond the properties of the other
  theories: descriptors that are not closed, undefined behaviour that input or the kernel can
  bring about, lines that lose a character, an event that fires twice.
\<close>

section \<open>Devices\<close>

text \<open>
  A constructor that throws leaves the descriptor it has opened: no call after \<open>open\<close> closes it.
\<close>

theorem InDevice_new_leak:
  assumes "os_open os (history s) (Open (cstr path)) = Inr fd"
    and "\<And>h. os_query os h (Query fd EVIOCGNAME) = Inl err"
  shows "\<exists>ex s'. InDevice_new os e path s = (Throw ex, s') \<and>
    history s' = history s @ [(Open (cstr path), None), (GotFd fd, None), (Query fd EVIOCGNAME, Some err)]"
  using assms
  by (simp add: InDevice_new_def in_ctl_def Let_def run_simps throw_errno_def ErrnoException_new_Some vsnprintf_def log_call_def log_open_def err_of_def)

theorem OutDevice_new_leak:
  assumes "length name < name_size" and "use_setup s"
    and "\<And>h. os_open os h (Open ''/dev/uinput'') = Inr fd"
    and "\<And>h. os_call os h (Ioctl fd (UI_DEV_SETUP (str_bytes name @ replicate (name_size - length name) 0) i)) = Some err"
    and "err \<noteq> EINVAL"
  shows "\<exists>ex s'. OutDevice_new os name i s = (Throw ex, s') \<and>
    (\<forall>c r. (c, r) \<in> set (drop (length (history s)) (history s')) \<longrightarrow> c \<noteq> Close fd)"
  using assms
  by (auto simp: OutDevice_new_def gDevicePaths_def Let_def run_simps throw_errno_def ErrnoException_new_Some vsnprintf_def log_call_def log_open_def)

text \<open>
  A code the kernel refuses: the message is formatted into a buffer that is then dropped, and
  the format itself is thrown with no arguments for its conversions.
\<close>

theorem refused_bit_undef:
  assumes "\<not> created d" and "os_call os (history s) (Ioctl (out_fd d) (UI_SET_BIT req b)) = Some err"
  shows "fst (setGenericBit os d req b ''failed to set %zu bit %zu'' s) = Undef"
  using assms by (simp add: setGenericBit_def throw_format_def run_simps)

section \<open>The daemon\<close>

text \<open>
  The answer to a command that throws a long message: with \<open>ERROR:\<close> in front and a newline
  behind it is longer than the buffer it is formatted into, and more is written than that
  holds. A name of about 4100 characters in \<open>device remove\<close> does it.
\<close>

theorem long_error_overflows:
  assumes "run_text y (\<lambda>_. True) client text s = (Throw (MsgException_new msg), s')" and "4089 \<le> length msg"
  shows "fst (run_command y (client, text) s) = Undef"
  using assms by (simp add: run_command_def run_simps toClient_def MsgException_what)

text \<open>The last character of a line goes, also where it is not the newline.\<close>

theorem source_line_cut:
  "source_line (''quit'' @ [NL]) = Some ''quit''" "source_line ''quit'' = Some ''qui''"
  by (simp_all add: source_line_def isspace_def isWhite_def)

text \<open>
  A callback that adds a descriptor to the queue it is called from, as an \<open>output-changed\<close>
  action that removes a device does when the current output goes.
\<close>

theorem remove_queue_undef:
  assumes "gFDRemoveQueue s = fd # fds" and "map_find fd (gFDCBs s) = Some cb"
    and "onRemove y fd cb s = (Ret (), s')" and "gFDRemoveQueue s' \<noteq> gFDRemoveQueue s"
  shows "fst (processRemoveQueue y s) = Undef"
  using assms by (simp add: processRemoveQueue_def run_simps)

text \<open>A device whose poll has both an error and a hangup is lost twice: its action runs twice.\<close>

theorem lost_twice:
  assumes "map_find fd (gFDCBs s) = Some (CbDevice p dev)" and "pe_err ev" and "pe_hup ev"
    and "device_lost y p s = (Ret (), s1)" and "check_quit y s1 = (Ret False, s2)"
  shows "dispatch y fd ev s = thenP (device_lost y p)
    (bindP (check_quit y) (\<lambda>q. if q then ret False else
       thenP (whenP (pe_in ev) (onRead y fd (CbDevice p dev))) (bindP (check_quit y) (\<lambda>q. ret (\<not> q))))) s2"
  using assms by (simp add: dispatch_def run_simps onError_def onHUP_def)

end
