(* ===== verification/Spec2Isabelle.thy ===== *)
theory Spec2Isabelle
  imports Prelude Program World Bitfield BitsHeap CString NumParse Proto Tables Reader Writer Announce
    Handles Sockets StdMap Usage Commands Create Pipeline Granting Legacy Cmdline Daemon DaemonCmd Children DaemonLoop
    Registry DaemonSteps DaemonInv DaemonProps DaemonFrame Outputs Relay Mirror CreateSpec Client Netevent Faults
begin

text \<open>
  A model of netevent, the program under \<^verbatim>\<open>src/\<close>, with the properties that make
  it correct.

  \<^bold>\<open>The program.\<close> netevent forwards the events of input devices. \<open>netevent cat\<close> opens a device
  of \<^verbatim>\<open>/dev/input\<close>, describes it on standard output and then writes one packet per
  event; \<open>netevent create\<close> reads such a stream, from standard input or from the clients of a
  socket, creates uinput devices and replays the events on them. \<open>netevent daemon\<close> holds any
  number of devices and outputs, takes commands over a socket, and sends the events of all
  devices to the current output, hotkeys excepted; \<open>netevent command\<close> sends it commands and
  \<open>netevent show\<close> prints events.

  \<^bold>\<open>How code is modelled.\<close> A function that throws or has effects is a value of type
  \<open>('s, 'a) prog\<close> (\<open>Program\<close>): a function from a state to an outcome and a state. The
  outcomes are \<open>Ret\<close>, \<open>Throw\<close> with the exception, \<open>Undef\<close> for undefined behaviour of C++
  (out of bounds, dangling, signed overflow), which nothing catches, and \<open>NoFuel\<close>. The
  kernel is a parameter (\<open>os\<close> in \<open>World\<close>): its answers may depend on the whole history of
  calls, which the state records, so that a theorem for all \<open>os\<close> covers every failure of
  every call. Numbers have their C width (\<open>8 word\<close> to \<open>64 word\<close>), or are \<open>nat\<close> and \<open>int\<close> where
  the code cannot overflow; hosts have a byte order (\<open>endian\<close>); the sizes that the kernel headers
  define are the record \<open>uapi\<close>. Files under \<^verbatim>\<open>src/src/\<close> and their theories:

  \<^item> \<^verbatim>\<open>types.h\<close>, exceptions in \<^verbatim>\<open>main.cpp\<close>: \<open>Program\<close>, with the 4096-byte
    buffers of the messages;
  \<^item> \<^verbatim>\<open>utils.h\<close>: \<open>World\<close> (\<open>mustRead\<close>, \<open>mustWrite\<close>, \<open>join\<close>); a scope guard is
    \<open>finallyP\<close> where it is used;
  \<^item> \<^verbatim>\<open>bitfield.h\<close>, \<^verbatim>\<open>bitfield.cpp\<close>: \<open>Bitfield\<close>, and \<open>BitsHeap\<close> for the blocks of
    memory the objects own;
  \<^item> \<^verbatim>\<open>main.cpp\<close>: \<open>NumParse\<close> (numbers, booleans, event names), \<open>Proto\<close> (packets and
    hello, with \<^verbatim>\<open>main.h\<close>), \<open>Tables\<close>, \<open>Usage\<close> (help texts, option loops), \<open>Commands\<close>
    (\<open>show\<close>, \<open>cat\<close>, \<open>command\<close>), \<open>Create\<close> and \<open>Netevent\<close> (\<open>main\<close>);
  \<^item> \<^verbatim>\<open>reader.cpp\<close>: \<open>Reader\<close> (\<open>InDevice\<close>); \<^verbatim>\<open>writer.cpp\<close>: \<open>Writer\<close>
    (\<open>OutDevice\<close>);
  \<^item> \<^verbatim>\<open>iohandle.h\<close>: \<open>Handles\<close>; \<^verbatim>\<open>socket.h\<close>, \<^verbatim>\<open>socket.cpp\<close>: \<open>Sockets\<close>;
  \<^item> \<^verbatim>\<open>daemon.cpp\<close>: \<open>Cmdline\<close> (the tokenizer), \<open>Daemon\<close> (the globals, devices, hotkeys,
    events), \<open>DaemonCmd\<close> (outputs and commands), \<open>Children\<close> (what the processes it forks do),
    \<open>DaemonLoop\<close> (callbacks, queues, signals, the loop).

  \<open>Prelude\<close>, \<open>CString\<close> and \<open>StdMap\<close> hold what these share: codecs of integers in memory, C
  strings, \<open>std::map\<close> as an ordered association list.

  \<^bold>\<open>What is proved.\<close>

  \<^item> From end to end: \<open>Announce\<close> composes the sending half in \<open>Reader\<close> with the receiving
    half in \<open>Writer\<close>, \<open>Pipeline\<close> composes \<open>cat\<close> and \<open>create\<close>, \<open>Outputs\<close> an output of the daemon and
    \<open>create\<close>, \<open>Relay\<close> the events on their way from the daemon's devices to those of \<open>create\<close>,
    on hosts of any two byte orders; \<open>Mirror\<close> shows that the devices of \<open>create\<close> stay those of the
    daemon while devices report events, leave, are added under unused ids or fail to be added (not
    when an id is given out twice, a persistent device leaves or a write fails), and \<open>Client\<close> that
    what \<open>netevent command\<close> is given is what the daemon executes; \<open>Legacy\<close> does the same for the netevent 1
    protocol, between hosts that are alike.
  \<^item> \<open>Create\<close>: what the duplicate modes do, that the loop ends, and that the devices stay an ordered
    map of created devices (stated in \<open>Pipeline\<close>). \<open>CreateSpec\<close>: an abstract machine over the messages of the protocol,
    which the loop implements, whatever descriptors the kernel gives (\<open>Granting\<close>); where it gives
    none that is open, the devices do not mix.
  \<^item> \<open>Registry\<close>, \<open>DaemonSteps\<close>, \<open>DaemonInv\<close>: the invariant of the daemon. Callbacks, inputs,
    outputs, clients, hotkeys and open descriptors fit together in every round of every run.
    \<open>Registry\<close> has the invariant and what opening, closing and removing do to it; \<open>DaemonSteps\<close> a
    small calculus for the operations (\<open>inert\<close>, \<open>leads\<close>, \<open>held\<close>, \<open>owns\<close>); \<open>DaemonInv\<close> goes through
    the commands, the callbacks and the loop. The mutual recursion of \<open>fireEvent\<close>,
    \<open>clientCommand\<close>, \<open>sourceCommandFile\<close> and \<open>parseClientCommand\<close> is cut by a locale: what a
    text may do (\<open>registry_runner\<close>) is assumed of the inner texts and then proved of
    \<open>parseClientCommand\<close> by induction on the fuel.
  \<^item> \<open>DaemonProps\<close>: an abstract router the daemon implements, how devices leave, what a failed
    addition and a lost output change. \<open>DaemonFrame\<close>: what command texts cannot touch (\<open>calm_runner\<close>), from which follow that
    the commands of a round have their turns in order, an error staying with its command, and that a quit or a signal ends the loop.
  \<^item> Parsers and printers: round trips for numbers and for the command language, and the
    limits within which the number parsers look.
  \<^item> Memory: the representation invariant of \<open>Bits\<close>, the objects on the heap as a refinement of
    the values (no double free, no use after free), the ownership of descriptors by
    \<open>IOHandle\<close>, the message buffer of \<open>ErrnoException\<close>, written cell by cell.
  \<^item> \<open>Children\<close>: when the daemon comes back from waiting for a foreground command.

  Some theorems show what the code does where that can hardly be meant; the findings of the
  manifest name them. Among these are an id that a removal makes ambiguous, an action that
  never ends, and a number parser that loses its limit; \<open>Faults\<close> collects those that are about
  single operations.

  \<^bold>\<open>Interfaces.\<close> The locales are \<open>fixed_codec\<close> (encode and decode in a fixed number of bytes; one
  interpretation per integer and struct of the wire format), \<open>dictionary\<close> (the maps),
  \<open>bit_array\<close>, \<open>event_sender\<close> (the two loops of \<open>cat\<close>), \<open>stream_invariant\<close> (properties that reading a packet cannot affect),
  \<open>registry_runner\<close> and \<open>calm_runner\<close>.

  \<^bold>\<open>Fuel.\<close> Loops that need not end take fuel and give \<open>NoFuel\<close> without it. \<open>create_loop_terminates\<close>
  shows that \<open>create\<close> needs no more than the bytes and clients there are. The loop of the
  daemon and its command texts can run forever (one theorem is about that), so the invariants
  are stated for every amount of fuel, and \<open>NoFuel\<close> is one more place where they hold;
  \<open>quit_ends_loop\<close> and \<open>signal_ends_loop\<close> need one round.

  \<^bold>\<open>Not modelled.\<close> \<open>getopt_long\<close>, the kernel and the C library's buffered files are
  parameters; \<open>Client\<close> instantiates the last with the documented behaviour of \<open>getline\<close>. Of a
  process that forks the loop of the daemon follows the parent, in whose
  history the child is the entry \<open>Exec\<close>; the child itself is modelled apart in \<open>Children\<close>, from
  \<open>fork\<close> to \<open>exec\<close>, and the two are not interleaved. \<open>create --daemonize\<close> follows either. \<open>wait\<close> statuses
  are ignored as in the code. A signal is delivered where \<open>gQuit\<close> is read, and its effect on \<open>errno\<close>
  is left out. Move constructors are not definitions of their own where moving is copying.
  Memory that runs out is modelled for bit arrays only, so that no exception of the C++ library
  reaches the second handler of \<open>main\<close>. An event device gives whole events, so that reading one
  event is one call. \<open>readCommand\<close> takes a line when the loop calls it, once each time \<open>poll\<close> reports the
  client; \<open>Client\<close> says what each call does and leaves to the loop when it comes.
\<close>

end
